(* ===== verification/PyPrelude.thy ===== *)
theory PyPrelude
  imports Main "HOL-Library.AList" "HOL-Library.Sublist"
begin

section \<open>Python values shared by every component\<close>

text \<open>
  The Hacksaw scripts are Python. This theory holds what all component theories share:
  exceptions as values and the sequencing of computations that may raise (\<open>bindE\<close>,
  \<open>foldE\<close>, \<open>mapE\<close>), the string methods the scripts call, dictionaries as association
  lists in insertion order, and sets.

  A Python set is a list of its elements (\<open>pyset\<close>), in the order in which a \<open>for\<close>
  loop over it would meet them; Python leaves that order unspecified, so statements speak of
  \<open>set\<close> of such a list, or hold for every order. A dictionary is an association list, since
  Python iterates a dictionary in insertion order; \<open>AList.update\<close> changes a present key in
  place and appends a new one, as \<open>d[k] = v\<close> does.
\<close>

named_theorems py_simps \<open>evaluation rules for the Python operations\<close>
named_theorems py_sets \<open>the elements of sets and tables built by the Python operations\<close>

subsection \<open>Exceptions\<close>

text \<open>
  The exceptions the scripts can raise. Two are not exceptions: \<open>Unmodelled\<close> is the result of
  compiling a regular expression outside the fragment of theory \<open>PyRegex\<close>, and \<open>Diverges\<close> that of
  a loop that does not return.
\<close>

datatype py_exc =
    AssertionError
  | IndexError
  | KeyError
  | ValueError
  | TypeError
  | AttributeError
  | UnboundLocalError
  | FileNotFoundError
  | ReError
  | RecursionError
  | CalledProcessError
  | OSError
  | Unmodelled
  | Diverges

type_synonym 'a res = "py_exc + 'a"

fun bindE :: "'e + 'a \<Rightarrow> ('a \<Rightarrow> 'e + 'b) \<Rightarrow> 'e + 'b" where
  "bindE (Inl e) f = Inl e"
| "bindE (Inr x) f = f x"

definition returns :: "'a option \<Rightarrow> 'a res" where
  "returns x = (case x of None \<Rightarrow> Inl Diverges | Some y \<Rightarrow> Inr y)"

definition guardE :: "bool \<Rightarrow> 'e \<Rightarrow> 'e + unit" where
  "guardE b e = (if b then Inr () else Inl e)"

fun foldE :: "('a \<Rightarrow> 's \<Rightarrow> 'e + 's) \<Rightarrow> 'a list \<Rightarrow> 's \<Rightarrow> 'e + 's" where
  "foldE f [] s = Inr s"
| "foldE f (x # xs) s = bindE (f x s) (foldE f xs)"

fun mapE :: "('a \<Rightarrow> 'e + 'b) \<Rightarrow> 'a list \<Rightarrow> 'e + 'b list" where
  "mapE f [] = Inr []"
| "mapE f (x # xs) = bindE (f x) (\<lambda>y. bindE (mapE f xs) (\<lambda>ys. Inr (y # ys)))"

fun filterE :: "('a \<Rightarrow> 'e + bool) \<Rightarrow> 'a list \<Rightarrow> 'e + 'a list" where
  "filterE p [] = Inr []"
| "filterE p (x # xs) = bindE (p x) (\<lambda>b. bindE (filterE p xs) (\<lambda>ys. Inr (if b then x # ys else ys)))"

lemma bindE_cong [fundef_cong]:
  "m = m' \<Longrightarrow> (\<And>x. m' = Inr x \<Longrightarrow> f x = g x) \<Longrightarrow> bindE m f = bindE m' g"
  by (cases m') auto

lemma foldE_cong [fundef_cong]:
  "xs = ys \<Longrightarrow> s = t \<Longrightarrow> (\<And>x u. x \<in> set ys \<Longrightarrow> f x u = g x u) \<Longrightarrow> foldE f xs s = foldE g ys t"
proof (induction xs arbitrary: ys s t)
  case (Cons x xs)
  then show ?case by (cases "g x t") auto
qed simp

lemma bindE_Inr_iff: "bindE m f = Inr y \<longleftrightarrow> (\<exists>x. m = Inr x \<and> f x = Inr y)"
  by (cases m) auto

lemma bindE_Inl_iff: "bindE m f = Inl e \<longleftrightarrow> m = Inl e \<or> (\<exists>x. m = Inr x \<and> f x = Inl e)"
  by (cases m) auto

lemma bindE_InrE:
  assumes "bindE m f = Inr y"
  obtains x where "m = Inr x" and "f x = Inr y"
  using assms by (auto simp: bindE_Inr_iff)

lemma guardE_simps [simp]:
  "guardE True e = Inr ()" "guardE False e = Inl e"
  "guardE b e = Inr u \<longleftrightarrow> b" "guardE b e = Inl e' \<longleftrightarrow> \<not> b \<and> e' = e"
  by (auto simp: guardE_def)

lemma foldE_append: "foldE f (xs @ ys) s = bindE (foldE f xs s) (foldE f ys)"
proof (induction xs arbitrary: s)
  case (Cons x xs)
  then show ?case by (cases "f x s") simp_all
qed simp

lemma foldE_total:
  assumes "\<And>x s. x \<in> set xs \<Longrightarrow> f x s = Inr (g x s)"
  shows "foldE f xs s = Inr (fold g xs s)"
  using assms by (induction xs arbitrary: s) simp_all

lemma foldE_invariant:
  assumes "foldE f xs s = Inr t" and "P s"
    and "\<And>x u v. x \<in> set xs \<Longrightarrow> P u \<Longrightarrow> f x u = Inr v \<Longrightarrow> P v"
  shows "P t"
  using assms
proof (induction xs arbitrary: s)
  case (Cons x xs)
  from Cons.prems(1) obtain u where u: "f x s = Inr u" and rest: "foldE f xs u = Inr t"
    by (auto simp: bindE_Inr_iff)
  from Cons.prems(2) u have "P u" by (auto intro: Cons.prems(3))
  with rest show ?case by (rule Cons.IH) (auto intro: Cons.prems(3))
qed simp

text \<open>A loop whose steps each add a set of facts \<open>G x\<close> to what the state \<open>A\<close> says.\<close>

lemma foldE_union:
  assumes "foldE f xs s = Inr t"
    and "\<And>x u v. x \<in> set xs \<Longrightarrow> f x u = Inr v \<Longrightarrow> A v = A u \<union> G x"
  shows "A t = A s \<union> (\<Union>x \<in> set xs. G x)"
  using assms
proof (induction xs arbitrary: s)
  case (Cons x xs)
  from Cons.prems(1) obtain u where u: "f x s = Inr u" and rest: "foldE f xs u = Inr t"
    by (auto simp: bindE_Inr_iff)
  have "A t = A u \<union> (\<Union>x \<in> set xs. G x)" by (rule Cons.IH [OF rest]) (rule Cons.prems(2), simp_all)
  moreover have "A u = A s \<union> G x" by (rule Cons.prems(2) [OF _ u]) simp
  ultimately show ?case by (simp add: Un_assoc)
qed simp

lemma fold_union:
  assumes "\<And>x u. x \<in> set xs \<Longrightarrow> A (f x u) = A u \<union> G x"
  shows "A (fold f xs s) = A s \<union> (\<Union>x \<in> set xs. G x)"
  using assms by (induction xs arbitrary: s) (simp_all add: Un_assoc)

lemma foldE_elem:
  assumes "foldE f xs s = Inr t" and "x \<in> set xs"
    and step: "\<And>u v. f x u = Inr v \<Longrightarrow> Q v"
    and keep: "\<And>y u v. y \<in> set xs \<Longrightarrow> Q u \<Longrightarrow> f y u = Inr v \<Longrightarrow> Q v"
  shows "Q t"
proof -
  from assms(2) obtain ys zs where xs: "xs = ys @ x # zs"
    by (meson split_list)
  with assms(1) obtain u v where "f x u = Inr v" and z: "foldE f zs v = Inr t"
    by (auto simp: foldE_append bindE_Inr_iff)
  then have "Q v" by (auto intro: step)
  with z show ?thesis
    by (rule foldE_invariant) (auto simp: xs intro: keep)
qed

lemma fold_keeps:
  assumes "P s" and "\<And>x s. x \<in> set xs \<Longrightarrow> P s \<Longrightarrow> P (f x s)"
  shows "P (fold f xs s)"
  using assms by (induction xs arbitrary: s) auto

lemma fold_elem:
  assumes "x \<in> set xs" and "I s" and keep: "\<And>y u. y \<in> set xs \<Longrightarrow> I u \<Longrightarrow> I (f y u)"
    and hit: "\<And>u. I u \<Longrightarrow> Q (f x u)"
    and stay: "\<And>y u. y \<in> set xs \<Longrightarrow> I u \<Longrightarrow> Q u \<Longrightarrow> Q (f y u)"
  shows "Q (fold f xs s)"
proof -
  from assms(1) obtain ys zs where xs: "xs = ys @ x # zs" by (meson split_list)
  have "I (fold f ys s)" by (rule fold_keeps) (auto simp: assms(2) xs intro: keep)
  then have "I (f x (fold f ys s))" "Q (f x (fold f ys s))" by (auto simp: xs intro: keep hit)
  then have "I (fold f zs (f x (fold f ys s))) \<and> Q (fold f zs (f x (fold f ys s)))"
    by (intro fold_keeps [where P = "\<lambda>u. I u \<and> Q u"]) (auto simp: xs intro: keep stay)
  then show ?thesis by (simp add: xs)
qed

lemma mapE_total: "(\<And>x. x \<in> set xs \<Longrightarrow> f x = Inr (g x)) \<Longrightarrow> mapE f xs = Inr (map g xs)"
  by (induction xs) simp_all

lemma mapE_Inr_map: "mapE f xs = Inr ys \<Longrightarrow> map f xs = map Inr ys"
  by (induction xs arbitrary: ys) (auto simp: bindE_Inr_iff)

lemma mapE_values:
  assumes "mapE f xs = Inr ys" and "\<And>x y. x \<in> set xs \<Longrightarrow> f x = Inr y \<Longrightarrow> set y = S x"
  shows "set (concat ys) = (\<Union>x \<in> set xs. S x)"
  using assms
proof (induction xs arbitrary: ys)
  case (Cons x xs)
  from Cons.prems(1) obtain z zs where "f x = Inr z" "mapE f xs = Inr zs" "ys = z # zs"
    by (auto simp: bindE_Inr_iff)
  have "set (concat zs) = (\<Union>x \<in> set xs. S x)"
    by (rule Cons.IH [OF \<open>mapE f xs = Inr zs\<close>]) (simp add: Cons.prems(2))
  moreover have "set z = S x" by (rule Cons.prems(2) [OF _ \<open>f x = Inr z\<close>]) simp
  ultimately show ?case by (simp add: \<open>ys = z # zs\<close>)
qed simp

lemma mapE_Inl: "mapE f xs = Inl e \<Longrightarrow> \<exists>x \<in> set xs. f x = Inl e"
  by (induction xs) (auto simp: bindE_Inl_iff)

lemma mapE_concat: "mapE f (concat xss) = bindE (mapE (mapE f) xss) (\<lambda>yss. Inr (concat yss))"
proof -
  have "mapE f (xs @ ys) = bindE (mapE f xs) (\<lambda>us. bindE (mapE f ys) (\<lambda>vs. Inr (us @ vs)))" for xs ys
  proof (induction xs)
    case Nil
    then show ?case by (cases "mapE f ys") simp_all
  next
    case (Cons x xs)
    then show ?case by (cases "f x"; cases "mapE f xs"; cases "mapE f ys") simp_all
  qed
  then show ?thesis
  proof (induction xss)
    case (Cons xs xss)
    then show ?case by (cases "mapE f xs"; cases "mapE (mapE f) xss") simp_all
  qed simp
qed

lemma filterE_Inr: "filterE p xs = Inr ys \<Longrightarrow> ys = filter (\<lambda>x. p x = Inr True) xs"
  by (induction xs arbitrary: ys) (auto simp: bindE_Inr_iff split: if_splits)

text \<open>A loop that parses each line and folds the parsed records.\<close>

lemma foldE_parse:
  assumes "\<And>x r s. p x = Inr r \<Longrightarrow> f x s = Inr (g r s)" and "\<And>x e s. p x = Inl e \<Longrightarrow> f x s = Inl e"
  shows "foldE f xs s = bindE (mapE p xs) (\<lambda>rs. Inr (fold g rs s))"
proof (induction xs arbitrary: s)
  case (Cons x xs)
  show ?case
  proof (cases "p x")
    case (Inr r)
    then show ?thesis by (cases "mapE p xs") (simp_all add: assms Cons.IH)
  qed (simp add: assms)
qed simp

text \<open>In a dictionary filled from a list of pairs the last pair of a key wins.\<close>

lemma map_of_rev_last:
  "map_of (rev kvs) k = Some v \<longleftrightarrow> (\<exists>us vs. kvs = us @ (k, v) # vs \<and> k \<notin> fst ` set vs)"
proof
  assume "map_of (rev kvs) k = Some v"
  then obtain as bs where "rev kvs = as @ (k, v) # bs" and "k \<notin> fst ` set as"
  proof (induction "rev kvs" arbitrary: thesis kvs)
    case (Cons p ps)
    show ?case
    proof (cases "fst p = k")
      case True
      with Cons.prems(2) Cons.hyps(2) [symmetric] have "p = (k, v)" by (cases p) auto
      with Cons.hyps(2) show ?thesis by (intro Cons.prems(1) [of "[]" ps]) auto
    next
      case False
      with Cons.prems(2) Cons.hyps(2) [symmetric] have "map_of (rev (rev ps)) k = Some v"
        by (cases p) auto
      then obtain as bs where "ps = as @ (k, v) # bs" "k \<notin> fst ` set as"
        using Cons.hyps(1) [of "rev ps"] by auto
      with Cons.hyps(2) False show ?thesis by (intro Cons.prems(1) [of "p # as" bs]) auto
    qed
  qed simp
  then have "rev (rev kvs) = rev bs @ (k, v) # rev as" and "k \<notin> fst ` set (rev as)"
    by simp_all
  then have "kvs = rev bs @ (k, v) # rev as" and "k \<notin> fst ` set (rev as)" by simp_all
  then show "\<exists>us vs. kvs = us @ (k, v) # vs \<and> k \<notin> fst ` set vs" by blast
next
  assume "\<exists>us vs. kvs = us @ (k, v) # vs \<and> k \<notin> fst ` set vs"
  then obtain us vs where "kvs = us @ (k, v) # vs" and "k \<notin> fst ` set vs" by blast
  then show "map_of (rev kvs) k = Some v"
    by (simp add: map_of_append map_add_def map_of_eq_None_iff [THEN iffD2])
qed

lemma map_split_conv:
  "(\<exists>us vs. map f xs = us @ y # vs \<and> Q vs) \<longleftrightarrow> (\<exists>us x vs. xs = us @ x # vs \<and> f x = y \<and> Q (map f vs))"
proof
  assume "\<exists>us vs. map f xs = us @ y # vs \<and> Q vs"
  then obtain us vs where "map f xs = us @ y # vs" and "Q vs" by blast
  then show "\<exists>us x vs. xs = us @ x # vs \<and> f x = y \<and> Q (map f vs)"
    by (auto simp: map_eq_append_conv map_eq_Cons_conv)
next
  assume "\<exists>us x vs. xs = us @ x # vs \<and> f x = y \<and> Q (map f vs)"
  then obtain us x vs where "xs = us @ x # vs" and "f x = y" and "Q (map f vs)" by blast
  then show "\<exists>us vs. map f xs = us @ y # vs \<and> Q vs"
    by (intro exI [of _ "map f us"] exI [of _ "map f vs"]) simp
qed

lemma in_update: "p \<in> set (AList.update k v d) \<Longrightarrow> p = (k, v) \<or> p \<in> set d"
  by (induction d) (auto split: if_splits)

lemma update_fresh: "k \<notin> fst ` set d \<Longrightarrow> AList.update k v d = d @ [(k, v)]"
  by (induction d) auto

lemma map_of_fold_update:
  "map_of (fold (\<lambda>(k, v). AList.update k v) kvs d) = map_of d ++ map_of (rev kvs)"
proof (induction kvs arbitrary: d)
  case (Cons kv kvs)
  then show ?case by (cases kv) (auto simp: update_conv' map_add_def fun_eq_iff split: option.splits)
qed simp

lemma distinct_fold_update:
  "distinct (map fst d) \<Longrightarrow> distinct (map fst (fold (\<lambda>(k, v). AList.update k v) kvs d))"
proof (induction kvs arbitrary: d)
  case (Cons kv kvs)
  then show ?case by (cases kv) (simp add: distinct_update)
qed simp

lemma last_two:
  assumes "2 \<le> length xs"
  obtains ys a b where "xs = ys @ [a, b]"
proof (cases xs rule: rev_cases)
  case (snoc zs b)
  with assms obtain ys a where "zs = ys @ [a]" by (cases zs rule: rev_cases) auto
  with snoc show ?thesis by (intro that [of ys a b]) simp
qed (use assms in simp)

lemma takeWhile_neq_id [simp]: "d \<notin> set xs \<Longrightarrow> takeWhile (\<lambda>c. c \<noteq> d) xs = xs"
  by (induction xs) auto

lemma takeWhile_neq_append [simp]:
  "d \<notin> set xs \<Longrightarrow> takeWhile (\<lambda>c. c \<noteq> d) (xs @ d # ys) = xs"
  by (induction xs) auto

lemma dropWhile_neq_append [simp]:
  "d \<notin> set xs \<Longrightarrow> dropWhile (\<lambda>c. c \<noteq> d) (xs @ d # ys) = d # ys"
  by (induction xs) auto

lemma mapE_length: "mapE f xs = Inr ys \<Longrightarrow> length ys = length xs"
  by (drule mapE_Inr_map) (metis length_map)

lemma mapE_set: "mapE f xs = Inr ys \<Longrightarrow> set ys = {y. \<exists>x \<in> set xs. f x = Inr y}"
  by (induction xs arbitrary: ys) (fastforce simp: bindE_Inr_iff)+

end
