(* ===== verification/PyStr.thy ===== *)
theory PyStr
  imports PyPrelude
begin

section \<open>String methods\<close>

text \<open>
  The methods of \<open>str\<close> the scripts use, on strings as lists of characters: \<open>startswith\<close>,
  \<open>endswith\<close>, \<open>in\<close>, \<open>split\<close>, \<open>strip\<close>, \<open>replace\<close>, \<open>join\<close>, indexing from the end and
  the integer constructor with base 16. Characters are the code points below 256.
\<close>

type_synonym str = string

definition startswith :: "str \<Rightarrow> str \<Rightarrow> bool" where
  "startswith s p \<longleftrightarrow> take (length p) s = p"

definition endswith :: "str \<Rightarrow> str \<Rightarrow> bool" where
  "endswith s p \<longleftrightarrow> length p \<le> length s \<and> drop (length s - length p) s = p"

text \<open>\<open>s[:-n]\<close> for a positive \<open>n\<close>.\<close>

definition chop :: "nat \<Rightarrow> str \<Rightarrow> str" where
  "chop n s = take (length s - n) s"

text \<open>\<open>s[-n]\<close> for a positive \<open>n\<close>.\<close>

definition from_end :: "nat \<Rightarrow> 'a list \<Rightarrow> 'a res" where
  "from_end n s = (if n \<le> length s then Inr (s ! (length s - n)) else Inl IndexError)"

text \<open>\<open>s[n]\<close> for a natural \<open>n\<close>.\<close>

definition index :: "'a list \<Rightarrow> nat \<Rightarrow> 'a res" where
  "index s n = (if n < length s then Inr (s ! n) else Inl IndexError)"

fun occurs :: "str \<Rightarrow> str \<Rightarrow> bool" where
  "occurs p [] \<longleftrightarrow> p = []"
| "occurs p (c # cs) \<longleftrightarrow> startswith (c # cs) p \<or> occurs p cs"

text \<open>\<open>s.find(p)\<close>: the position of the first occurrence, \<open>None\<close> for \<open>-1\<close>.\<close>

fun find_str :: "str \<Rightarrow> str \<Rightarrow> nat option" where
  "find_str p [] = (if p = [] then Some 0 else None)"
| "find_str p (c # cs) = (if startswith (c # cs) p then Some 0 else map_option Suc (find_str p cs))"

definition is_space :: "char \<Rightarrow> bool" where
  "is_space c \<longleftrightarrow> (let n = of_char c :: nat in
     9 \<le> n \<and> n \<le> 13 \<or> 28 \<le> n \<and> n \<le> 32 \<or> n = 133 \<or> n = 160)"

text \<open>\<open>[0-9]\<close> of a regular expression, and \<open>str.isnumeric\<close> of a one-character string.\<close>

definition is_digit :: "char \<Rightarrow> bool" where
  "is_digit c \<longleftrightarrow> (let n = of_char c :: nat in 48 \<le> n \<and> n \<le> 57)"

definition is_numeric :: "char \<Rightarrow> bool" where
  "is_numeric c \<longleftrightarrow> is_digit c \<or> (of_char c :: nat) \<in> {178, 179, 185, 188, 189, 190}"

definition str_isnumeric :: "str \<Rightarrow> bool" where
  "str_isnumeric s \<longleftrightarrow> s \<noteq> [] \<and> list_all is_numeric s"

definition lstrip :: "str \<Rightarrow> str" where
  "lstrip s = dropWhile is_space s"

definition rstrip :: "str \<Rightarrow> str" where
  "rstrip s = rev (dropWhile is_space (rev s))"

definition strip :: "str \<Rightarrow> str" where
  "strip s = rstrip (lstrip s)"

fun words_from :: "str \<Rightarrow> str \<Rightarrow> str list" where
  "words_from acc [] = (if acc = [] then [] else [acc])"
| "words_from acc (c # cs) =
     (if is_space c then (if acc = [] then words_from [] cs else acc # words_from [] cs)
      else words_from (acc @ [c]) cs)"

text \<open>\<open>s.split()\<close>.\<close>

definition split_ws :: "str \<Rightarrow> str list" where
  "split_ws s = words_from [] s"

text \<open>\<open>s.split(d)\<close> for a one-character separator and for a longer one.\<close>

fun split_char :: "char \<Rightarrow> str \<Rightarrow> str list" where
  "split_char d [] = [[]]"
| "split_char d (c # cs) =
     (if c = d then [] # split_char d cs
      else (case split_char d cs of [] \<Rightarrow> [[c]] | w # ws \<Rightarrow> (c # w) # ws))"

fun split_str :: "str \<Rightarrow> str \<Rightarrow> str list" where
  "split_str sep [] = [[]]"
| "split_str sep (c # cs) =
     (if sep \<noteq> [] \<and> startswith (c # cs) sep then [] # split_str sep (drop (length sep - 1) cs)
      else (case split_str sep cs of [] \<Rightarrow> [[c]] | w # ws \<Rightarrow> (c # w) # ws))"

definition lines_of :: "str \<Rightarrow> str list" where
  "lines_of s = split_char (CHR 0x0A) s"

text \<open>
  A command piped into \<open>grep\<close> under \<open>check_output\<close>: the lines that are kept; without one \<open>grep\<close> fails, and
  so does \<open>check_output\<close>.
\<close>

definition grep_lines :: "(str \<Rightarrow> bool) \<Rightarrow> str \<Rightarrow> str list res" where
  "grep_lines P out =
     (case filter P (lines_of out) of [] \<Rightarrow> Inl CalledProcessError | l # ls \<Rightarrow> Inr (l # ls))"

definition replace_char :: "char \<Rightarrow> str \<Rightarrow> str \<Rightarrow> str" where
  "replace_char c new s = concat (map (\<lambda>x. if x = c then new else [x]) s)"

text \<open>\<open>re.sub('-', '_', s)\<close>, by which the scripts normalise module and object names.\<close>

definition dash_to_us :: "str \<Rightarrow> str" where
  "dash_to_us s = map (\<lambda>c. if c = CHR ''-'' then CHR ''_'' else c) s"

fun join_with :: "str \<Rightarrow> str list \<Rightarrow> str" where
  "join_with sep [] = []"
| "join_with sep [x] = x"
| "join_with sep (x # y # ys) = x @ sep @ join_with sep (y # ys)"

definition hex_digit :: "char \<Rightarrow> nat option" where
  "hex_digit c = (let n = of_char c :: nat in
     if 48 \<le> n \<and> n \<le> 57 then Some (n - 48)
     else if 97 \<le> n \<and> n \<le> 102 then Some (n - 87)
     else if 65 \<le> n \<and> n \<le> 70 then Some (n - 55) else None)"

text \<open>
  Digits of \<open>int(s, 16)\<close>: hexadecimal digits with single underscores between them. The flag says
  whether an underscore may come next.
\<close>

fun hex_digits :: "bool \<Rightarrow> nat \<Rightarrow> str \<Rightarrow> nat option" where
  "hex_digits ok acc [] = (if ok then Some acc else None)"
| "hex_digits ok acc (c # cs) =
     (if c = CHR ''_'' then (if ok \<and> cs \<noteq> [] then hex_digits False acc cs else None)
      else (case hex_digit c of None \<Rightarrow> None | Some d \<Rightarrow> hex_digits True (16 * acc + d) cs))"

definition hex_unsigned :: "str \<Rightarrow> nat option" where
  "hex_unsigned s =
     (if startswith s ''0x'' \<or> startswith s ''0X''
      then (case drop 2 s of
              [] \<Rightarrow> None
            | c # cs \<Rightarrow> if c = CHR ''_'' then hex_digits False 0 cs else hex_digits False 0 (c # cs))
      else hex_digits False 0 s)"

definition int16 :: "str \<Rightarrow> int res" where
  "int16 s0 = (let s = strip s0;
     neg = startswith s ''-'';
     body = (if neg \<or> startswith s ''+'' then drop 1 s else s)
     in case hex_unsigned body of None \<Rightarrow> Inl ValueError
        | Some n \<Rightarrow> Inr (if neg then - int n else int n))"

text \<open>\<open>hex(n)\<close>\<close>

definition hexit :: "nat \<Rightarrow> char" where
  "hexit d = ''0123456789abcdef'' ! d"

fun hexits :: "nat \<Rightarrow> str" where
  "hexits n = (if n < 16 then [hexit n] else hexits (n div 16) @ [hexit (n mod 16)])"

declare hexits.simps [simp del]

definition hex :: "int \<Rightarrow> str" where
  "hex n = (if n < 0 then ''-0x'' @ hexits (nat (- n)) else ''0x'' @ hexits (nat n))"

text \<open>\<open>int(s)\<close>: decimal digits with single underscores between them, an optional sign.\<close>

fun dec_digits :: "bool \<Rightarrow> nat \<Rightarrow> str \<Rightarrow> nat option" where
  "dec_digits ok acc [] = (if ok then Some acc else None)"
| "dec_digits ok acc (c # cs) =
     (if c = CHR ''_'' then (if ok \<and> cs \<noteq> [] then dec_digits False acc cs else None)
      else if is_digit c then dec_digits True (10 * acc + (of_char c - 48)) cs else None)"

definition int10 :: "str \<Rightarrow> int res" where
  "int10 s0 = (let s = strip s0; neg = startswith s ''-'';
     body = (if neg \<or> startswith s ''+'' then drop 1 s else s)
     in case dec_digits False 0 body of None \<Rightarrow> Inl ValueError
        | Some n \<Rightarrow> Inr (if neg then - int n else int n))"

text \<open>\<open>for line in file\<close>: the lines of a text, the last one only when it is not empty.\<close>

definition file_lines :: "str \<Rightarrow> str list" where
  "file_lines s = (let ls = lines_of s in if last ls = [] then butlast ls else ls)"

subsection \<open>Facts about the string methods\<close>

lemma startswith_prefix: "startswith s p \<longleftrightarrow> prefix p s"
  by (auto simp: startswith_def prefix_def) (metis append_take_drop_id)

lemma startswith_append [simp]: "startswith (p @ s) p"
  by (simp add: startswith_def)

lemma startswith_Nil [simp]: "startswith s []"
  by (simp add: startswith_def)

lemma startswith_Cons [simp]: "startswith (c # s) (d # p) \<longleftrightarrow> c = d \<and> startswith s p"
  by (auto simp: startswith_def)

lemma startswith_empty [simp]: "startswith [] p \<longleftrightarrow> p = []"
  by (auto simp: startswith_def)

lemma startswith_append_both [simp]: "startswith (p @ s) (p @ q) \<longleftrightarrow> startswith s q"
  by (auto simp: startswith_def)

lemma endswith_suffix: "endswith s p \<longleftrightarrow> suffix p s"
  by (auto simp: endswith_def suffix_def) (metis append_take_drop_id)

lemma endswith_append [simp]: "endswith (s @ p) p"
  by (simp add: endswith_def)

lemma endswith_split: "endswith s p \<Longrightarrow> s = chop (length p) s @ p"
  by (auto simp: endswith_def chop_def) (metis append_take_drop_id)

lemma chop_append [simp]: "length p = n \<Longrightarrow> chop n (s @ p) = s"
  by (auto simp: chop_def)

lemma length_chop [simp]: "length (chop n s) = length s - n"
  by (simp add: chop_def)

lemma length_dash_to_us [simp]: "length (dash_to_us s) = length s"
  by (simp add: dash_to_us_def)

lemma dash_to_us_no_dash: "CHR ''-'' \<notin> set (dash_to_us s)"
  by (auto simp: dash_to_us_def)

lemma dash_to_us_idem [simp]: "dash_to_us (dash_to_us s) = dash_to_us s"
  by (simp add: dash_to_us_def)

lemma dash_to_us_append [simp]: "dash_to_us (s @ t) = dash_to_us s @ dash_to_us t"
  by (simp add: dash_to_us_def)

lemma dash_to_us_id: "CHR ''-'' \<notin> set s \<Longrightarrow> dash_to_us s = s"
  by (induction s) (auto simp: dash_to_us_def)

lemma split_char_nonempty [simp]: "split_char d s \<noteq> []"
  by (induction s) (auto split: list.split)

lemma join_split_char: "join_with [d] (split_char d s) = s"
proof (induction s)
  case (Cons c s)
  obtain w ws where w: "split_char d s = w # ws" by (cases "split_char d s") auto
  with Cons show ?case by (cases ws) auto
qed simp

lemma split_char_no_sep: "d \<notin> set s \<Longrightarrow> split_char d s = [s]"
  by (induction s) auto

lemma split_char_append:
  "d \<notin> set s \<Longrightarrow> split_char d (s @ d # t) = s # split_char d t"
  by (induction s) auto

lemma split_char_elems: "w \<in> set (split_char d s) \<Longrightarrow> d \<notin> set w"
proof (induction s arbitrary: w)
  case (Cons c s)
  then show ?case by (cases "split_char d s") (auto split: if_splits)
qed simp

lemma occurs_append: "occurs p (a @ p @ b)"
proof (induction a)
  case Nil
  show ?case
  proof (cases "p @ b")
    case (Cons c cs)
    then have "startswith (c # cs) p" by (metis startswith_append)
    with Cons show ?thesis by simp
  qed simp
qed simp

lemma occurs_sublist: "occurs p s \<longleftrightarrow> (\<exists>a b. s = a @ p @ b)"
proof
  show "occurs p s \<Longrightarrow> \<exists>a b. s = a @ p @ b"
  proof (induction s)
    case (Cons c s)
    then consider "startswith (c # s) p" | "occurs p s" by auto
    then show ?case
    proof cases
      case 1
      then have "c # s = [] @ p @ drop (length p) (c # s)"
        by (auto simp: startswith_def) (metis append_take_drop_id)
      then show ?thesis by blast
    next
      case 2
      with Cons.IH obtain a b where "s = a @ p @ b" by blast
      then have "c # s = (c # a) @ p @ b" by simp
      then show ?thesis by blast
    qed
  qed simp
qed (auto simp: occurs_append)

lemma endswith_rev: "endswith s p \<longleftrightarrow> startswith (rev s) (rev p)"
  by (simp add: endswith_suffix startswith_prefix suffix_to_prefix)

lemma split_str_none: "sep \<noteq> [] \<Longrightarrow> \<not> occurs sep s \<Longrightarrow> split_str sep s = [s]"
  by (induction s) auto

lemma split_str_first:
  assumes "sep \<noteq> []" and "\<And>u v. p = u @ v \<Longrightarrow> v \<noteq> [] \<Longrightarrow> \<not> startswith (v @ sep @ q) sep"
  shows "split_str sep (p @ sep @ q) = p # split_str sep q"
  using assms(2)
proof (induction p)
  case Nil
  obtain c cs where c: "sep = c # cs" using assms(1) by (cases sep) auto
  show ?case by (simp add: c)
next
  case (Cons c p)
  have "\<not> startswith ((c # p) @ sep @ q) sep" by (rule Cons.prems [of "[]"]) auto
  moreover have "split_str sep (p @ sep @ q) = p # split_str sep q"
    by (rule Cons.IH) (metis Cons.prems append_Cons)
  ultimately show ?case by simp
qed

subsection \<open>Reading back what hex writes\<close>

lemma rstrip_id: "s \<noteq> [] \<Longrightarrow> \<not> is_space (last s) \<Longrightarrow> rstrip s = s"
  by (cases s rule: rev_cases) (simp_all add: rstrip_def)

lemma lstrip_id: "s \<noteq> [] \<Longrightarrow> \<not> is_space (hd s) \<Longrightarrow> lstrip s = s"
  by (cases s) (simp_all add: lstrip_def)

lemma hex_digit_hexit: "d < 16 \<Longrightarrow> hex_digit (hexit d) = Some d \<and> hexit d \<noteq> CHR ''_''"
proof -
  have "list_all (\<lambda>d. hex_digit (hexit d) = Some d \<and> hexit d \<noteq> CHR ''_'') [0..<16]" by code_simp
  then show "d < 16 \<Longrightarrow> hex_digit (hexit d) = Some d \<and> hexit d \<noteq> CHR ''_''" by (simp add: list_all_iff)
qed

lemma hex_digits_hexits:
  "hex_digits ok acc (hexits n @ s) = hex_digits True (acc * 16 ^ length (hexits n) + n) s"
proof (induction n arbitrary: ok acc s rule: hexits.induct)
  case (1 n)
  show ?case
  proof (cases "n < 16")
    case True
    then show ?thesis using hex_digit_hexit [of n] by (subst (1 2) hexits.simps) (simp add: mult.commute)
  next
    case False
    then have "hexits n = hexits (n div 16) @ [hexit (n mod 16)]" by (subst hexits.simps) simp
    then show ?thesis
      using hex_digit_hexit [of "n mod 16"] 1 [OF False] by (simp add: algebra_simps)
  qed
qed

lemma hexits_chars: "c \<in> set (hexits n) \<Longrightarrow> \<exists>d < 16. c = hexit d"
proof (induction n rule: hexits.induct)
  case (1 n)
  have "n mod 16 < 16" by simp
  from 1(2) consider "n < 16" "c = hexit n" | "\<not> n < 16" "c \<in> set (hexits (n div 16))" | "c = hexit (n mod 16)"
    by (subst (asm) hexits.simps) (auto split: if_splits)
  then show ?case using 1(1) \<open>n mod 16 < 16\<close> by cases blast+
qed

lemma hexits_ne: "hexits n \<noteq> []"
  by (subst hexits.simps) simp

lemma hexit_graph: "d < 16 \<Longrightarrow> \<not> is_space (hexit d) \<and> hexit d \<noteq> CHR ''-'' \<and> hexit d \<noteq> CHR ''+''"
proof -
  have "list_all (\<lambda>d. \<not> is_space (hexit d) \<and> hexit d \<noteq> CHR ''-'' \<and> hexit d \<noteq> CHR ''+'') [0..<16]" by code_simp
  then show "d < 16 \<Longrightarrow> \<not> is_space (hexit d) \<and> hexit d \<noteq> CHR ''-'' \<and> hexit d \<noteq> CHR ''+''" by (simp add: list_all_iff)
qed

text \<open>\<open>int(hex(n), 16)\<close> is \<open>n\<close>.\<close>

lemma int16_hex: "int16 (hex n) = Inr n"
proof -
  have graph: "\<not> is_space c" if "c \<in> set (hexits k)" for c k
    using hexits_chars [OF that] hexit_graph by auto
  then have last: "\<not> is_space (last (hexits k))" for k using last_in_set [OF hexits_ne] by blast
  have "hex n \<noteq> []" "last (hex n) = last (hexits (nat (abs n)))" "hd (hex n) \<in> {CHR ''-'', CHR ''0''}"
    using hexits_ne by (auto simp: hex_def)
  then have strip: "strip (hex n) = hex n"
    using last by (auto simp: strip_def rstrip_id lstrip_id is_space_def)
  have digits: "hex_unsigned (''0x'' @ hexits k) = Some k" for k
  proof -
    obtain c cs where k: "hexits k = c # cs" using hexits_ne by (cases "hexits k") auto
    then obtain d where "d < 16" "c = hexit d" using hexits_chars [of c k] by auto
    then have "c \<noteq> CHR ''_''" using hex_digit_hexit [of d] by simp
    moreover have "hex_digits False 0 (c # cs) = Some k" using hex_digits_hexits [of False 0 k "[]"] k by simp
    ultimately show ?thesis unfolding hex_unsigned_def k by (simp del: hex_digits.simps)
  qed
  show ?thesis
  proof (cases "n < 0")
    case True
    then show ?thesis using digits [of "nat (- n)"] by (simp add: int16_def strip) (simp add: hex_def)
  next
    case False
    then show ?thesis using digits [of "nat n"] by (simp add: int16_def strip) (simp add: hex_def)
  qed
qed

end
