(* ===== verification/PyDict.thy ===== *)
theory PyDict
  imports PyStr
begin

section \<open>Dictionaries and tables of sets\<close>

text \<open>
  \<open>'v dict\<close> is a dictionary with string keys. \<open>dd_get\<close>, \<open>dd_touch\<close> and \<open>dd_add\<close> are the reads
  and updates of a \<open>collections.defaultdict(set)\<close>, and of the scripts' own idiom that stores a fresh
  set under a missing key before adding to it. The locale \<open>set_table\<close> is the contract of such a
  table: what a lookup returns after an insertion. Every table the scripts fill in a loop is
  described by its lemma \<open>get_adds\<close>.
\<close>

type_synonym 'v dict = "(str \<times> 'v) list"
type_synonym pyset = "str list"

definition dd_get :: "('k \<times> 'v list) list \<Rightarrow> 'k \<Rightarrow> 'v list" where
  "dd_get d k = (case map_of d k of None \<Rightarrow> [] | Some vs \<Rightarrow> vs)"

definition dd_touch :: "('k \<times> 'v list) list \<Rightarrow> 'k \<Rightarrow> ('k \<times> 'v list) list" where
  "dd_touch d k = (case map_of d k of None \<Rightarrow> d @ [(k, [])] | Some _ \<Rightarrow> d)"

definition dd_add :: "'k \<Rightarrow> 'v \<Rightarrow> ('k \<times> 'v list) list \<Rightarrow> ('k \<times> 'v list) list" where
  "dd_add k v d = AList.update k (List.insert v (dd_get d k)) d"

definition has_key :: "('k \<times> 'v) list \<Rightarrow> 'k \<Rightarrow> bool" where
  "has_key d k \<longleftrightarrow> map_of d k \<noteq> None"

text \<open>\<open>d[k]\<close> of a plain dictionary.\<close>

definition dict_get :: "('k \<times> 'v) list \<Rightarrow> 'k \<Rightarrow> 'v res" where
  "dict_get d k = (case map_of d k of None \<Rightarrow> Inl KeyError | Some v \<Rightarrow> Inr v)"

text \<open>A dictionary of dictionaries of sets, \<open>defaultdict(dict)\<close>.\<close>

definition dd2_add :: "'k \<Rightarrow> 'l \<Rightarrow> 'v \<Rightarrow> ('k \<times> ('l \<times> 'v list) list) list \<Rightarrow> ('k \<times> ('l \<times> 'v list) list) list" where
  "dd2_add k l v t = AList.update k (dd_add l v (dd_get t k)) t"

definition dd2_get :: "('k \<times> ('l \<times> 'v list) list) list \<Rightarrow> 'k \<Rightarrow> 'l \<Rightarrow> 'v list" where
  "dd2_get t k l = dd_get (dd_get t k) l"

subsection \<open>The contract of a table of sets\<close>

locale set_table =
  fixes get :: "'t \<Rightarrow> 'k \<Rightarrow> 'v set"
    and add :: "'k \<Rightarrow> 'v \<Rightarrow> 't \<Rightarrow> 't"
    and keys :: "'t \<Rightarrow> 'k set"
  assumes get_add: "get (add k v t) k' = (if k' = k then insert v (get t k) else get t k')"
    and keys_add: "keys (add k v t) = insert k (keys t)"
    and get_outside: "k \<notin> keys t \<Longrightarrow> get t k = {}"
begin

lemma get_adds: "get (fold (\<lambda>(k, v). add k v) ps t) k = get t k \<union> {v. (k, v) \<in> set ps}"
proof (induction ps arbitrary: t)
  case (Cons p ps)
  obtain k' v where "p = (k', v)" by (cases p)
  with Cons show ?case by (auto simp: get_add)
qed simp

lemma keys_adds: "keys (fold (\<lambda>(k, v). add k v) ps t) = keys t \<union> fst ` set ps"
proof (induction ps arbitrary: t)
  case (Cons p ps)
  obtain k' v where "p = (k', v)" by (cases p)
  with Cons show ?case by (auto simp: keys_add)
qed simp

lemma key_if_member: "v \<in> get t k \<Longrightarrow> k \<in> keys t"
  using get_outside by blast

end

lemma set_dd_add [py_sets]:
  "set (dd_get (dd_add k v d) k') = (if k' = k then insert v (set (dd_get d k)) else set (dd_get d k'))"
  by (auto simp: dd_get_def dd_add_def update_conv' List.insert_def split: option.splits)

lemma dom_dd_add: "fst ` set (dd_add k v d) = insert k (fst ` set d)"
  by (simp add: dd_add_def dom_update)

lemma dd_get_outside: "k \<notin> fst ` set d \<Longrightarrow> dd_get d k = []"
  by (auto simp: dd_get_def split: option.split dest: map_of_SomeD)
     (metis image_eqI fst_conv map_of_SomeD)

interpretation dd: set_table "\<lambda>d k. set (dd_get d k)" dd_add "\<lambda>d. fst ` set d"
  by unfold_locales (auto simp: set_dd_add dom_dd_add dd_get_outside)

lemma has_key_iff: "has_key d k \<longleftrightarrow> k \<in> fst ` set d"
  by (auto simp: has_key_def map_of_eq_None_iff)

lemma has_key_dd_add [simp]: "has_key (dd_add k v d) k' \<longleftrightarrow> k' = k \<or> has_key d k'"
  by (simp add: has_key_iff dom_dd_add)

lemma dd_get_touch [simp]: "dd_get (dd_touch d k) k' = dd_get d k'"
  by (auto simp: dd_get_def dd_touch_def map_add_def map_of_append split: option.splits)

lemma dd_get_update [simp]: "dd_get (AList.update k vs d) k' = (if k' = k then vs else dd_get d k')"
  by (simp add: dd_get_def update_conv')

lemma dd_get_Nil [simp]: "dd_get [] k = []"
  by (simp add: dd_get_def)

lemma has_key_Nil [simp]: "\<not> has_key [] k"
  by (simp add: has_key_def)

lemma distinct_dd_get_add:
  "(\<forall>k. distinct (dd_get d k)) \<Longrightarrow> distinct (dd_get (dd_add k' v d) k)"
  by (auto simp: dd_get_def dd_add_def update_conv' List.insert_def split: option.splits)

lemma dict_get_Inr: "dict_get d k = Inr v \<longleftrightarrow> map_of d k = Some v"
  by (auto simp: dict_get_def split: option.splits)

lemma dict_get_total: "has_key d k \<Longrightarrow> \<exists>v. dict_get d k = Inr v"
  by (auto simp: dict_get_def has_key_def)

lemma set_dd2_add [py_sets]:
  "set (dd2_get (dd2_add k l v t) k' l') =
     (if k' = k \<and> l' = l then insert v (set (dd2_get t k l)) else set (dd2_get t k' l'))"
  by (simp add: dd2_get_def dd2_add_def set_dd_add)

lemma has_key_dd2_add [simp]:
  "has_key (dd_get (dd2_add k l v t) k') l' \<longleftrightarrow> (k', l') = (k, l) \<or> has_key (dd_get t k') l'"
  by (auto simp: dd2_add_def)

lemma dd2_get_touch [simp]: "dd2_get (dd_touch t k) k' l = dd2_get t k' l"
  by (simp add: dd2_get_def)

lemma dd2_get_Nil [simp]: "dd2_get [] k l = []"
  by (simp add: dd2_get_def)

lemma dd2_get_outside: "\<not> has_key (dd_get t k) l \<Longrightarrow> dd2_get t k l = []"
  by (simp add: dd2_get_def has_key_iff dd_get_outside)

lemma dict_entry: "distinct (map fst d) \<Longrightarrow> (k, v) \<in> set d \<longleftrightarrow> k \<in> fst ` set d \<and> v = dd_get d k"
proof -
  assume "distinct (map fst d)"
  then have "(k, v) \<in> set d \<longleftrightarrow> map_of d k = Some v" by simp
  moreover have "k \<in> fst ` set d \<longleftrightarrow> map_of d k \<noteq> None" by (simp add: map_of_eq_None_iff)
  ultimately show ?thesis by (cases "map_of d k") (auto simp: dd_get_def)
qed

interpretation dd2: set_table "\<lambda>d p. set (dd2_get d (fst p) (snd p))" "\<lambda>p. dd2_add (fst p) (snd p)"
  "\<lambda>d. {p. has_key (dd_get d (fst p)) (snd p)}"
  by unfold_locales (auto simp: set_dd2_add prod_eq_iff dd2_get_outside)

end
