(* ===== verification/PyPath.thy ===== *)
theory PyPath
  imports PyDict
begin

section \<open>Paths and directory walks\<close>

text \<open>
  \<open>os.path.join\<close>, \<open>basename\<close>, \<open>dirname\<close> of \<open>posixpath\<close>, and \<open>os.walk\<close>: a walk is the list of
  directories below its top with the names of their files, in the order the walk yields them. A file
  system is given by its walks and by the contents of its files.
\<close>

abbreviation slash :: char where "slash \<equiv> CHR ''/''"

definition path_join :: "str \<Rightarrow> str \<Rightarrow> str" where
  "path_join a b =
     (if startswith b ''/'' then b
      else if a = [] \<or> endswith a ''/'' then a @ b
      else a @ ''/'' @ b)"

definition basename :: "str \<Rightarrow> str" where
  "basename p = rev (takeWhile (\<lambda>c. c \<noteq> slash) (rev p))"

text \<open>\<open>dirname\<close> drops the slashes at the end of the head unless the head is all slashes.\<close>

definition dirname :: "str \<Rightarrow> str" where
  "dirname p = (let head = rev (dropWhile (\<lambda>c. c \<noteq> slash) (rev p))
     in if list_all (\<lambda>c. c = slash) head then head
        else rev (dropWhile (\<lambda>c. c = slash) (rev head)))"

text \<open>\<open>os.path.normpath\<close>: the components without empty ones and \<open>.\<close>, with \<open>..\<close> resolved.\<close>

fun norm_comps :: "bool \<Rightarrow> str list \<Rightarrow> str list \<Rightarrow> str list" where
  "norm_comps absolute new [] = rev new"
| "norm_comps absolute new (c # cs) =
     (if c = [] \<or> c = ''.'' then norm_comps absolute new cs
      else if c \<noteq> ''..'' \<or> (\<not> absolute \<and> new = []) \<or> (new \<noteq> [] \<and> hd new = ''..'')
      then norm_comps absolute (c # new) cs
      else norm_comps absolute (drop 1 new) cs)"

definition normpath :: "str \<Rightarrow> str" where
  "normpath p = (if p = [] then ''.''
     else let absolute = startswith p ''/'';
              root = (if startswith p ''//'' \<and> \<not> startswith p ''///'' then ''//''
                      else if absolute then ''/'' else []);
              q = root @ join_with ''/'' (norm_comps absolute [] (split_char slash p))
          in if q = [] then ''.'' else q)"

text \<open>\<open>p.split('.')[0]\<close>, the module name of a file name.\<close>

definition stem_of :: "str \<Rightarrow> str" where
  "stem_of s = takeWhile (\<lambda>c. c \<noteq> CHR ''.'') s"

text \<open>\<open>p.split('.')[-1]\<close>, the extension of a file name.\<close>

definition ext_of :: "str \<Rightarrow> str" where
  "ext_of s = last (split_char (CHR ''.'') s)"

type_synonym walk = "(str \<times> str list) list"

text \<open>The loop \<open>for root,_,files in os.walk(..): for f in files\<close>, as the list of its iterations.\<close>

definition walk_files :: "walk \<Rightarrow> (str \<times> str) list" where
  "walk_files w = concat (map (\<lambda>(root, fs). map (\<lambda>f. (root, f)) fs) w)"

text \<open>What the scripts read of a file system: its walks, which paths exist, and the text of a file.\<close>

record fsys =
  fs_walk :: "str \<Rightarrow> walk"
  fs_exists :: "str \<Rightarrow> bool"
  fs_text :: "str \<Rightarrow> str option"

definition read_text :: "fsys \<Rightarrow> str \<Rightarrow> str res" where
  "read_text fs p = (case fs_text fs p of None \<Rightarrow> Inl FileNotFoundError | Some t \<Rightarrow> Inr t)"

lemma basename_no_slash: "slash \<notin> set (basename p)"
  by (auto simp: basename_def dest: set_takeWhileD)

lemma basename_id: "slash \<notin> set p \<Longrightarrow> basename p = p"
  by (simp add: basename_def)

lemma basename_append_slash: "slash \<notin> set f \<Longrightarrow> basename (d @ slash # f) = f"
  by (simp add: basename_def)

lemma startswith_slash: "startswith f ''/'' \<longleftrightarrow> (\<exists>g. f = slash # g)"
  by (cases f) auto

lemma endswith_slash: "endswith f ''/'' \<longleftrightarrow> (\<exists>g. f = g @ [slash])"
  by (auto simp: endswith_suffix suffix_def)

lemma basename_path_join:
  assumes "slash \<notin> set f" shows "basename (path_join d f) = f"
proof -
  have f: "\<not> startswith f ''/''" using assms by (auto simp: startswith_slash)
  consider "d = []" | e where "d = e @ [slash]" | "d \<noteq> []" "\<not> endswith d ''/''"
    by (auto simp: endswith_slash)
  then show ?thesis
  proof cases
    case 1
    with f assms show ?thesis by (simp add: path_join_def basename_id)
  next
    case 2
    with f assms show ?thesis
      by (simp add: path_join_def endswith_slash basename_append_slash)
  next
    case 3
    with f assms show ?thesis by (simp add: path_join_def basename_append_slash)
  qed
qed

lemma stem_of_split: "split_char (CHR ''.'') s = stem_of s # drop 1 (split_char (CHR ''.'') s)"
proof (induction s)
  case (Cons c s)
  then show ?case
    by (cases "split_char (CHR ''.'') s") (auto simp: stem_of_def)
qed (simp add: stem_of_def)

lemma stem_of_no_dot: "CHR ''.'' \<notin> set (stem_of s)"
  by (auto simp: stem_of_def dest: set_takeWhileD)

lemma stem_of_append: "CHR ''.'' \<notin> set m \<Longrightarrow> stem_of (m @ CHR ''.'' # e) = m"
  by (simp add: stem_of_def)

lemma walk_files_iff: "(r, f) \<in> set (walk_files w) \<longleftrightarrow> (\<exists>fs. (r, fs) \<in> set w \<and> f \<in> set fs)"
  by (auto simp: walk_files_def)

lemma walk_files_append [simp]: "walk_files (v @ w) = walk_files v @ walk_files w"
  by (simp add: walk_files_def)

end
