(* ===== verification/ModDeps.thy ===== *)
theory ModDeps
  imports PyPath
begin

section \<open>Module dependencies: builddep.py and checkmodsym.py\<close>

text \<open>
  \<open>dependency/builddep.py\<close> reads \<open>modules.dep\<close> into the dependencies of each module and their
  reverse; \<open>kernel_patch/checkmodsym.py\<close> reads the same file by path, finds the modules without an
  \<open>init_module\<close> symbol, and lists a module's symbols from the output of \<open>nm\<close>. The output of
  \<open>nm\<close> and the symbol names found in an ELF file are parameters: \<open>nm p\<close> is what \<open>nm\<close> prints for
  the (decompressed) module at \<open>p\<close>, and \<open>elf p\<close> the names in its symbol tables.
\<close>

subsection \<open>Names of modules\<close>

definition norm_mod :: "str \<Rightarrow> str" where
  "norm_mod m0 =
     (let m1 = (if endswith m0 ''.ko.zst'' then chop 4 m0 else m0)
      in if endswith m1 ''.ko.xz'' then chop 3 m1 else m1)"

definition mod_name :: "str \<Rightarrow> str" where
  "mod_name p = (let m = dash_to_us (norm_mod (basename p))
     in if endswith m ''.ko'' then chop 3 m else m)"

subsection \<open>Reading modules.dep\<close>

type_synonym deps = "pyset dict \<times> pyset dict"

text \<open>One line \<open>key: dep dep ...\<close>; unpacking anything but two fields raises.\<close>

definition parse_dep :: "str \<Rightarrow> (str \<times> str list) res" where
  "parse_dep line = (case split_char (CHR '':'') line of
       [key, ds] \<Rightarrow> Inr (mod_name key, map (\<lambda>d. mod_name (strip d)) (split_ws (strip ds)))
     | _ \<Rightarrow> Inl ValueError)"

text \<open>
  A line with dependencies resets \<open>mod_dep[key]\<close> and adds each of them; \<open>rev_dep\<close> is only added
  to.
\<close>

definition add_dep :: "str \<Rightarrow> str \<Rightarrow> deps \<Rightarrow> deps" where
  "add_dep key d t = (dd_add key d (fst t), dd_add d key (snd t))"

definition dep_line :: "str \<Rightarrow> deps \<Rightarrow> deps res" where
  "dep_line line t = bindE (parse_dep line) (\<lambda>(key, ds). Inr
     (if ds = [] then t
      else fold (add_dep key) ds (AList.update key [] (fst t), snd t)))"

definition get_deps_text :: "str \<Rightarrow> deps res" where
  "get_deps_text data = foldE dep_line (lines_of (strip data)) ([], [])"

text \<open>The file: \<open>modules.dep\<close> under the directory, or the first one its walk meets.\<close>

definition dep_path :: "fsys \<Rightarrow> str \<Rightarrow> str" where
  "dep_path fs mod_dir =
     (let p = path_join mod_dir ''modules.dep''
      in if fs_exists fs p then p
         else case find (\<lambda>(r, files). ''modules.dep'' \<in> set files) (fs_walk fs mod_dir) of
                None \<Rightarrow> p
              | Some (r, _) \<Rightarrow> path_join r ''modules.dep'')"

definition get_deps :: "fsys \<Rightarrow> str \<Rightarrow> deps res" where
  "get_deps fs mod_dir = bindE (read_text fs (dep_path fs mod_dir)) get_deps_text"

subsection \<open>checkmodsym.py\<close>

text \<open>\<open>checkmodsym.get_deps\<close>: the reverse dependencies by path, below the build directory.\<close>

definition path_dep_line :: "str \<Rightarrow> str \<Rightarrow> pyset dict \<Rightarrow> pyset dict res" where
  "path_dep_line dir line users = (case split_char (CHR '':'') line of
       [key, ds] \<Rightarrow> Inr (fold (\<lambda>d. dd_add (path_join dir d) (path_join dir key)) (split_ws (strip ds)) users)
     | _ \<Rightarrow> Inl ValueError)"

definition get_path_rev_deps :: "fsys \<Rightarrow> str \<Rightarrow> pyset dict res" where
  "get_path_rev_deps fs dir = bindE (read_text fs (path_join dir ''modules.dep''))
     (\<lambda>data. foldE (path_dep_line dir) (lines_of (strip data)) [])"

text \<open>
  \<open>get_noentry\<close>: a module file is read through a temporary file named \<open>.ko\<close> when it is
  compressed; the modules whose symbol tables lack \<open>init_module\<close> are collected.
\<close>

definition is_ko_file :: "str \<Rightarrow> str \<Rightarrow> bool" where
  "is_ko_file root f \<longleftrightarrow> endswith f ''.ko.zst'' \<or> endswith f ''.ko.xz'' \<or> endswith (path_join root f) ''.ko''"

definition get_noentry :: "(str \<Rightarrow> str list) \<Rightarrow> walk \<Rightarrow> pyset" where
  "get_noentry elf w =
     fold (\<lambda>(root, f) acc.
        if is_ko_file root f \<and> ''init_module'' \<notin> set (elf (path_join root f))
        then List.insert (path_join root f) acc else acc) (walk_files w) []"

text \<open>\<open>get_sym\<close>: a line of \<open>nm\<close> has two fields, or three with an address in front.\<close>

definition nm_line :: "str list \<Rightarrow> str \<Rightarrow> str list \<Rightarrow> str list res" where
  "nm_line symty line acc =
     (let tup = split_ws (strip line); tup = (if length tup = 3 then tl tup else tup)
      in case tup of
           [ty, name] \<Rightarrow> Inr (if ty \<in> set symty then acc @ [name] else acc)
         | _ \<Rightarrow> Inl ValueError)"

definition get_sym :: "(str \<Rightarrow> str) \<Rightarrow> str \<Rightarrow> str list \<Rightarrow> str list res" where
  "get_sym nm p symty = foldE (nm_line symty) (lines_of (strip (nm p))) []"

subsection \<open>Lemmas\<close>

lemma norm_mod_cases:
  "norm_mod (m @ ''.ko.zst'') = m @ ''.ko''" "norm_mod (m @ ''.ko.xz'') = m @ ''.ko''"
  "norm_mod (m @ ''.ko'') = m @ ''.ko''"
proof -
  have z: "m @ ''.ko.zst'' = (m @ ''.ko'') @ ''.zst''" and x: "m @ ''.ko.xz'' = (m @ ''.ko'') @ ''.xz''"
    by simp_all
  show "norm_mod (m @ ''.ko.zst'') = m @ ''.ko''"
    by (simp only: z) (simp add: norm_mod_def endswith_suffix suffix_def chop_def)
  show "norm_mod (m @ ''.ko.xz'') = m @ ''.ko''"
    by (simp only: x) (simp add: norm_mod_def endswith_suffix suffix_def chop_def)
  show "norm_mod (m @ ''.ko'') = m @ ''.ko''"
    by (auto simp: norm_mod_def endswith_suffix suffix_def)
qed

lemma dash_to_us_ko: "dash_to_us ''.ko'' = ''.ko''"
  by (simp add: dash_to_us_def)

lemma mod_name_module:
  assumes "slash \<notin> set m" and "ext \<in> {''.ko'', ''.ko.zst'', ''.ko.xz''}"
  shows "mod_name (path_join d (m @ ext)) = dash_to_us m"
proof -
  have "slash \<notin> set (m @ ext)" using assms by auto
  then have "basename (path_join d (m @ ext)) = m @ ext" by (rule basename_path_join)
  moreover have "norm_mod (m @ ext) = m @ ''.ko''" using assms(2) norm_mod_cases by auto
  ultimately show ?thesis
    by (simp add: mod_name_def dash_to_us_ko)
qed

lemma mod_name_no_dash: "CHR ''-'' \<notin> set (mod_name p)"
  by (auto simp: mod_name_def Let_def chop_def dash_to_us_no_dash dest: in_set_takeD)

text \<open>The lines of the file, each as the module it is about and its dependencies.\<close>

definition dep_records :: "str \<Rightarrow> (str \<times> str list) list res" where
  "dep_records data = mapE parse_dep (lines_of (strip data))"

definition add_record :: "str \<times> str list \<Rightarrow> deps \<Rightarrow> deps" where
  "add_record r t = (case r of (key, ds) \<Rightarrow>
     if ds = [] then t else fold (add_dep key) ds (AList.update key [] (fst t), snd t))"

lemma dep_line_eqs:
  "parse_dep l = Inr r \<Longrightarrow> dep_line l t = Inr (add_record r t)"
  "parse_dep l = Inl e \<Longrightarrow> dep_line l t = Inl e"
  by (auto simp: dep_line_def add_record_def split: prod.splits)

lemma foldE_dep_line:
  "foldE dep_line ls t = bindE (mapE parse_dep ls) (\<lambda>rs. Inr (fold add_record rs t))"
  by (rule foldE_parse) (simp_all add: dep_line_eqs)

lemma get_deps_records:
  "get_deps_text data = bindE (dep_records data) (\<lambda>rs. Inr (fold add_record rs ([], [])))"
  by (simp add: get_deps_text_def foldE_dep_line dep_records_def)

lemma add_deps_snd: "snd (fold (add_dep key) ds t) = fold (\<lambda>(d, k). dd_add d k) (map (\<lambda>d. (d, key)) ds) (snd t)"
  by (induction ds arbitrary: t) (simp_all add: add_dep_def)

lemma add_deps_fst: "fst (fold (add_dep key) ds t) = fold (\<lambda>(k, d). dd_add k d) (map (\<lambda>d. (key, d)) ds) (fst t)"
  by (induction ds arbitrary: t) (simp_all add: add_dep_def)

lemma rev_add_record:
  "set (dd_get (snd (add_record (key, ds) t)) d) =
     set (dd_get (snd t) d) \<union> (if d \<in> set ds then {key} else {})"
  by (auto simp: add_record_def add_deps_snd dd.get_adds)

lemma dep_add_record:
  "set (dd_get (fst (add_record (key, ds) t)) k) =
     (if k = key \<and> ds \<noteq> [] then set ds else set (dd_get (fst t) k))"
  by (auto simp: add_record_def add_deps_fst dd.get_adds)

lemma rev_records:
  "set (dd_get (snd (fold add_record rs t)) d) =
     set (dd_get (snd t) d) \<union> {k. \<exists>ds. (k, ds) \<in> set rs \<and> d \<in> set ds}"
proof (induction rs arbitrary: t)
  case (Cons r rs)
  then show ?case by (cases r) (auto simp: rev_add_record)
qed simp

lemma dep_records_sound:
  assumes "\<And>k. set (dd_get (fst t) k) \<subseteq> {d. k \<in> set (dd_get (snd t) d)}"
  shows "d \<in> set (dd_get (fst (fold add_record rs t)) k) \<Longrightarrow>
    k \<in> set (dd_get (snd (fold add_record rs t)) d)"
  using assms
proof (induction rs arbitrary: t)
  case (Cons r rs)
  obtain key ds where r: "r = (key, ds)" by (cases r)
  have "set (dd_get (fst (add_record r t)) k) \<subseteq> {d. k \<in> set (dd_get (snd (add_record r t)) d)}" for k
    using Cons.prems(2) [of k] by (auto simp: r dep_add_record rev_add_record)
  with Cons show ?case by simp
qed auto

lemma dep_records_complete:
  assumes "distinct (map fst rs)"
  shows "set (dd_get (fst (fold add_record rs t)) k) =
    (if \<exists>ds. (k, ds) \<in> set rs \<and> ds \<noteq> [] then {d. \<exists>ds. (k, ds) \<in> set rs \<and> d \<in> set ds}
     else set (dd_get (fst t) k))"
  using assms
proof (induction rs arbitrary: t)
  case (Cons r rs)
  obtain key ds where r: "r = (key, ds)" by (cases r)
  from Cons.prems have "\<And>e. (key, e) \<notin> set rs" by (force simp: r)
  with Cons show ?case by (auto simp: r dep_add_record)
qed simp

subsection \<open>Dependency graphs\<close>

text \<open>
  The interface \<open>check_drivers\<close> uses: two tables of which one reverses the other. A dependency
  graph read from \<open>modules.dep\<close> has it for every file (the converse needs one line for each
  module, as \<open>depmod\<close> writes them).
\<close>

locale reversed_tables =
  fixes graph :: "'g \<Rightarrow> bool"
    and deps_of :: "'g \<Rightarrow> 'u \<Rightarrow> 'd set"
    and users_of :: "'g \<Rightarrow> 'd \<Rightarrow> 'u set"
  assumes reversed: "graph g \<Longrightarrow> d \<in> deps_of g u \<Longrightarrow> u \<in> users_of g d"
begin

lemma unused: "graph g \<Longrightarrow> users_of g d = {} \<Longrightarrow> d \<notin> deps_of g u"
  using reversed by blast

end

text \<open>
  Among modules, a set closed under users holds no module that a module outside it depends on.
\<close>

locale dep_graph = reversed_tables graph deps_of users_of
  for graph :: "'g \<Rightarrow> bool" and deps_of :: "'g \<Rightarrow> 'm \<Rightarrow> 'm set" and users_of :: "'g \<Rightarrow> 'm \<Rightarrow> 'm set"
begin

lemma closed_removal:
  assumes "graph g" and "\<And>d. d \<in> R \<Longrightarrow> users_of g d \<subseteq> R" and "k \<notin> R"
  shows "deps_of g k \<inter> R = {}"
  using assms reversed by blast

end

definition is_dep_graph :: "deps \<Rightarrow> bool" where
  "is_dep_graph g \<longleftrightarrow> (\<exists>data. get_deps_text data = Inr g)"

interpretation modules_dep: dep_graph is_dep_graph
  "\<lambda>g k. set (dd_get (fst g) k)" "\<lambda>g d. set (dd_get (snd g) d)"
proof unfold_locales
  fix g d k assume "is_dep_graph g" and d: "d \<in> set (dd_get (fst g) k)"
  then obtain rs where "g = fold add_record rs ([], [])"
    by (auto simp: is_dep_graph_def get_deps_records bindE_Inr_iff)
  with d show "k \<in> set (dd_get (snd g) d)" by (simp add: dep_records_sound)
qed

lemma noentry_fold:
  "set (fold (\<lambda>(root, f) acc.
        if is_ko_file root f \<and> ''init_module'' \<notin> set (elf (path_join root f))
        then List.insert (path_join root f) acc else acc) rfs acc) =
   set acc \<union> {path_join root f | root f. (root, f) \<in> set rfs \<and> is_ko_file root f \<and>
        ''init_module'' \<notin> set (elf (path_join root f))}"
proof (induction rfs arbitrary: acc)
  case (Cons x xs)
  then show ?case by (cases x) auto
qed simp

end
