(* ===== verification/ObjDeps.thy ===== *)
theory ObjDeps
  imports ModDeps
begin

section \<open>Object dependencies: gen_objdep.py\<close>

text \<open>
  \<open>dependency/gen_objdep.py\<close> reads, for every object of the kernel build, the tables the analysis
  left beside it (symbols, calls, calls without inlining, links through global data, function
  pointer references) and answers queries about them. The record \<open>objdeps\<close> is the state of an
  \<open>ObjDeps\<close> object; the constructor is \<open>mk_objdeps\<close>, one definition for each kind of file and each
  of its three linking loops; the queries follow.
\<close>

subsection \<open>Symbols and object names\<close>

definition module_symbols :: "str list" where
  "module_symbols = [''module_get'', ''modver_version_show'', ''cleanup_module'', ''do_init_module'',
     ''init_module'', ''load_module'', ''module_put'', ''module_put_and_exit'', ''print_modules'',
     ''retpoline_module_ok'', ''try_module_get'']"

definition is_module_symbol :: "str \<Rightarrow> bool" where
  "is_module_symbol name =
     (let name_norm = dropWhile (\<lambda>c. c = CHR ''_'') name
      in name_norm \<in> set module_symbols \<or> take 5 name_norm = ''llvm.'')"

definition normalize_object_name :: "str \<Rightarrow> str \<Rightarrow> str \<Rightarrow> str \<Rightarrow> str" where
  "normalize_object_name fname curext newext curpath =
     (let obj = chop (length curext) fname;
          obj = (if curpath \<noteq> [] then path_join curpath obj else obj)
      in dash_to_us obj @ newext)"

subsection \<open>load_btobj_deps and load_busreg_apis\<close>

definition btobj_line :: "str \<Rightarrow> str \<Rightarrow> pyset dict \<Rightarrow> pyset dict res" where
  "btobj_line linux_build line t =
     (if line = [] then Inr t
      else case split_ws (strip line) of
        [] \<Rightarrow> Inl ValueError
      | linked # objs \<Rightarrow>
          bindE (from_end 1 linked) (\<lambda>c.
          bindE (guardE (c = CHR '':'') AssertionError) (\<lambda>_.
          let l = dash_to_us (path_join linux_build (chop 1 linked))
          in Inr (fold (\<lambda>obj. dd_add (dash_to_us (path_join linux_build obj)) l) objs t))))"

definition load_btobj_deps :: "fsys \<Rightarrow> str \<Rightarrow> str \<Rightarrow> pyset dict res" where
  "load_btobj_deps fs linux_build objdeplist =
     bindE (read_text fs objdeplist)
       (\<lambda>data. foldE (btobj_line linux_build) (lines_of (strip data)) [])"

text \<open>Each line of a list file is unpacked into two fields; the set that is returned is never added to.\<close>

definition busreg_line :: "str \<Rightarrow> pyset \<Rightarrow> pyset res" where
  "busreg_line line apis =
     (let l = strip line in
      if l = [] then Inr apis
      else case split_ws l of [x, api] \<Rightarrow> Inr apis | _ \<Rightarrow> Inl ValueError)"

definition load_busreg_apis :: "fsys \<Rightarrow> str list \<Rightarrow> pyset res" where
  "load_busreg_apis fs busreg_list =
     foldE (\<lambda>ln apis. bindE (read_text fs ln)
       (\<lambda>data. foldE busreg_line (lines_of (strip data)) apis)) busreg_list []"

subsection \<open>The state\<close>

type_synonym fsym = "str \<times> str"

record objdeps =
  obj_build_revdeps :: "pyset dict"
  import_table :: "pyset dict"
  export_table :: "pyset dict"
  global_export_table :: "pyset dict"
  fdep_map :: "pyset dict dict"
  frevdep_map :: "fsym list dict"
  mod_map :: "pyset dict"
  drv_map :: "pyset dict"
  gdat_cbs :: "pyset dict"
  gdat_lnks :: "pyset dict dict"
  fpref_map :: "pyset dict dict"
  fpref_revmap :: "pyset dict dict"
  non_bc_mods :: pyset
  frevdep_map_noinline :: "pyset dict dict"
  inlined :: "pyset dict"

definition empty_objdeps :: "pyset dict \<Rightarrow> objdeps" where
  "empty_objdeps btobj_deps = \<lparr>obj_build_revdeps = btobj_deps, import_table = [], export_table = [],
     global_export_table = [], fdep_map = [], frevdep_map = [], mod_map = [], drv_map = [],
     gdat_cbs = [], gdat_lnks = [], fpref_map = [], fpref_revmap = [], non_bc_mods = [],
     frevdep_map_noinline = [], inlined = []\<rparr>"

subsection \<open>Reading the tables of one object\<close>

text \<open>A line of \<open>nm\<close>: the last two fields are the type and the name.\<close>

definition symtab_entry :: "str \<Rightarrow> (str \<times> str) res" where
  "symtab_entry line = (case rev (split_ws line) of
       name # ty # _ \<Rightarrow> Inr (ty, name)
     | _ \<Rightarrow> Inl ValueError)"

definition add_symbol :: "str \<Rightarrow> str \<times> str \<Rightarrow> objdeps \<Rightarrow> objdeps" where
  "add_symbol md e od = (case e of (ty, name) \<Rightarrow>
     if ty = ''U'' then od\<lparr>import_table := dd_add md name (import_table od)\<rparr>
     else od\<lparr>export_table := dd_add md name (export_table od),
             global_export_table :=
               (if ty = ''T'' then dd_add md name (global_export_table od) else global_export_table od),
             mod_map := dd_add name md (mod_map od)\<rparr>)"

definition load_symtab :: "str \<Rightarrow> str \<Rightarrow> objdeps \<Rightarrow> objdeps res" where
  "load_symtab md data od =
     bindE (mapE symtab_entry (filter (\<lambda>l. l \<noteq> []) (map strip (lines_of (strip data)))))
       (\<lambda>es. Inr (fold (add_symbol md) es od))"

text \<open>The lines \<open>a : b\<close> of the other tables, without those about the module loader's symbols.\<close>

definition pair_entry :: "str \<Rightarrow> (str \<times> str) res" where
  "pair_entry line = (case split_str '' : '' (strip line) of
       [a, b] \<Rightarrow> Inr (a, b)
     | _ \<Rightarrow> Inl ValueError)"

definition pair_lines :: "str \<Rightarrow> (str \<times> str) list res" where
  "pair_lines data =
     bindE (mapE pair_entry (filter (\<lambda>l. l \<noteq> []) (lines_of (strip data))))
       (\<lambda>ps. Inr (filter (\<lambda>(a, b). \<not> (is_module_symbol a \<or> is_module_symbol b)) ps))"

definition add_call :: "str \<Rightarrow> str \<Rightarrow> str \<Rightarrow> objdeps \<Rightarrow> objdeps" where
  "add_call md caller callee od =
     od\<lparr>fdep_map := dd2_add md caller callee (fdep_map od),
        frevdep_map := dd_add callee (caller, md) (frevdep_map od)\<rparr>"

definition load_imptab :: "str \<Rightarrow> str \<Rightarrow> objdeps \<Rightarrow> objdeps res" where
  "load_imptab md data od = bindE (pair_lines data)
     (\<lambda>ps. Inr (fold (\<lambda>(s, c). add_call md s c) ps od))"

definition load_impnoin :: "str \<Rightarrow> str \<Rightarrow> objdeps \<Rightarrow> objdeps res" where
  "load_impnoin md data od = bindE (pair_lines data)
     (\<lambda>ps. let localsyms = fst ` set ps in
       Inr (fold (\<lambda>(s, c) od.
         if s \<noteq> c \<and> c \<in> localsyms
         then od\<lparr>frevdep_map_noinline := dd2_add md c s (frevdep_map_noinline od)\<rparr> else od) ps od))"

definition load_symlnk :: "str \<Rightarrow> str \<Rightarrow> objdeps \<Rightarrow> objdeps res" where
  "load_symlnk md data od = bindE (pair_lines data)
     (\<lambda>ps. Inr (fold (\<lambda>(f, g) od. od\<lparr>gdat_lnks := dd2_add md f g (gdat_lnks od)\<rparr>) ps od))"

definition load_symcbs :: "str \<Rightarrow> objdeps \<Rightarrow> objdeps res" where
  "load_symcbs data od = bindE (pair_lines data)
     (\<lambda>ps. Inr (fold (\<lambda>(g, cb) od. od\<lparr>gdat_cbs := dd_add g cb (gdat_cbs od)\<rparr>) ps od))"

definition load_fptref :: "str \<Rightarrow> str \<Rightarrow> objdeps \<Rightarrow> objdeps res" where
  "load_fptref md data od = bindE (pair_lines data)
     (\<lambda>ps. Inr (fold (\<lambda>(s, f) od.
        od\<lparr>fpref_map := dd2_add md s f (fpref_map od),
           fpref_revmap := dd2_add md f s (fpref_revmap od)\<rparr>) ps od))"

text \<open>
  The Makefile or Kbuild of an object: the search goes up one directory at a time and stops at
  \<open>/Kbuild\<close>.
\<close>

partial_function (option) find_makefile :: "(str \<Rightarrow> bool) \<Rightarrow> str \<Rightarrow> str option" where
  "find_makefile ex mk =
     (if ex mk then Some mk
      else let kb = path_join (dirname mk) ''Kbuild'' in
        if ex kb \<or> kb = ''/Kbuild'' then Some kb
        else find_makefile ex (path_join (dirname (dirname kb)) ''Makefile''))"

declare find_makefile.simps [code]

definition mod_objfile :: "fsys \<Rightarrow> str \<Rightarrow> str \<Rightarrow> str \<Rightarrow> str \<Rightarrow> objdeps \<Rightarrow> objdeps res" where
  "mod_objfile fs linux_src linux_build ko objfile od =
     (if startswith objfile ''include/'' then Inr od
      else bindE (returns (find_makefile (fs_exists fs)
              (path_join (path_join linux_src (dirname objfile)) ''Makefile''))) (\<lambda>mk.
        if dirname mk = normpath linux_src then Inr od
        else bindE (guardE (fs_exists fs mk) AssertionError) (\<lambda>_.
          Inr (od\<lparr>drv_map :=
            dd_add (normalize_object_name objfile ''.o'' ''.o'' linux_build) ko (drv_map od)\<rparr>))))"

definition load_mod :: "fsys \<Rightarrow> str \<Rightarrow> str \<Rightarrow> str \<Rightarrow> str \<Rightarrow> objdeps \<Rightarrow> objdeps res" where
  "load_mod fs linux_src linux_build ko data od =
     foldE (mod_objfile fs linux_src linux_build ko)
       (split_char (CHR '' '') (replace_char (CHR 0x0A) '' '' (strip data))) od"

definition is_table :: "str \<Rightarrow> str \<Rightarrow> bool" where
  "is_table fname ext \<longleftrightarrow> endswith fname (''.o.'' @ ext) \<and> \<not> endswith fname (''.mod.o.'' @ ext)"

definition load_entry :: "fsys \<Rightarrow> str \<Rightarrow> str \<Rightarrow> str \<times> str \<Rightarrow> objdeps \<Rightarrow> objdeps res" where
  "load_entry fs linux_src linux_build e od = (case e of (root, fname) \<Rightarrow>
     let fpath = path_join root fname;
         md = (\<lambda>ext. normalize_object_name fname (''.o.'' @ ext) ''.o'' root)
     in if is_table fname ''symtab'' then bindE (read_text fs fpath) (\<lambda>d. load_symtab (md ''symtab'') d od)
        else if is_table fname ''imptab'' then bindE (read_text fs fpath) (\<lambda>d. load_imptab (md ''imptab'') d od)
        else if is_table fname ''impnoin'' then bindE (read_text fs fpath) (\<lambda>d. load_impnoin (md ''impnoin'') d od)
        else if is_table fname ''symlnk'' then bindE (read_text fs fpath) (\<lambda>d. load_symlnk (md ''symlnk'') d od)
        else if is_table fname ''symcbs'' then bindE (read_text fs fpath) (\<lambda>d. load_symcbs d od)
        else if is_table fname ''fptref'' then bindE (read_text fs fpath) (\<lambda>d. load_fptref (md ''fptref'') d od)
        else if endswith fname ''.mod'' then
          bindE (read_text fs fpath)
            (\<lambda>d. load_mod fs linux_src linux_build (normalize_object_name fname ''.mod'' ''.ko'' root) d od)
        else if endswith fname ''.o.nonbc'' then
          Inr (od\<lparr>non_bc_mods := List.insert (md ''nonbc'') (non_bc_mods od)\<rparr>)
        else Inr od)"

subsection \<open>Linking\<close>

text \<open>A function that refers to global data calls the callbacks stored in it.\<close>

definition link_gdat :: "objdeps \<Rightarrow> objdeps" where
  "link_gdat od0 =
     fold (\<lambda>(md, lnks). fold (\<lambda>(func, gvs). fold (\<lambda>gv od.
         if \<not> has_key (gdat_cbs od) gv then od
         else fold (\<lambda>cb. add_call md func cb) (dd_get (gdat_cbs od) gv) od) gvs) lnks)
       (gdat_lnks od0) od0"

definition mark_inlined :: "objdeps \<Rightarrow> objdeps" where
  "mark_inlined od0 =
     fold (\<lambda>(md, called_by). fold (\<lambda>(called, syms) od.
         if \<not> has_key (frevdep_map od) called
         then od\<lparr>inlined := dd_add md called (inlined od)\<rparr>
         else let with_inline = map fst (filter (\<lambda>(s, m). m = md) (dd_get (frevdep_map od) called)) in
           if list_ex (\<lambda>s. s \<notin> set with_inline) syms
           then od\<lparr>inlined := dd_add md called (inlined od)\<rparr> else od) called_by)
       (frevdep_map_noinline od0) od0"

text \<open>
  A call seen only without inlining is restored when its caller has other calls and its callee other
  callers.
\<close>

definition restore_noinline :: "objdeps \<Rightarrow> objdeps" where
  "restore_noinline od0 =
     fold (\<lambda>(md, called_by). fold (\<lambda>(called, syms). fold (\<lambda>s od.
         let od = od\<lparr>fdep_map := dd_touch (fdep_map od) md\<rparr> in
         if has_key (dd_get (fdep_map od) md) s \<and> has_key (frevdep_map od) called \<and>
            called \<notin> set (dd2_get (fdep_map od) md s)
         then add_call md s called od else od) syms) called_by)
       (frevdep_map_noinline od0) od0"

definition mk_objdeps :: "fsys \<Rightarrow> str \<Rightarrow> str \<Rightarrow> pyset dict \<Rightarrow> objdeps res" where
  "mk_objdeps fs linux_src linux_build btobj_deps =
     bindE (foldE (load_entry fs linux_src linux_build) (walk_files (fs_walk fs linux_build))
              (empty_objdeps btobj_deps))
       (\<lambda>od. Inr (restore_noinline (mark_inlined (link_gdat od))))"

subsection \<open>The tables agree\<close>

text \<open>
  Each call is recorded in both directions, each definition of a symbol in the export table of the
  object and in the objects of the symbol, each function pointer reference in both directions; a
  global symbol is exported.
\<close>

definition calls_linked :: "objdeps \<Rightarrow> bool" where
  "calls_linked od \<longleftrightarrow> (\<forall>md s c. (s, md) \<in> set (dd_get (frevdep_map od) c) \<longleftrightarrow>
     c \<in> set (dd2_get (fdep_map od) md s))"

definition symbols_linked :: "objdeps \<Rightarrow> bool" where
  "symbols_linked od \<longleftrightarrow> (\<forall>md name. md \<in> set (dd_get (mod_map od) name) \<longleftrightarrow>
     name \<in> set (dd_get (export_table od) md)) \<and>
     (\<forall>md. set (dd_get (global_export_table od) md) \<subseteq> set (dd_get (export_table od) md))"

definition refs_linked :: "objdeps \<Rightarrow> bool" where
  "refs_linked od \<longleftrightarrow> (\<forall>md s f. f \<in> set (dd2_get (fpref_map od) md s) \<longleftrightarrow>
     s \<in> set (dd2_get (fpref_revmap od) md f))"

definition od_linked :: "objdeps \<Rightarrow> bool" where
  "od_linked od \<longleftrightarrow> calls_linked od \<and> symbols_linked od \<and> refs_linked od"

lemmas linked_defs = od_linked_def calls_linked_def symbols_linked_def refs_linked_def

lemma empty_linked: "od_linked (empty_objdeps bt)"
  by (simp add: linked_defs empty_objdeps_def)

lemma add_call_linked: "od_linked od \<Longrightarrow> od_linked (add_call md s c od)"
  by (auto simp: linked_defs add_call_def py_sets)

lemma add_symbol_linked: "od_linked od \<Longrightarrow> od_linked (add_symbol md e od)"
  by (cases e) (auto simp: linked_defs add_symbol_def py_sets)

text \<open>Updates of the tables the linking does not speak of.\<close>

lemma linked_irrelevant [simp]:
  "od_linked (od\<lparr>frevdep_map_noinline := x1\<rparr>) \<longleftrightarrow> od_linked od"
  "od_linked (od\<lparr>gdat_lnks := x2\<rparr>) \<longleftrightarrow> od_linked od"
  "od_linked (od\<lparr>gdat_cbs := x3\<rparr>) \<longleftrightarrow> od_linked od"
  "od_linked (od\<lparr>drv_map := x3\<rparr>) \<longleftrightarrow> od_linked od"
  "od_linked (od\<lparr>non_bc_mods := x4\<rparr>) \<longleftrightarrow> od_linked od"
  "od_linked (od\<lparr>inlined := x3\<rparr>) \<longleftrightarrow> od_linked od"
  "od_linked (od\<lparr>import_table := x3\<rparr>) \<longleftrightarrow> od_linked od"
  "od_linked (od\<lparr>fdep_map := dd_touch (fdep_map od) md\<rparr>) \<longleftrightarrow> od_linked od"
  by (simp_all add: linked_defs)

lemma load_pairs_linked:
  "load_imptab md d od = Inr od' \<Longrightarrow> od_linked od \<Longrightarrow> od_linked od'"
  "load_impnoin md d od = Inr od' \<Longrightarrow> od_linked od \<Longrightarrow> od_linked od'"
  "load_symlnk md d od = Inr od' \<Longrightarrow> od_linked od \<Longrightarrow> od_linked od'"
  "load_symcbs d od = Inr od' \<Longrightarrow> od_linked od \<Longrightarrow> od_linked od'"
  "load_fptref md d od = Inr od' \<Longrightarrow> od_linked od \<Longrightarrow> od_linked od'"
  "load_symtab md d od = Inr od' \<Longrightarrow> od_linked od \<Longrightarrow> od_linked od'"
  unfolding load_imptab_def load_impnoin_def load_symlnk_def load_symcbs_def load_fptref_def
    load_symtab_def bindE_Inr_iff Let_def
  by (auto intro!: fold_keeps [where P = od_linked] add_call_linked add_symbol_linked split: prod.splits)
     (auto simp: linked_defs py_sets)

lemma load_mod_linked: "load_mod fs src build ko d od = Inr od' \<Longrightarrow> od_linked od \<Longrightarrow> od_linked od'"
  unfolding load_mod_def
  by (erule foldE_invariant) (auto simp: mod_objfile_def bindE_Inr_iff split: if_splits)

lemma load_entry_linked:
  "load_entry fs src build e od = Inr od' \<Longrightarrow> od_linked od \<Longrightarrow> od_linked od'"
  unfolding load_entry_def Let_def
  by (auto simp: bindE_Inr_iff split: prod.splits if_splits
      intro: load_pairs_linked load_mod_linked)

lemma link_gdat_linked: "od_linked od \<Longrightarrow> od_linked (link_gdat od)"
  unfolding link_gdat_def
  by (auto intro!: fold_keeps [where P = od_linked] add_call_linked add_symbol_linked split: prod.splits)

lemma mark_inlined_linked: "od_linked od \<Longrightarrow> od_linked (mark_inlined od)"
  unfolding mark_inlined_def Let_def
  by (auto intro!: fold_keeps [where P = od_linked] add_call_linked add_symbol_linked split: prod.splits)

lemma restore_noinline_linked: "od_linked od \<Longrightarrow> od_linked (restore_noinline od)"
  unfolding restore_noinline_def Let_def
  by (auto intro!: fold_keeps [where P = od_linked] add_call_linked split: prod.splits)

lemma mk_objdeps_loaded:
  assumes "mk_objdeps fs src build bt = Inr od"
  obtains od0 where "foldE (load_entry fs src build) (walk_files (fs_walk fs build)) (empty_objdeps bt) = Inr od0"
    and "od = restore_noinline (mark_inlined (link_gdat od0))" and "od_linked od0"
proof -
  from assms obtain od0
    where ld: "foldE (load_entry fs src build) (walk_files (fs_walk fs build)) (empty_objdeps bt) = Inr od0"
      and "od = restore_noinline (mark_inlined (link_gdat od0))"
    by (auto simp: mk_objdeps_def bindE_Inr_iff)
  moreover from ld have "od_linked od0"
    by (rule foldE_invariant) (auto intro: empty_linked load_entry_linked)
  ultimately show ?thesis using that by blast
qed

lemma objdeps_links: "mk_objdeps fs src build bt = Inr od \<Longrightarrow> od_linked od"
  by (erule mk_objdeps_loaded) (auto intro: link_gdat_linked mark_inlined_linked restore_noinline_linked)

interpretation calls: reversed_tables od_linked
  "\<lambda>od p. set (dd2_get (fdep_map od) (snd p) (fst p))" "\<lambda>od c. set (dd_get (frevdep_map od) c)"
  by unfold_locales (auto simp: linked_defs)

subsection \<open>The Makefile search\<close>

lemma dirname_append_slash:
  assumes "slash \<notin> set f"
  shows "dirname (d @ slash # f) =
    (if list_all (\<lambda>c. c = slash) d then d @ [slash] else rev (dropWhile (\<lambda>c. c = slash) (rev d)))"
  using assms by (simp add: dirname_def Let_def)

text \<open>An absolute directory as \<open>dirname\<close> returns it: the root, or no slash at its end.\<close>

definition abs_dir :: "str \<Rightarrow> bool" where
  "abs_dir d \<longleftrightarrow> d = ''/'' \<or> (startswith d ''/'' \<and> \<not> startswith d ''//'' \<and> \<not> endswith d ''/'')"

lemma rstrip_slash:
  obtains n where "d = rev (dropWhile (\<lambda>c. c = slash) (rev d)) @ replicate n slash"
proof -
  have "\<forall>c \<in> set (takeWhile (\<lambda>c. c = slash) (rev d)). c = slash" by (auto dest: set_takeWhileD)
  then obtain n where "takeWhile (\<lambda>c. c = slash) (rev d) = replicate n slash"
    by (metis replicate_length_same)
  then have "rev (rev d) = rev (replicate n slash @ dropWhile (\<lambda>c. c = slash) (rev d))"
    by (metis takeWhile_dropWhile_id)
  then have "d = rev (dropWhile (\<lambda>c. c = slash) (rev d)) @ replicate n slash" by simp
  then show ?thesis by (rule that)
qed

lemma rstrip_slash_end: "\<not> endswith (rev (dropWhile (\<lambda>c. c = slash) xs)) ''/''"
  by (induction xs) (auto simp: endswith_rev)

lemma abs_path_split:
  assumes "startswith p ''/''"
  obtains d f where "p = d @ slash # f" and "slash \<notin> set f"
  using assms by (metis basename_no_slash in_set_conv_decomp_last startswith_slash list.set_intros(1))

lemma abs_dir_dirname:
  assumes "startswith p ''/''" and "\<not> startswith p ''//''"
  shows "abs_dir (dirname p) \<and> length (dirname p) \<le> length p \<and>
    (\<not> endswith p ''/'' \<longrightarrow> length (dirname p) < length p)"
proof -
  obtain d f where p: "p = d @ slash # f" and f: "slash \<notin> set f"
    using assms(1) by (rule abs_path_split)
  let ?e = "rev (dropWhile (\<lambda>c. c = slash) (rev d))"
  show ?thesis
  proof (cases d)
    case Nil
    with p f have "dirname p = ''/''" using dirname_append_slash [of f "[]"] by simp
    then show ?thesis
      using Nil p by (cases f) (auto simp: abs_dir_def endswith_rev)
  next
    case (Cons c cs)
    with p assms have c: "c = slash" "\<not> startswith cs ''/''" by (auto simp: startswith_slash)
    obtain n where n: "d = ?e @ replicate n slash" by (rule rstrip_slash)
    have all: "\<not> list_all (\<lambda>c. c = slash) d"
    proof
      assume "list_all (\<lambda>c. c = slash) d"
      with Cons c have "cs = []" by (cases cs) auto
      with Cons c p assms(2) show False by simp
    qed
    then have ne: "?e \<noteq> []" by (auto simp: list_all_iff dropWhile_eq_Nil_conv)
    then obtain x es where x: "?e = x # es" by (cases ?e) blast+
    moreover have "x = slash" using n [unfolded x] Cons c(1) by simp
    ultimately have e: "?e = slash # es" by simp
    have "\<not> startswith ?e ''//''"
    proof
      assume "startswith ?e ''//''"
      then have "startswith d ''//''" by (subst n) (auto simp: startswith_prefix prefix_def)
      with Cons c show False by simp
    qed
    moreover have "length ?e \<le> length d" by (subst (2) n) simp
    moreover have "startswith ?e ''/''" by (simp add: e)
    moreover have "\<not> endswith ?e ''/''" by (rule rstrip_slash_end)
    moreover have "dirname p = ?e" using all f by (simp add: p dirname_append_slash)
    ultimately show ?thesis unfolding p abs_dir_def by auto
  qed
qed

lemma dirname_join:
  assumes "abs_dir d" and "slash \<notin> set f" and "f \<noteq> []"
  shows "dirname (path_join d f) = d"
proof (cases "d = ''/''")
  case True
  with assms show ?thesis
    using dirname_append_slash [of f "[]"] by (auto simp: path_join_def startswith_slash endswith_rev)
next
  case False
  with assms have d: "\<not> endswith d ''/''" "startswith d ''/''" by (auto simp: abs_dir_def)
  then have "\<not> list_all (\<lambda>c. c = slash) d" "dropWhile (\<lambda>c. c = slash) (rev d) = rev d"
    by (cases d rule: rev_cases; auto simp: endswith_rev)+
  moreover have "path_join d f = d @ slash # f"
    using d assms(2,3) by (auto simp: path_join_def startswith_slash)
  ultimately show ?thesis using assms(2) by (simp add: dirname_append_slash)
qed

lemma find_makefile_dir:
  assumes "abs_dir (dirname mk)"
  shows "\<exists>r. find_makefile ex mk = Some r \<and> (ex r \<or> r = ''/Kbuild'')"
  using assms
proof (induction "length (dirname mk)" arbitrary: mk rule: less_induct)
  case less
  let ?d = "dirname mk"
  let ?kb = "path_join ?d ''Kbuild''" and ?mk = "path_join (dirname ?d) ''Makefile''"
  show ?case
  proof (cases "ex mk \<or> ex ?kb \<or> ?kb = ''/Kbuild''")
    case True
    then show ?thesis by (subst find_makefile.simps) (auto simp: Let_def)
  next
    case False
    have kb: "dirname ?kb = ?d" using less.prems by (intro dirname_join) auto
    from False have "?d \<noteq> ''/''" by (auto simp: path_join_def endswith_rev)
    with less.prems have d: "startswith ?d ''/''" "\<not> startswith ?d ''//''" "\<not> endswith ?d ''/''"
      by (auto simp: abs_dir_def)
    then have up: "abs_dir (dirname ?d)" "length (dirname ?d) < length ?d"
      using abs_dir_dirname by blast+
    then have "dirname ?mk = dirname ?d" by (intro dirname_join) auto
    with up have "\<exists>r. find_makefile ex ?mk = Some r \<and> (ex r \<or> r = ''/Kbuild'')"
      by (intro less.hyps) auto
    with False kb show ?thesis by (subst find_makefile.simps) (simp add: Let_def)
  qed
qed

subsection \<open>Linking adds the indirect calls\<close>

lemma set_fdep_add_call [simp]:
  "set (dd2_get (fdep_map (add_call md s c od)) md' s') =
     (if md' = md \<and> s' = s then insert c (set (dd2_get (fdep_map od) md s))
      else set (dd2_get (fdep_map od) md' s'))"
  by (simp add: add_call_def set_dd2_add)

lemma add_call_frame [simp]:
  "gdat_cbs (add_call md s c od) = gdat_cbs od" "gdat_lnks (add_call md s c od) = gdat_lnks od"
  "frevdep_map_noinline (add_call md s c od) = frevdep_map_noinline od"
  by (simp_all add: add_call_def)

lemma fold_add_call_frame [simp]:
  "gdat_cbs (fold (\<lambda>cb. add_call md f cb) cs od) = gdat_cbs od"
  "gdat_lnks (fold (\<lambda>cb. add_call md f cb) cs od) = gdat_lnks od"
  "frevdep_map_noinline (fold (\<lambda>cb. add_call md f cb) cs od) = frevdep_map_noinline od"
  by (induction cs arbitrary: od) simp_all

lemma set_fdep_fold_call [simp]:
  "set (dd2_get (fdep_map (fold (\<lambda>cb. add_call md f cb) cs od)) md' s') =
     set (dd2_get (fdep_map od) md' s') \<union> (if md' = md \<and> s' = f then set cs else {})"
  by (induction cs arbitrary: od) auto

text \<open>The callbacks of one global variable, added to its users.\<close>

lemma link_gdat_frame:
  "gdat_cbs (link_gdat od) = gdat_cbs od \<and> gdat_lnks (link_gdat od) = gdat_lnks od"
  unfolding link_gdat_def
  by (auto intro!: fold_keeps [where P = "\<lambda>o'. gdat_cbs o' = gdat_cbs od \<and> gdat_lnks o' = gdat_lnks od"]
      split: prod.splits)

lemma mark_inlined_frame:
  "gdat_cbs (mark_inlined od) = gdat_cbs od \<and> gdat_lnks (mark_inlined od) = gdat_lnks od \<and>
   fdep_map (mark_inlined od) = fdep_map od"
  unfolding mark_inlined_def Let_def
  by (auto intro!: fold_keeps [where P = "\<lambda>o'. gdat_cbs o' = gdat_cbs od \<and> gdat_lnks o' = gdat_lnks od \<and>
      fdep_map o' = fdep_map od"] split: prod.splits)

lemma restore_noinline_frame:
  "gdat_cbs (restore_noinline od) = gdat_cbs od \<and> gdat_lnks (restore_noinline od) = gdat_lnks od \<and>
   set (dd2_get (fdep_map od) md s) \<subseteq> set (dd2_get (fdep_map (restore_noinline od)) md s)"
  unfolding restore_noinline_def Let_def
  by (auto intro!: fold_keeps [where P = "\<lambda>o'. gdat_cbs o' = gdat_cbs od \<and> gdat_lnks o' = gdat_lnks od \<and>
      set (dd2_get (fdep_map od) md s) \<subseteq> set (dd2_get (fdep_map o') md s)"] split: prod.splits)

lemma link_gdat_calls:
  assumes "gv \<in> set (dd2_get (gdat_lnks od) md func)" and "cb \<in> set (dd_get (gdat_cbs od) gv)"
  shows "cb \<in> set (dd2_get (fdep_map (link_gdat od)) md func)"
proof -
  let ?I = "\<lambda>o'. gdat_cbs o' = gdat_cbs od" and ?Q = "\<lambda>o'. cb \<in> set (dd2_get (fdep_map o') md func)"
  from assms(1) obtain lnks where l1: "map_of (gdat_lnks od) md = Some lnks"
    by (cases "map_of (gdat_lnks od) md") (simp_all add: dd2_get_def dd_get_def)
  with assms(1) obtain gvs where l2: "map_of lnks func = Some gvs"
    by (cases "map_of lnks func") (simp_all add: dd2_get_def dd_get_def)
  from l1 l2 assms(1) have l: "(md, lnks) \<in> set (gdat_lnks od)" "(func, gvs) \<in> set lnks" "gv \<in> set gvs"
    by (simp_all add: dd2_get_def dd_get_def map_of_SomeD)
  have key: "has_key (gdat_cbs od) gv"
    using assms(2) by (cases "map_of (gdat_cbs od) gv") (simp_all add: has_key_def dd_get_def)
  have gvs: "?Q (fold (\<lambda>gv od. if \<not> has_key (gdat_cbs od) gv then od
       else fold (\<lambda>cb. add_call md func cb) (dd_get (gdat_cbs od) gv) od) gvs u)" if "?I u" for u
    using l(3) that
    by (rule fold_elem [where I = ?I]) (auto simp: key assms(2) intro!: fold_keeps [where P = ?I] fold_keeps [where P = ?Q])
  have lnks: "?Q (fold (\<lambda>(func, gvs). fold (\<lambda>gv od. if \<not> has_key (gdat_cbs od) gv then od
       else fold (\<lambda>cb. add_call md func cb) (dd_get (gdat_cbs od) gv) od) gvs) lnks u)" if "?I u" for u
    using l(2) that
    by (rule fold_elem [where I = ?I])
      (auto simp: gvs intro!: fold_keeps [where P = ?I] fold_keeps [where P = ?Q])
  show ?thesis
    unfolding link_gdat_def
    by (rule fold_elem [where I = ?I, OF l(1)])
      (auto simp: lnks intro!: fold_keeps [where P = ?I] fold_keeps [where P = ?Q])
qed

subsection \<open>The names in the tables\<close>

text \<open>
  Objects are named with \<open>.o\<close> and modules with \<open>.ko\<close>: the tables the function level analysis reads are
  keyed by objects, and only the values of \<open>drv_map\<close> are modules.
\<close>

definition od_named :: "objdeps \<Rightarrow> bool" where
  "od_named od \<longleftrightarrow> distinct (map fst (drv_map od)) \<and>
     (\<forall>md name. md \<in> set (dd_get (mod_map od) name) \<longrightarrow> endswith md ''.o'') \<and>
     (\<forall>md f s. s \<in> set (dd2_get (fpref_revmap od) md f) \<longrightarrow> endswith md ''.o'') \<and>
     (\<forall>md \<in> set (non_bc_mods od). endswith md ''.o'') \<and>
     (\<forall>obj. has_key (drv_map od) obj \<longrightarrow> endswith obj ''.o'' \<and> set (dd_get (drv_map od) obj) \<noteq> {} \<and>
       (\<forall>ko \<in> set (dd_get (drv_map od) obj). endswith ko ''.ko''))"

lemma normalized_o [simp]: "endswith (normalize_object_name fname ext ''.o'' p) ''.o''"
  by (simp add: normalize_object_name_def Let_def endswith_rev)

lemma normalized_ko [simp]: "endswith (normalize_object_name fname ext ''.ko'' p) ''.ko''"
  by (simp add: normalize_object_name_def Let_def endswith_rev)

lemma named_irrelevant [simp]:
  "od_named (od\<lparr>frevdep_map_noinline := x1\<rparr>) \<longleftrightarrow> od_named od"
  "od_named (od\<lparr>gdat_lnks := x2\<rparr>) \<longleftrightarrow> od_named od"
  "od_named (od\<lparr>gdat_cbs := x3\<rparr>) \<longleftrightarrow> od_named od"
  "od_named (od\<lparr>inlined := x3\<rparr>) \<longleftrightarrow> od_named od"
  "od_named (od\<lparr>fdep_map := x4\<rparr>) \<longleftrightarrow> od_named od"
  "od_named (add_call md s c od) \<longleftrightarrow> od_named od"
  by (simp_all add: od_named_def add_call_def)

lemma add_symbol_named: "od_named od \<Longrightarrow> endswith md ''.o'' \<Longrightarrow> od_named (add_symbol md e od)"
  by (cases e) (auto simp: od_named_def add_symbol_def set_dd_add split: if_splits)

lemma load_pairs_named:
  "load_imptab md d od = Inr od' \<Longrightarrow> od_named od \<Longrightarrow> od_named od'"
  "load_impnoin md d od = Inr od' \<Longrightarrow> od_named od \<Longrightarrow> od_named od'"
  "load_symlnk md d od = Inr od' \<Longrightarrow> od_named od \<Longrightarrow> od_named od'"
  "load_symcbs d od = Inr od' \<Longrightarrow> od_named od \<Longrightarrow> od_named od'"
  unfolding load_imptab_def load_impnoin_def load_symlnk_def load_symcbs_def bindE_Inr_iff Let_def
  by (auto intro!: fold_keeps [where P = od_named] split: prod.splits)

lemma add_ref_named:
  "od_named od \<Longrightarrow> endswith md ''.o'' \<Longrightarrow>
    od_named (od\<lparr>fpref_map := t, fpref_revmap := dd2_add md f s (fpref_revmap od)\<rparr>)"
  by (auto simp: od_named_def set_dd2_add split: if_splits) blast+

lemma empty_named: "od_named (empty_objdeps bt)"
  by (simp add: od_named_def empty_objdeps_def)

lemma load_fptref_named: "load_fptref md d od = Inr od' \<Longrightarrow> od_named od \<Longrightarrow> endswith md ''.o'' \<Longrightarrow> od_named od'"
  unfolding load_fptref_def bindE_Inr_iff
  by (auto intro!: fold_keeps [where P = od_named] intro: add_ref_named split: prod.splits)

lemma load_symtab_named: "load_symtab md d od = Inr od' \<Longrightarrow> od_named od \<Longrightarrow> endswith md ''.o'' \<Longrightarrow> od_named od'"
  unfolding load_symtab_def bindE_Inr_iff
  by (auto intro!: fold_keeps [where P = od_named] add_symbol_named)

lemma add_drv_named:
  assumes "od_named u" and "endswith obj ''.o''" and "endswith ko ''.ko''"
  shows "od_named (u\<lparr>drv_map := dd_add obj ko (drv_map u)\<rparr>)"
proof -
  have old: "endswith x ''.ko''" if "x \<in> set (dd_get (drv_map u) obj)" for x
  proof -
    from that have "has_key (drv_map u) obj" unfolding has_key_iff by (rule dd.key_if_member)
    with that assms(1) show ?thesis unfolding od_named_def by blast
  qed
  have "endswith o' ''.o'' \<and> set (dd_get (dd_add obj ko (drv_map u)) o') \<noteq> {} \<and>
      (\<forall>x \<in> set (dd_get (dd_add obj ko (drv_map u)) o'). endswith x ''.ko'')"
    if "has_key (dd_add obj ko (drv_map u)) o'" for o'
  proof (cases "o' = obj")
    case True
    with assms(2,3) old show ?thesis unfolding set_dd_add by simp
  next
    case False
    with that assms(1) show ?thesis unfolding set_dd_add od_named_def by simp
  qed
  moreover have "distinct (map fst (dd_add obj ko (drv_map u)))"
    using assms(1) by (simp add: dd_add_def distinct_update od_named_def)
  ultimately show ?thesis using assms(1) by (simp add: od_named_def)
qed

lemma load_mod_named:
  assumes "load_mod fs src build ko d od = Inr od'" and "od_named od" and "endswith ko ''.ko''"
  shows "od_named od'"
  using assms(1) [unfolded load_mod_def] assms(2)
proof (rule foldE_invariant)
  fix obj u v assume u: "od_named u" and "mod_objfile fs src build ko obj u = Inr v"
  then consider "v = u" | "v = u\<lparr>drv_map := dd_add (normalize_object_name obj ''.o'' ''.o'' build) ko (drv_map u)\<rparr>"
    by (auto simp: mod_objfile_def bindE_Inr_iff Let_def split: if_splits)
  then show "od_named v"
    using u assms(3) by cases (simp_all add: add_drv_named)
qed

lemma load_entry_named: "load_entry fs src build e od = Inr od' \<Longrightarrow> od_named od \<Longrightarrow> od_named od'"
  unfolding load_entry_def Let_def
  by (auto simp: bindE_Inr_iff split: prod.splits if_splits
      intro: load_pairs_named load_fptref_named load_symtab_named load_mod_named)
    (auto simp: od_named_def)

lemma mk_objdeps_named:
  assumes "mk_objdeps fs src build bt = Inr od"
  shows "od_named od"
  using assms
proof (rule mk_objdeps_loaded)
  fix od0
  assume "foldE (load_entry fs src build) (walk_files (fs_walk fs build)) (empty_objdeps bt) = Inr od0"
  then have "od_named od0"
    by (rule foldE_invariant) (auto intro: empty_named load_entry_named)
  then have "od_named (link_gdat od0)"
    unfolding link_gdat_def by (auto intro!: fold_keeps [where P = od_named] split: prod.splits)
  then have "od_named (mark_inlined (link_gdat od0))"
    unfolding mark_inlined_def Let_def by (auto intro!: fold_keeps [where P = od_named] split: prod.splits)
  then have "od_named (restore_noinline (mark_inlined (link_gdat od0)))"
    unfolding restore_noinline_def Let_def by (auto intro!: fold_keeps [where P = od_named] split: prod.splits)
  moreover assume "od = restore_noinline (mark_inlined (link_gdat od0))"
  ultimately show ?thesis by simp
qed

subsection \<open>A small build\<close>

definition demo_fs :: fsys where
  "demo_fs = \<lparr>fs_walk = \<lambda>_. [(''/b'', [''a.o.symtab'', ''a.o.imptab'', ''a.o.symlnk'', ''a.o.symcbs''])],
     fs_exists = \<lambda>_. True,
     fs_text = \<lambda>p. Some (if p = ''/b/a.o.symtab'' then ''T f'' else if p = ''/b/a.o.imptab'' then ''f : g''
       else if p = ''/b/a.o.symlnk'' then ''f : ops'' else ''ops : h'')\<rparr>"

definition demo_od :: objdeps where
  "demo_od = (empty_objdeps [])\<lparr>
     export_table := [(''/b/a.o'', [''f''])], global_export_table := [(''/b/a.o'', [''f''])],
     fdep_map := [(''/b/a.o'', [(''f'', [''h'', ''g''])])],
     frevdep_map := [(''g'', [(''f'', ''/b/a.o'')]), (''h'', [(''f'', ''/b/a.o'')])],
     mod_map := [(''f'', [''/b/a.o''])], gdat_cbs := [(''ops'', [''h''])],
     gdat_lnks := [(''/b/a.o'', [(''f'', [''ops''])])]\<rparr>"

lemma demo_objdeps: "mk_objdeps demo_fs ''/s'' ''/b'' [] = Inr demo_od"
  by code_simp

subsection \<open>Properties\<close>

text \<open>
  C22: an \<open>ObjDeps\<close> built from any kernel build has tables that agree: a call is in the callees of
  its caller exactly when the caller is among the callers of its callee, an object is listed for a
  symbol exactly when it exports it, function pointer references are the same in both directions,
  and global exports are exports.
\<close>

theorem objdeps_linked:
  assumes "mk_objdeps fs linux_src linux_build bt = Inr od"
  shows "od_linked od"
  using assms by (rule objdeps_links)

theorem objdeps_linked_witness: "od_linked demo_od"
  using demo_objdeps by (rule objdeps_linked)

text \<open>
  C23: no indirect call is lost: when a function of an object refers to global data, every callback
  any object stores in that data is among the callees of the function once the object is built.
\<close>

theorem indirect_calls_linked:
  assumes "mk_objdeps fs linux_src linux_build bt = Inr od"
    and "gv \<in> set (dd2_get (gdat_lnks od) md func)" and "cb \<in> set (dd_get (gdat_cbs od) gv)"
  shows "cb \<in> set (dd2_get (fdep_map od) md func)"
  using assms(1)
proof (rule mk_objdeps_loaded)
  fix od0
  let ?l = "link_gdat od0"
  assume od: "od = restore_noinline (mark_inlined ?l)"
  have "gdat_lnks od = gdat_lnks od0" "gdat_cbs od = gdat_cbs od0"
    unfolding od by (simp_all add: restore_noinline_frame mark_inlined_frame link_gdat_frame)
  with assms(2,3) have "cb \<in> set (dd2_get (fdep_map ?l) md func)"
    by (simp add: link_gdat_calls)
  then show ?thesis
    using restore_noinline_frame [of "mark_inlined ?l" md func] by (auto simp: od mark_inlined_frame)
qed

theorem indirect_calls_linked_witness: "''h'' \<in> set (dd2_get (fdep_map demo_od) ''/b/a.o'' ''f'')"
  by (rule indirect_calls_linked [OF demo_objdeps, where gv = "''ops''"]) code_simp+

text \<open>
  The search for the Makefile of an object returns, whatever files exist, when it starts from an
  absolute path with one leading slash; it ends at an existing file or at \<open>/Kbuild\<close>.
\<close>

theorem find_makefile_returns:
  assumes "startswith mk ''/''" and "\<not> startswith mk ''//''"
  shows "\<exists>r. find_makefile ex mk = Some r \<and> (ex r \<or> r = ''/Kbuild'')"
  using assms abs_dir_dirname find_makefile_dir by blast

theorem find_makefile_returns_witness:
  "\<exists>r. find_makefile (\<lambda>p. p = ''/k/Makefile'') ''/k/drivers/net/Makefile'' = Some r \<and>
    (r = ''/k/Makefile'' \<or> r = ''/Kbuild'')"
  by (rule find_makefile_returns) simp_all

text \<open>
  \<open>load_busreg_apis\<close> never returns a registration function: whatever the list files hold, the set
  it returns is empty.
\<close>

theorem busreg_apis_empty:
  assumes "load_busreg_apis fs busreg_list = Inr apis"
  shows "apis = []"
  using assms unfolding load_busreg_apis_def
  by (rule foldE_invariant)
    (auto simp: bindE_Inr_iff busreg_line_def Let_def split: if_splits list.splits
      elim!: foldE_invariant [where P = "\<lambda>s. s = []"])

theorem busreg_apis_empty_witness:
  "load_busreg_apis \<lparr>fs_walk = \<lambda>_. [], fs_exists = \<lambda>_. True,
     fs_text = \<lambda>_. Some ''drivers/base/bus.c bus_register''\<rparr> [''bus-regfuns.db''] = Inr []"
proof -
  have "\<exists>apis. load_busreg_apis \<lparr>fs_walk = \<lambda>_. [], fs_exists = \<lambda>_. True,
     fs_text = \<lambda>_. Some ''drivers/base/bus.c bus_register''\<rparr> [''bus-regfuns.db''] = Inr apis"
    by (simp add: load_busreg_apis_def read_text_def busreg_line_def strip_def lstrip_def rstrip_def
        is_space_def lines_of_def split_ws_def)
  with busreg_apis_empty show ?thesis by blast
qed

end
