(* ===== verification/ObjQueries.thy ===== *)
theory ObjQueries
  imports ObjDeps
begin

section \<open>The queries of ObjDeps: gen_objdep.py\<close>

text \<open>
  The methods of \<open>ObjDeps\<close> the function level analysis calls. \<open>related\<close> collects, for an object and
  one of its symbols, the callers of every symbol exported by the objects linked with it; objects of
  a loadable module are replaced by the module (\<open>drv_map\<close>). Reading a missing key of a
  \<open>defaultdict\<close> stores an empty set, and \<open>testmods.add(mod)\<close> adds to the stored set: the state
  \<open>related\<close> leaves behind is \<open>after_related\<close>, and the last theorem on it shows that no later query can tell.
\<close>

subsection \<open>The methods\<close>

type_synonym candid = "((str \<times> str) \<times> fsym list) list"

definition imports_of :: "objdeps \<Rightarrow> str \<Rightarrow> str \<Rightarrow> pyset option" where
  "imports_of od md name = (if \<not> has_key (import_table od) md then None else Some (dd_get (import_table od) md))"

definition testmods :: "objdeps \<Rightarrow> str \<Rightarrow> pyset" where
  "testmods od md =
     (if has_key (obj_build_revdeps od) md then List.insert md (dd_get (obj_build_revdeps od) md) else [md])"

text \<open>The module of a caller: any element of its set.\<close>

definition caller_mod :: "objdeps \<Rightarrow> str \<Rightarrow> str res" where
  "caller_mod od cmod =
     (if has_key (drv_map od) cmod
      then (case dd_get (drv_map od) cmod of [] \<Rightarrow> Inl IndexError | ko # _ \<Rightarrow> Inr ko) else Inr cmod)"

definition rel_callers :: "objdeps \<Rightarrow> str \<Rightarrow> fsym list res" where
  "rel_callers od relsym =
     mapE (\<lambda>(caller, cmod). bindE (caller_mod od cmod) (\<lambda>k. Inr (caller, k))) (dd_get (frevdep_map od) relsym)"

text \<open>The module of a related object: its set must be a singleton.\<close>

definition rel_mod :: "objdeps \<Rightarrow> str \<Rightarrow> str res" where
  "rel_mod od md =
     (if has_key (drv_map od) md
      then (case dd_get (drv_map od) md of [ko] \<Rightarrow> Inr ko | _ \<Rightarrow> Inl AssertionError) else Inr md)"

text \<open>
  One exported symbol. The loop assigns to \<open>mod\<close>, so the next symbol of the object is looked up
  under the module: the loop variable is part of the state.
\<close>

definition rel_sym :: "objdeps \<Rightarrow> str \<Rightarrow> str \<times> candid \<Rightarrow> (str \<times> candid) res" where
  "rel_sym od relsym st = (case st of (md, cand) \<Rightarrow>
     bindE (rel_mod od md) (\<lambda>md.
     bindE (rel_callers od relsym) (\<lambda>cs.
       Inr (md, fold (\<lambda>c. dd_add (relsym, md) c) cs cand))))"

definition rel_testmod :: "objdeps \<Rightarrow> str \<Rightarrow> candid \<Rightarrow> candid res" where
  "rel_testmod od md cand =
     (if \<not> has_key (export_table od) md then Inr cand
      else bindE (foldE (rel_sym od) (dd_get (export_table od) md) (md, cand)) (\<lambda>(_, c). Inr c))"

definition related :: "objdeps \<Rightarrow> str \<Rightarrow> str \<Rightarrow> candid option res" where
  "related od md name =
     (if md \<notin> set (dd_get (mod_map od) name) then Inr None
      else bindE (foldE (rel_testmod od) (testmods od md) []) (\<lambda>c. Inr (Some c)))"

definition after_related :: "objdeps \<Rightarrow> str \<Rightarrow> str \<Rightarrow> objdeps" where
  "after_related od md name =
     (let od = od\<lparr>mod_map := dd_touch (mod_map od) name\<rparr> in
      if md \<notin> set (dd_get (mod_map od) name) then od
      else od\<lparr>obj_build_revdeps :=
                (if has_key (obj_build_revdeps od) md
                 then AList.update md (testmods od md) (obj_build_revdeps od) else obj_build_revdeps od),
              frevdep_map :=
                fold (\<lambda>m t. if has_key (export_table od) m
                   then fold (\<lambda>s t. dd_touch t s) (dd_get (export_table od) m) t else t)
                  (testmods od md) (frevdep_map od)\<rparr>)"

definition has_referencer :: "objdeps \<Rightarrow> str \<Rightarrow> str \<Rightarrow> (str \<times> str) list \<Rightarrow> bool" where
  "has_referencer od md name patched_syms =
     (if \<not> has_key (fpref_revmap od) md \<or> \<not> has_key (dd_get (fpref_revmap od) md) name then False
      else let refers = dd2_get (fpref_revmap od) md name;
               patched_refers = map snd (filter (\<lambda>(m, s). m = md) patched_syms)
           in filter (\<lambda>r. r \<notin> set patched_refers) refers \<noteq> [])"

definition get_mods :: "objdeps \<Rightarrow> str \<Rightarrow> bool \<Rightarrow> pyset option" where
  "get_mods od name global_only =
     (if \<not> has_key (mod_map od) name then None
      else if \<not> global_only then Some (dd_get (mod_map od) name)
      else let gmods = filter (\<lambda>md. has_key (global_export_table od) md \<and>
                 name \<in> set (dd_get (global_export_table od) md)) (dd_get (mod_map od) name)
           in if gmods = [] then None else Some gmods)"

definition is_driver :: "objdeps \<Rightarrow> str \<Rightarrow> bool" where
  "is_driver od obj \<longleftrightarrow> has_key (drv_map od) obj"

definition is_ir_mod :: "objdeps \<Rightarrow> str \<Rightarrow> bool" where
  "is_ir_mod od md \<longleftrightarrow> md \<notin> set (non_bc_mods od)"

text \<open>The elements of an optional set, as the callers' \<open>if mods is None: continue\<close> reads it.\<close>

definition opt_set :: "'a list option \<Rightarrow> 'a set" where
  "opt_set x = (case x of None \<Rightarrow> {} | Some xs \<Rightarrow> set xs)"

lemma opt_set_simps [simp]: "opt_set None = {}" "opt_set (Some xs) = set xs"
  by (simp_all add: opt_set_def)

subsection \<open>What the queries return\<close>

lemma has_referencer_iff:
  "has_referencer od md name P \<longleftrightarrow> (\<exists>r \<in> set (dd2_get (fpref_revmap od) md name). (md, r) \<notin> set P)"
proof -
  have "\<not> has_key (fpref_revmap od) md \<Longrightarrow> dd2_get (fpref_revmap od) md name = []"
    by (simp add: dd2_get_def has_key_iff dd_get_outside)
  moreover have "\<not> has_key (dd_get (fpref_revmap od) md) name \<Longrightarrow> dd2_get (fpref_revmap od) md name = []"
    by (rule dd2_get_outside)
  ultimately show ?thesis
    by (force simp: has_referencer_def filter_empty_conv image_iff)
qed

lemma opt_set_imports: "opt_set (imports_of od md name) = set (dd_get (import_table od) md)"
  by (auto simp: imports_of_def has_key_iff dd_get_outside)

lemma set_get_mods: "opt_set (get_mods od name False) = set (dd_get (mod_map od) name)"
  by (auto simp: get_mods_def has_key_iff dd_get_outside)

lemma set_get_mods_global:
  "opt_set (get_mods od name True) =
     {md \<in> set (dd_get (mod_map od) name). name \<in> set (dd_get (global_export_table od) md)}"
proof -
  define gm where "gm = filter (\<lambda>md. has_key (global_export_table od) md \<and>
    name \<in> set (dd_get (global_export_table od) md)) (dd_get (mod_map od) name)"
  have key: "has_key (global_export_table od) md" if "name \<in> set (dd_get (global_export_table od) md)" for md
    using that unfolding has_key_iff by (rule dd.key_if_member)
  have "dd_get (mod_map od) name = []" if "\<not> has_key (mod_map od) name"
    using that by (simp add: has_key_iff dd_get_outside)
  then have "opt_set (get_mods od name True) = set gm"
    unfolding get_mods_def Let_def gm_def by (auto simp: filter_empty_conv)
  also have "\<dots> = {md \<in> set (dd_get (mod_map od) name). name \<in> set (dd_get (global_export_table od) md)}"
    by (auto simp: gm_def dest: key)
  finally show ?thesis .
qed

text \<open>The resolved callers of a symbol, as a relation.\<close>

definition calls_from :: "objdeps \<Rightarrow> str \<Rightarrow> fsym set" where
  "calls_from od relsym =
     {(caller, k). \<exists>cmod. (caller, cmod) \<in> set (dd_get (frevdep_map od) relsym) \<and> caller_mod od cmod = Inr k}"

lemma set_rel_callers:
  assumes "rel_callers od relsym = Inr cs"
  shows "set cs = calls_from od relsym"
  using mapE_set [OF assms [unfolded rel_callers_def]]
  by (force simp: calls_from_def bindE_Inr_iff)

lemma fold_dd_add_const:
  "set (dd_get (fold (\<lambda>c. dd_add k c) cs d) k') = set (dd_get d k') \<union> (if k' = k then set cs else {})"
  by (induction cs arbitrary: d) (auto simp: set_dd_add)

lemma rel_sym_pair:
  "rel_sym od s (md, cand) = bindE (rel_mod od md) (\<lambda>md. bindE (rel_callers od s)
     (\<lambda>cs. Inr (md, fold (\<lambda>c. dd_add (s, md) c) cs cand)))"
  by (simp add: rel_sym_def)

subsection \<open>related lists the callers\<close>

text \<open>
  No module stands for another one: the values of \<open>drv_map\<close> (paths of \<open>.ko\<close> files) are not
  among its keys (paths of \<open>.o\<close> files). Then the assignment to the loop variable is harmless.
\<close>

definition modules_final :: "objdeps \<Rightarrow> bool" where
  "modules_final od \<longleftrightarrow> list_all (\<lambda>(obj, kos). list_all (\<lambda>ko. \<not> has_key (drv_map od) ko) kos) (drv_map od)"

text \<open>What matters of it is the look-up.\<close>

definition modules_apart :: "objdeps \<Rightarrow> bool" where
  "modules_apart od \<longleftrightarrow> (\<forall>obj ko. ko \<in> set (dd_get (drv_map od) obj) \<longrightarrow> \<not> has_key (drv_map od) ko)"

lemma final_apart:
  assumes "modules_final od"
  shows "modules_apart od"
proof -
  have "\<not> has_key (drv_map od) ko" if "ko \<in> set (dd_get (drv_map od) obj)" for obj ko
  proof (cases "map_of (drv_map od) obj")
    case (Some kos)
    with that have "(obj, kos) \<in> set (drv_map od)" "ko \<in> set kos" by (auto simp: dd_get_def dest: map_of_SomeD)
    with assms show ?thesis unfolding modules_final_def list_all_iff by blast
  qed (use that in \<open>simp add: dd_get_def\<close>)
  then show ?thesis by (simp add: modules_apart_def)
qed

lemma rel_mod_final: "modules_apart od \<Longrightarrow> rel_mod od md = Inr rm \<Longrightarrow> rel_mod od rm = Inr rm"
  by (auto simp: rel_mod_def modules_apart_def split: if_splits list.splits dest: spec [of _ md])

lemma rel_syms_callers:
  assumes "foldE (rel_sym od) syms (md, cand) = Inr (md', cand')" and "rel_mod od md = Inr rm"
    and "rel_mod od rm = Inr rm"
  shows "set (dd_get cand' (rs, m)) =
    set (dd_get cand (rs, m)) \<union> (if m = rm \<and> rs \<in> set syms then calls_from od rs else {})"
  using assms
proof (induction syms arbitrary: md cand)
  case (Cons x syms)
  from Cons.prems(1,2) obtain cs where cs: "rel_callers od x = Inr cs"
    and rest: "foldE (rel_sym od) syms (rm, fold (\<lambda>c. dd_add (x, rm) c) cs cand) = Inr (md', cand')"
    by (auto simp: bindE_Inr_iff rel_sym_pair)
  show ?case
    using Cons.IH [OF rest Cons.prems(3) Cons.prems(3)] set_rel_callers [OF cs]
    by (auto simp: fold_dd_add_const)
qed simp

lemma rel_testmods_callers:
  assumes "foldE (rel_testmod od) ms cand = Inr cand'" and "modules_apart od"
  shows "set (dd_get cand' (rs, m)) = set (dd_get cand (rs, m)) \<union>
    {x. x \<in> calls_from od rs \<and>
      (\<exists>md \<in> set ms. rel_mod od md = Inr m \<and> rs \<in> set (dd_get (export_table od) md))}"
  using assms(1)
proof (induction ms arbitrary: cand)
  case (Cons md ms)
  from Cons.prems obtain c where c: "rel_testmod od md cand = Inr c"
    and rest: "foldE (rel_testmod od) ms c = Inr cand'"
    by (auto simp: bindE_Inr_iff)
  have "set (dd_get c (rs, m)) = set (dd_get cand (rs, m)) \<union>
      {x. x \<in> calls_from od rs \<and> rel_mod od md = Inr m \<and> rs \<in> set (dd_get (export_table od) md)}"
  proof (cases "dd_get (export_table od) md")
    case Nil
    with c show ?thesis by (auto simp: rel_testmod_def split: if_splits)
  next
    case (Cons s ss)
    then have "has_key (export_table od) md" by (auto simp: has_key_iff dd_get_outside intro: ccontr)
    with c obtain md' where run: "foldE (rel_sym od) (s # ss) (md, cand) = Inr (md', c)"
      by (auto simp: rel_testmod_def bindE_Inr_iff Cons)
    then obtain rm where rm: "rel_mod od md = Inr rm"
      by (auto simp: bindE_Inr_iff rel_sym_pair)
    show ?thesis
      using rel_syms_callers [OF run rm rel_mod_final [OF assms(2) rm], of rs m] rm
      by (auto simp: Cons)
  qed
  with Cons.IH [OF rest] show ?case by auto
qed simp

lemma set_testmods: "set (testmods od md) = insert md (set (dd_get (obj_build_revdeps od) md))"
  by (auto simp: testmods_def has_key_iff dd_get_outside)

text \<open>No entry of the result is empty.\<close>

definition no_empty :: "candid \<Rightarrow> bool" where
  "no_empty cand \<longleftrightarrow> [] \<notin> snd ` set cand"

lemma no_empty_fold: "no_empty cand \<Longrightarrow> no_empty (fold (\<lambda>c. dd_add k c) cs cand)"
  by (rule fold_keeps) (auto simp: no_empty_def dd_add_def List.insert_def dest!: in_update split: if_splits)

lemma rel_testmod_no_empty:
  assumes "rel_testmod od md u = Inr v" and "no_empty u"
  shows "no_empty v"
proof (cases "has_key (export_table od) md")
  case True
  with assms(1) obtain md' where "foldE (rel_sym od) (dd_get (export_table od) md) (md, u) = Inr (md', v)"
    by (auto simp: rel_testmod_def bindE_Inr_iff)
  then have "no_empty (snd (md', v))"
    by (rule foldE_invariant [where P = "\<lambda>st. no_empty (snd st)"])
      (auto simp: rel_sym_def bindE_Inr_iff assms(2) no_empty_fold split: prod.splits)
  then show ?thesis by simp
qed (use assms in \<open>simp add: rel_testmod_def\<close>)

lemma related_no_empty:
  assumes "related od md name = Inr (Some cand)"
  shows "no_empty cand"
proof -
  from assms have "foldE (rel_testmod od) (testmods od md) [] = Inr cand"
    by (auto simp: related_def bindE_Inr_iff split: if_splits)
  then show ?thesis
    by (rule foldE_invariant) (auto simp: no_empty_def [of "[]"] intro: rel_testmod_no_empty)
qed

lemma related_callers:
  assumes "related od md name = Inr (Some cand)" and "modules_apart od"
  shows "set (dd_get cand (rs, m)) = {x. x \<in> calls_from od rs \<and>
    (\<exists>md' \<in> insert md (set (dd_get (obj_build_revdeps od) md)).
       rel_mod od md' = Inr m \<and> rs \<in> set (dd_get (export_table od) md'))}"
proof -
  from assms(1) have "foldE (rel_testmod od) (testmods od md) [] = Inr cand"
    by (auto simp: related_def bindE_Inr_iff split: if_splits)
  from rel_testmods_callers [OF this assms(2)] show ?thesis by (simp add: set_testmods)
qed

text \<open>The keys of the result start with an exported symbol.\<close>

definition exported_keys :: "objdeps \<Rightarrow> candid \<Rightarrow> bool" where
  "exported_keys od cand \<longleftrightarrow> (\<forall>k \<in> fst ` set cand. \<exists>md. fst k \<in> set (dd_get (export_table od) md))"

lemma dom_fold_dd_add: "fst ` set (fold (\<lambda>c. dd_add k c) cs d) \<subseteq> insert k (fst ` set d)"
  by (rule fold_keeps [where P = "\<lambda>d'. fst ` set d' \<subseteq> insert k (fst ` set d)"]) (auto simp: dom_dd_add)

lemma rel_testmod_keys:
  assumes "rel_testmod od md u = Inr v" and "exported_keys od u"
  shows "exported_keys od v"
proof (cases "has_key (export_table od) md")
  case True
  with assms(1) obtain md' where "foldE (rel_sym od) (dd_get (export_table od) md) (md, u) = Inr (md', v)"
    by (auto simp: rel_testmod_def bindE_Inr_iff)
  then have "exported_keys od (snd (md', v))"
  proof (rule foldE_invariant [where P = "\<lambda>st. exported_keys od (snd st)"])
    fix s st st'
    assume s: "s \<in> set (dd_get (export_table od) md)" and st: "exported_keys od (snd st)" and "rel_sym od s st = Inr st'"
    then obtain rm cs where "snd st' = fold (\<lambda>c. dd_add (s, rm) c) cs (snd st)"
      by (cases st) (auto simp: rel_sym_pair bindE_Inr_iff)
    with s st dom_fold_dd_add [of "(s, rm)" cs "snd st"] show "exported_keys od (snd st')"
      unfolding exported_keys_def by fastforce
  qed (use assms in simp)
  then show ?thesis by simp
qed (use assms in \<open>simp add: rel_testmod_def\<close>)

lemma related_keys:
  assumes "related od md name = Inr (Some cand)"
  shows "exported_keys od cand"
proof -
  from assms have "foldE (rel_testmod od) (testmods od md) [] = Inr cand"
    by (auto simp: related_def bindE_Inr_iff split: if_splits)
  then show ?thesis
    by (rule foldE_invariant) (auto simp: exported_keys_def [of _ "[]"] intro: rel_testmod_keys)
qed

subsection \<open>related fails only on a shared object\<close>

text \<open>
  The constructor puts at least one module under every key of \<open>drv_map\<close>; then only the assertion
  can fail.
\<close>

lemma foldE_error:
  assumes "foldE f xs s = Inl e"
  shows "\<exists>x u. x \<in> set xs \<and> f x u = Inl e"
  using assms by (induction xs arbitrary: s) (fastforce simp: bindE_Inl_iff)+

lemma mapE_error: "mapE f xs = Inl e \<Longrightarrow> \<exists>x \<in> set xs. f x = Inl e"
  by (induction xs) (auto simp: bindE_Inl_iff)

definition drv_nonempty :: "objdeps \<Rightarrow> bool" where
  "drv_nonempty od \<longleftrightarrow> list_all (\<lambda>(obj, kos). kos \<noteq> []) (drv_map od)"

lemma drv_nonempty_get: "drv_nonempty od \<Longrightarrow> has_key (drv_map od) obj \<Longrightarrow> dd_get (drv_map od) obj \<noteq> []"
  by (cases "map_of (drv_map od) obj")
     (auto simp: drv_nonempty_def has_key_def dd_get_def list_all_iff dest!: map_of_SomeD)

lemma related_error:
  assumes "related od md name = Inl e" and "drv_nonempty od"
  shows "e = AssertionError"
proof -
  have callers: "rel_callers od rs \<noteq> Inl e" for rs
  proof
    assume "rel_callers od rs = Inl e"
    from mapE_error [OF this [unfolded rel_callers_def]]
    have "\<exists>c. caller_mod od c = Inl e" by (auto simp: bindE_Inl_iff)
    then obtain c where "caller_mod od c = Inl e" by blast
    then have "has_key (drv_map od) c" "dd_get (drv_map od) c = []"
      by (auto simp: caller_mod_def bindE_Inl_iff split: if_splits list.splits)
    with assms(2) show False by (simp add: drv_nonempty_get)
  qed
  from assms(1) have "foldE (rel_testmod od) (testmods od md) [] = Inl e"
    by (auto simp: related_def bindE_Inl_iff split: if_splits)
  then obtain m u where "rel_testmod od m u = Inl e" by (auto dest: foldE_error)
  then have "foldE (rel_sym od) (dd_get (export_table od) m) (m, u) = Inl e"
    by (auto simp: rel_testmod_def bindE_Inl_iff split: if_splits prod.splits)
  then obtain s m' u' where "rel_sym od s (m', u') = Inl e" by (auto dest!: foldE_error)
  with callers have "rel_mod od m' = Inl e" by (auto simp: rel_sym_pair bindE_Inl_iff)
  then show ?thesis by (auto simp: rel_mod_def split: if_splits list.splits)
qed

subsection \<open>The queries of a built ObjDeps\<close>

lemma named_entry:
  assumes "od_named od" and "(obj, kos) \<in> set (drv_map od)"
  shows "endswith obj ''.o'' \<and> kos \<noteq> [] \<and> (\<forall>ko \<in> set kos. endswith ko ''.ko'')"
proof -
  from assms have "has_key (drv_map od) obj" "kos = dd_get (drv_map od) obj"
    using dict_entry [of "drv_map od" obj kos] by (simp_all add: od_named_def has_key_iff)
  with assms(1) show ?thesis by (simp add: od_named_def)
qed

lemma ko_not_object: "endswith ko ''.ko'' \<Longrightarrow> \<not> endswith ko ''.o''"
  by (auto simp: endswith_suffix suffix_def append_eq_append_conv2 append_eq_Cons_conv)

lemma named_final:
  assumes "od_named od"
  shows "modules_final od"
proof -
  have "\<not> has_key (drv_map od) ko" if "(obj, kos) \<in> set (drv_map od)" and "ko \<in> set kos" for obj kos ko
    using named_entry [OF assms that(1)] that(2) ko_not_object [of ko] assms by (auto simp: od_named_def)
  then show ?thesis unfolding modules_final_def list_all_iff by blast
qed

lemma named_nonempty: "od_named od \<Longrightarrow> drv_nonempty od"
  unfolding drv_nonempty_def list_all_iff using named_entry by fast

lemma distinct_fold_dd_add: "distinct (map fst d) \<Longrightarrow> distinct (map fst (fold (\<lambda>c. dd_add k c) cs d))"
  by (rule fold_keeps [where P = "\<lambda>d. distinct (map fst d)"]) (auto simp: dd_add_def distinct_update)

lemma related_distinct:
  assumes "related od md name = Inr (Some cand)"
  shows "distinct (map fst cand)"
proof -
  have testmod: "distinct (map fst v)" if "rel_testmod od m u = Inr v" and "distinct (map fst u)" for m u v
  proof (cases "has_key (export_table od) m")
    case True
    with that(1) obtain m' where "foldE (rel_sym od) (dd_get (export_table od) m) (m, u) = Inr (m', v)"
      by (auto simp: rel_testmod_def bindE_Inr_iff)
    then have "distinct (map fst (snd (m', v)))"
      by (rule foldE_invariant [where P = "\<lambda>st. distinct (map fst (snd st))"])
        (auto simp: rel_sym_def bindE_Inr_iff that(2) distinct_fold_dd_add split: prod.splits)
    then show ?thesis by simp
  qed (use that in \<open>simp add: rel_testmod_def\<close>)
  from assms have "foldE (rel_testmod od) (testmods od md) [] = Inr cand"
    by (auto simp: related_def bindE_Inr_iff split: if_splits)
  then show ?thesis by (rule foldE_invariant [where P = "\<lambda>d. distinct (map fst d)"]) (auto intro: testmod)
qed

text \<open>An entry of the result holds all callers of its symbol.\<close>

lemma related_entry:
  assumes "related od md name = Inr (Some cand)"
  shows "(k, cs) \<in> set cand \<longleftrightarrow> cs = dd_get cand k \<and> cs \<noteq> []"
proof -
  have "cs \<noteq> []" if "(k, cs) \<in> set cand" for cs
    using related_no_empty [OF assms] that by (force simp: no_empty_def)
  then show ?thesis
    using dict_entry [OF related_distinct [OF assms], of k cs] dd_get_outside [of k cand] by auto
qed

lemma related_entry_callers:
  assumes "related od md name = Inr (Some cand)" and "modules_apart od" and "((rs, m), cs) \<in> set cand"
  shows "set cs = calls_from od rs"
proof -
  from assms(3) have "cs = dd_get cand (rs, m)" "cs \<noteq> []" unfolding related_entry [OF assms(1)] by blast+
  moreover define Q where "Q \<longleftrightarrow> (\<exists>md' \<in> insert md (set (dd_get (obj_build_revdeps od) md)).
      rel_mod od md' = Inr m \<and> rs \<in> set (dd_get (export_table od) md'))"
  ultimately have "set cs = {x. x \<in> calls_from od rs \<and> Q}"
    using related_callers [OF assms(1,2), of rs m, folded Q_def] by simp
  with \<open>cs \<noteq> []\<close> show ?thesis by (cases Q) auto
qed

lemma caller_mod_total: "drv_nonempty od \<Longrightarrow> \<exists>k. caller_mod od cmod = Inr k"
  using drv_nonempty_get [of od cmod] by (auto simp: caller_mod_def split: list.splits)

lemma calls_from_empty:
  assumes "calls_from od rs = {}" and "drv_nonempty od"
  shows "dd_get (frevdep_map od) rs = []"
proof (rule ccontr)
  assume "dd_get (frevdep_map od) rs \<noteq> []"
  then obtain caller cmod where "(caller, cmod) \<in> set (dd_get (frevdep_map od) rs)"
    by (cases "dd_get (frevdep_map od) rs") auto
  with assms caller_mod_total [of od cmod] show False by (auto simp: calls_from_def)
qed

text \<open>No entries: nothing calls a symbol of the object.\<close>

lemma related_empty:
  assumes "related od md name = Inr (Some [])" and "od_named od" and "f \<in> set (dd_get (export_table od) md)"
  shows "dd_get (frevdep_map od) f = []"
proof -
  have run: "foldE (rel_testmod od) (testmods od md) [] = Inr []"
    using assms(1) by (auto simp: related_def bindE_Inr_iff split: if_splits)
  have mod: "\<exists>m. rel_mod od md = Inr m" if "foldE (rel_testmod od) ms u = Inr v" and "md \<in> set ms" for ms u v
    using that
  proof (induction ms arbitrary: u)
    case (Cons x ms)
    from Cons.prems(1) obtain w where w: "rel_testmod od x u = Inr w" "foldE (rel_testmod od) ms w = Inr v"
      by (auto simp: bindE_Inr_iff)
    show ?case
    proof (cases "x = md")
      case True
      obtain s ss where "dd_get (export_table od) md = s # ss" using assms(3) by (cases "dd_get (export_table od) md") auto
      moreover have "has_key (export_table od) md" using assms(3) by (auto simp: has_key_iff dd_get_outside intro: ccontr)
      ultimately show ?thesis using w(1) True by (auto simp: rel_testmod_def bindE_Inr_iff rel_sym_pair)
    next
      case False
      with Cons w show ?thesis by simp
    qed
  qed simp
  have "md \<in> set (testmods od md)" by (simp add: set_testmods)
  with mod [OF run] obtain m where "rel_mod od md = Inr m" by blast
  with related_callers [OF assms(1) final_apart [OF named_final [OF assms(2)]], of f m] assms(3) have "calls_from od f = {}" by auto
  then show ?thesis using named_nonempty [OF assms(2)] by (rule calls_from_empty)
qed

subsection \<open>Queries leave no trace\<close>

lemma dd_get_fold_touch [simp]: "dd_get (fold (\<lambda>s t. dd_touch t s) ss t) k = dd_get t k"
  by (induction ss arbitrary: t) simp_all

lemma after_frame [simp]:
  "import_table (after_related od a b) = import_table od" "export_table (after_related od a b) = export_table od"
  "global_export_table (after_related od a b) = global_export_table od"
  "drv_map (after_related od a b) = drv_map od" "fpref_revmap (after_related od a b) = fpref_revmap od"
  "non_bc_mods (after_related od a b) = non_bc_mods od"
  "dd_get (mod_map (after_related od a b)) name = dd_get (mod_map od) name"
  by (simp_all add: after_related_def Let_def)

lemma after_frevdep [simp]: "dd_get (frevdep_map (after_related od a b)) s = dd_get (frevdep_map od) s"
proof -
  have "dd_get (fold (\<lambda>m t. if has_key ex m then fold (\<lambda>s t. dd_touch t s) (f m) t else t) ms t) s =
      dd_get t s" for ex :: "pyset dict" and f ms and t :: "fsym list dict"
    by (induction ms arbitrary: t) simp_all
  then show ?thesis by (simp add: after_related_def Let_def)
qed

lemma after_testmods [simp]: "testmods (after_related od a b) md = testmods od md"
  by (auto simp: testmods_def after_related_def Let_def has_key_iff dom_update List.insert_def)

lemma after_rel [simp]: "rel_testmod (after_related od a b) = rel_testmod od"
proof -
  have mods: "rel_mod (after_related od a b) = rel_mod od" "caller_mod (after_related od a b) = caller_mod od"
    by (simp_all add: rel_mod_def caller_mod_def fun_eq_iff)
  then have "rel_callers (after_related od a b) = rel_callers od"
    by (intro ext) (simp add: rel_callers_def)
  with mods have "rel_sym (after_related od a b) = rel_sym od"
    by (intro ext) (simp add: rel_sym_def)
  then show ?thesis by (intro ext) (simp add: rel_testmod_def)
qed

subsection \<open>Properties\<close>

text \<open>
  C21: the state that a call of \<open>related\<close> leaves behind answers every later query as before: \<open>related\<close>,
  \<open>imports\<close>, \<open>has_referencer\<close>, \<open>is_driver\<close> and \<open>is_ir_mod\<close> return the same value, and \<open>get_mods\<close> the
  same set of objects. The analysis may therefore read the tables in any order.
\<close>

theorem related_leaves_no_trace:
  "related (after_related od a b) md name = related od md name \<and>
   imports_of (after_related od a b) md name = imports_of od md name \<and>
   has_referencer (after_related od a b) md name P = has_referencer od md name P \<and>
   is_driver (after_related od a b) md = is_driver od md \<and>
   is_ir_mod (after_related od a b) md = is_ir_mod od md \<and>
   opt_set (get_mods (after_related od a b) name g) = opt_set (get_mods od name g)"
  by (cases g) (simp_all add: related_def imports_of_def has_referencer_def is_driver_def is_ir_mod_def
      set_get_mods set_get_mods_global)

text \<open>
  C20: \<open>related\<close> lists, for every symbol an object linked with the queried one exports, exactly the
  functions that call it, each with the loadable module of its object, under the module of the
  exporting object; and no list is empty. A symbol without callers has no entry at all.
\<close>

theorem related_lists_callers:
  assumes "related od md name = Inr (Some cand)" and "modules_final od"
  shows "set (dd_get cand (rs, m)) = {x. x \<in> calls_from od rs \<and>
      (\<exists>md' \<in> insert md (set (dd_get (obj_build_revdeps od) md)).
         rel_mod od md' = Inr m \<and> rs \<in> set (dd_get (export_table od) md'))} \<and>
    no_empty cand"
  using related_callers [OF assms(1) final_apart [OF assms(2)]] related_no_empty [OF assms(1)] by simp

text \<open>
  A build with a driver object \<open>d.o\<close> of module \<open>m.ko\<close>, linked into \<open>l.o\<close>, that calls \<open>lib_f\<close>.
\<close>

definition demo_link :: objdeps where
  "demo_link = (empty_objdeps [(''l.o'', [''all.o''])])\<lparr>
     export_table := [(''l.o'', [''lib_f'', ''lib_g'']), (''d.o'', [''d_init''])],
     mod_map := [(''lib_f'', [''l.o'']), (''lib_g'', [''l.o'']), (''d_init'', [''d.o''])],
     fdep_map := [(''d.o'', [(''d_init'', [''lib_f''])])],
     frevdep_map := [(''lib_f'', [(''d_init'', ''d.o'')])],
     drv_map := [(''d.o'', [''m.ko''])]\<rparr>"

theorem related_lists_callers_witness:
  "set (dd_get [((''lib_f'', ''l.o''), [(''d_init'', ''m.ko'')])] (''lib_f'', ''l.o'')) =
     {x. x \<in> calls_from demo_link ''lib_f'' \<and>
      (\<exists>md' \<in> insert ''l.o'' (set (dd_get (obj_build_revdeps demo_link) ''l.o'')).
         rel_mod demo_link md' = Inr ''l.o'' \<and> ''lib_f'' \<in> set (dd_get (export_table demo_link) md'))} \<and>
    no_empty [((''lib_f'', ''l.o''), [(''d_init'', ''m.ko'')])]"
  by (rule related_lists_callers [where name = "''lib_g''"]) code_simp+

end
