(* ===== verification/HornPasses.thy ===== *)
theory HornPasses
  imports PyPrelude
begin

section \<open>Repeated passes of Horn clauses\<close>

text \<open>
  A loop that repeats a pass over a work list until a set stops growing, where each item of the list
  adds elements whose conditions are already in the set. \<open>fire\<close> is one such addition, a clause being
  the element and the set of its conditions; \<open>horn_model\<close> is the least set closed under a family of
  clauses. The locale \<open>horn_pass\<close> is the contract of the loop body: visiting an item fires its
  clauses. Its lemmas bound the passes and say what a pass without growth means.
\<close>

type_synonym 'a clause = "'a \<times> 'a set"

inductive_set horn_model :: "'a clause set \<Rightarrow> 'a set \<Rightarrow> 'a set" for C I where
  start: "a \<in> I \<Longrightarrow> a \<in> horn_model C I"
| clause: "(h, B) \<in> C \<Longrightarrow> \<forall>b \<in> B. b \<in> horn_model C I \<Longrightarrow> h \<in> horn_model C I"

definition fire :: "'a clause \<Rightarrow> 'a list \<Rightarrow> 'a list" where
  "fire c P = (if snd c \<subseteq> set P then List.insert (fst c) P else P)"

lemma fire_grows: "set P \<subseteq> set (fire c P)"
  by (auto simp: fire_def)

lemma fires_grow: "set P \<subseteq> set (fold fire cs P)"
  by (rule fold_keeps [where P = "\<lambda>Q. set P \<subseteq> set Q"]) (use fire_grows in fast)+

lemma fires_bound: "set (fold fire cs P) \<subseteq> set P \<union> fst ` set cs"
  by (rule fold_keeps [where P = "\<lambda>Q. set Q \<subseteq> set P \<union> fst ` set cs"]) (auto simp: fire_def)

lemma fires_distinct: "distinct P \<Longrightarrow> distinct (fold fire cs P)"
  by (rule fold_keeps) (auto simp: fire_def)

lemma fires_sound:
  assumes "set P \<subseteq> horn_model C I" and "set cs \<subseteq> C"
  shows "set (fold fire cs P) \<subseteq> horn_model C I"
  using assms
proof (induction cs arbitrary: P)
  case (Cons c cs)
  have "set (fire c P) \<subseteq> horn_model C I"
  proof (cases "snd c \<subseteq> set P")
    case True
    with Cons.prems have "\<forall>b \<in> snd c. b \<in> horn_model C I" by blast
    moreover from Cons.prems have "(fst c, snd c) \<in> C" by simp
    ultimately have "fst c \<in> horn_model C I" by (intro horn_model.clause)
    with True Cons.prems show ?thesis by (simp add: fire_def)
  qed (use Cons.prems in \<open>simp add: fire_def\<close>)
  with Cons show ?case by simp
qed simp

lemma fires_length: "length P \<le> length (fold fire cs P)"
proof (induction cs arbitrary: P)
  case (Cons c cs)
  have "length P \<le> length (fire c P)" by (simp add: fire_def List.insert_def)
  with Cons [of "fire c P"] show ?case by simp
qed simp

text \<open>A pass that does not grow the list changed nothing, and every clause is satisfied.\<close>

lemma fires_same:
  assumes "length (fold fire cs P) = length P"
  shows "fold fire cs P = P \<and> (\<forall>(h, B) \<in> set cs. B \<subseteq> set P \<longrightarrow> h \<in> set P)"
  using assms
proof (induction cs arbitrary: P)
  case (Cons c cs)
  have "length (fire c P) \<le> length (fold fire cs (fire c P))" by (rule fires_length)
  with Cons.prems have "length (fire c P) \<le> length P" by simp
  then have c: "fire c P = P" "snd c \<subseteq> set P \<longrightarrow> fst c \<in> set P"
    by (auto simp: fire_def List.insert_def split: if_splits)
  with Cons show ?case by (cases c) auto
qed simp

lemma fires_same_set: "set (fold fire cs P) \<subseteq> set P \<Longrightarrow> fold fire cs P = P"
proof (induction cs arbitrary: P)
  case (Cons c cs)
  have "set (fire c P) \<subseteq> set (fold fire cs (fire c P))" by (rule fires_grow)
  with Cons.prems have "set (fire c P) \<subseteq> set P" by auto
  then have "fire c P = P" by (auto simp: fire_def)
  with Cons show ?case by simp
qed simp

lemma horn_closed_model:
  assumes "I \<subseteq> S" and "\<forall>(h, B) \<in> C. B \<subseteq> S \<longrightarrow> h \<in> S"
  shows "horn_model C I \<subseteq> S"
proof
  fix a assume "a \<in> horn_model C I"
  then show "a \<in> S" by (induction) (use assms in fast)+
qed

text \<open>The model grows with the elements it starts from and with its clauses.\<close>

lemma horn_mono: "a \<in> horn_model C I \<Longrightarrow> C \<subseteq> D \<Longrightarrow> I \<subseteq> J \<Longrightarrow> a \<in> horn_model D J"
  by (induction rule: horn_model.induct) (auto intro: horn_model.intros)

locale horn_pass =
  fixes visit :: "'x \<Rightarrow> 'a list \<Rightarrow> 'a list" and clauses :: "'x \<Rightarrow> 'a clause list"
  assumes visit_fires: "visit x P = fold fire (clauses x) P"
begin

lemma pass_fires: "fold visit xs P = fold fire (concat (map clauses xs)) P"
  by (induction xs arbitrary: P) (simp_all add: visit_fires)

lemma pass_decreases:
  assumes "length (fold visit xs P) \<noteq> length P"
  shows "card (fst ` set (concat (map clauses xs)) - set (fold visit xs P)) <
    card (fst ` set (concat (map clauses xs)) - set P)"
proof -
  let ?cs = "concat (map clauses xs)"
  have "\<not> set (fold fire ?cs P) \<subseteq> set P" using assms fires_same_set pass_fires by metis
  then obtain a where "a \<in> set (fold fire ?cs P)" and new: "a \<notin> set P" by blast
  moreover from this have "a \<in> fst ` set ?cs" using fires_bound [of ?cs P] by blast
  ultimately have "fst ` set ?cs - set (fold fire ?cs P) \<subset> fst ` set ?cs - set P"
    using fires_grow [of P ?cs] by blast
  then show ?thesis unfolding pass_fires by (rule psubset_card_mono [rotated]) simp
qed

lemma pass_sound:
  assumes "set P \<subseteq> horn_model (set (concat (map clauses xs))) I"
  shows "set (fold visit xs P) \<subseteq> horn_model (set (concat (map clauses xs))) I"
  unfolding pass_fires using assms subset_refl by (rule fires_sound)

lemma pass_fixed:
  assumes "length (fold visit xs P) = length P" and "I \<subseteq> set P"
    and "set P \<subseteq> horn_model (set (concat (map clauses xs))) I"
  shows "fold visit xs P = P" and "set P = horn_model (set (concat (map clauses xs))) I"
proof -
  note same = fires_same [OF assms(1) [unfolded pass_fires]]
  then show "fold visit xs P = P" by (simp only: pass_fires)
  from same have "horn_model (set (concat (map clauses xs))) I \<subseteq> set P"
    by (intro horn_closed_model assms(2)) blast
  with assms(3) show "set P = horn_model (set (concat (map clauses xs))) I" by blast
qed

lemma pass_keeps: "set P \<subseteq> set (fold visit xs P)"
  unfolding pass_fires by (rule fires_grow)

lemma pass_distinct: "distinct P \<Longrightarrow> distinct (fold visit xs P)"
  unfolding pass_fires by (rule fires_distinct)

end

end
