(* ===== verification/FuncDep.thy ===== *)
theory FuncDep
  imports ObjQueries HornPasses
begin

section \<open>Function dependencies: check_fdep\<close>

text \<open>
  \<open>kernel_patch/hwfilter.py\<close>, \<open>check_fdep\<close>: starting from the functions that are certainly unused
  (\<open>patch_sym\<close>) and a list of candidates, it repeats a pass over the candidates that adds a function
  when every caller is already in the set and no function outside the set refers to it, until the
  set stops growing; the result is split into functions of the kernel and of loadable modules. The
  queries of \<open>ObjDeps\<close> are those of theory \<open>ObjQueries\<close>; the only error is their assertion. The
  filters \<open>check_fdep\<close> is passed are never called, so they are not parameters here.
\<close>

type_synonym fnode = "str \<times> str"  \<comment> \<open>object or module, function\<close>

subsection \<open>The candidates\<close>

definition add_imports :: "objdeps \<Rightarrow> str \<Rightarrow> str \<Rightarrow> fnode list \<Rightarrow> fnode list" where
  "add_imports od md name new = (case imports_of od md name of
       None \<Rightarrow> new
     | Some syms \<Rightarrow> fold (\<lambda>s new. (case get_mods od s False of
           None \<Rightarrow> new
         | Some mods \<Rightarrow> fold (\<lambda>m. List.insert (m, s)) mods new)) syms new)"

definition add_callers :: "fsym list \<Rightarrow> fnode list \<Rightarrow> fnode list" where
  "add_callers callers new = fold (\<lambda>(caller, cmod). List.insert (cmod, caller)) callers new"

definition populate_related :: "objdeps \<Rightarrow> fnode \<Rightarrow> (str \<times> str) \<times> fsym list \<Rightarrow> fnode list \<Rightarrow> fnode list" where
  "populate_related od c e new = (case (c, e) of ((o', f), (relf, relmod), callers) \<Rightarrow>
     if relf = o' \<and> relmod = f then new
     else let new = List.insert (relmod, relf) new in
       (case imports_of od relmod relf of
         None \<Rightarrow> new
       | Some _ \<Rightarrow> add_callers callers (add_imports od relmod relf new)))"

definition populate_one :: "objdeps \<Rightarrow> fnode \<Rightarrow> fnode list \<Rightarrow> fnode list res" where
  "populate_one od c new = (case c of (o', f) \<Rightarrow>
     let new = add_imports od o' f new in
     bindE (related od o' f) (\<lambda>fdeps. case fdeps of
         None \<Rightarrow> Inr new
       | Some fd \<Rightarrow>
           if fd = [] then Inr new
           else let new = (if has_key fd (o', f) then add_callers (dd_get fd (o', f)) new else new)
             in Inr (fold (populate_related od c) fd new)))"

definition populate :: "objdeps \<Rightarrow> fnode list \<Rightarrow> fnode list res" where
  "populate od checklist =
     bindE (foldE (populate_one od) checklist []) (\<lambda>new. Inr (fold List.insert new checklist))"

subsection \<open>The loop\<close>

definition visit_lone :: "objdeps \<Rightarrow> fnode \<Rightarrow> fnode list \<Rightarrow> fnode list" where
  "visit_lone od c P = (case c of (o', f) \<Rightarrow>
     if \<not> is_ir_mod od o' then P
     else if has_referencer od o' f P then P
     else List.insert (o', f) P)"

definition visit_related :: "objdeps \<Rightarrow> (str \<times> str) \<times> fsym list \<Rightarrow> fnode list \<Rightarrow> fnode list" where
  "visit_related od e P = (case e of ((relf, relmod), callers) \<Rightarrow>
     if \<not> is_ir_mod od relmod then P
     else if callers = [] then
       (if has_referencer od relmod relf P then P else List.insert (relmod, relf) P)
     else let patchable = \<not> list_ex (\<lambda>(caller, cmod). \<not> is_ir_mod od cmod \<or> (cmod, caller) \<notin> set P) callers in
       if patchable then
         (if has_referencer od relmod relf P then P else List.insert (relmod, relf) P)
       else P)"

definition visit_found :: "objdeps \<Rightarrow> fnode \<times> candid option \<Rightarrow> fnode list \<Rightarrow> fnode list" where
  "visit_found od x P = (case x of (c, fdeps) \<Rightarrow> (case fdeps of
       None \<Rightarrow> visit_lone od c P
     | Some fd \<Rightarrow> if fd = [] then visit_lone od c P else fold (visit_related od) fd P))"

definition look_up :: "objdeps \<Rightarrow> fnode \<Rightarrow> (fnode \<times> candid option) res" where
  "look_up od c = bindE (related od (fst c) (snd c)) (\<lambda>fd. Inr (c, fd))"

definition visit :: "objdeps \<Rightarrow> fnode \<Rightarrow> fnode list \<Rightarrow> fnode list res" where
  "visit od c P = bindE (look_up od c) (\<lambda>x. Inr (visit_found od x P))"

text \<open>One pass, and what it fires: the conditions of adding a function.\<close>

definition refs_of :: "objdeps \<Rightarrow> str \<Rightarrow> str \<Rightarrow> fnode set" where
  "refs_of od md name = Pair md ` set (dd2_get (fpref_revmap od) md name)"

definition lone_clauses :: "objdeps \<Rightarrow> fnode \<Rightarrow> fnode clause list" where
  "lone_clauses od c = (if is_ir_mod od (fst c) then [(c, refs_of od (fst c) (snd c))] else [])"

definition related_clauses :: "objdeps \<Rightarrow> (str \<times> str) \<times> fsym list \<Rightarrow> fnode clause list" where
  "related_clauses od e = (case e of ((relf, relmod), callers) \<Rightarrow>
     if is_ir_mod od relmod \<and> list_all (\<lambda>(caller, cmod). is_ir_mod od cmod) callers
     then [((relmod, relf), prod.swap ` set callers \<union> refs_of od relmod relf)] else [])"

definition clauses_of :: "objdeps \<Rightarrow> fnode \<times> candid option \<Rightarrow> fnode clause list" where
  "clauses_of od x = (case x of (c, fdeps) \<Rightarrow> (case fdeps of
       None \<Rightarrow> lone_clauses od c
     | Some fd \<Rightarrow> if fd = [] then lone_clauses od c else concat (map (related_clauses od) fd)))"

lemma has_referencer_refs: "has_referencer od md name P \<longleftrightarrow> \<not> refs_of od md name \<subseteq> set P"
  by (auto simp: has_referencer_iff refs_of_def)

lemma visit_lone_fires: "visit_lone od c P = fold fire (lone_clauses od c) P"
  by (cases c) (simp add: visit_lone_def lone_clauses_def fire_def has_referencer_refs)

lemma visit_related_fires: "visit_related od e P = fold fire (related_clauses od e) P"
proof -
  obtain relf relmod callers where e: "e = ((relf, relmod), callers)" by (metis surj_pair)
  have "\<not> list_ex (\<lambda>(caller, cmod). \<not> is_ir_mod od cmod \<or> (cmod, caller) \<notin> set P) callers \<longleftrightarrow>
      list_all (\<lambda>(caller, cmod). is_ir_mod od cmod) callers \<and> prod.swap ` set callers \<subseteq> set P"
    by (induction callers) auto
  then show ?thesis
    by (auto simp: e visit_related_def related_clauses_def fire_def has_referencer_refs Let_def)
qed

lemma visit_found_fires: "visit_found od x P = fold fire (clauses_of od x) P"
proof -
  have "fold (visit_related od) fd P = fold fire (concat (map (related_clauses od) fd)) P" for fd P
    by (induction fd arbitrary: P) (simp_all add: visit_related_fires)
  then show ?thesis
    by (auto simp: visit_found_def clauses_of_def visit_lone_fires split: prod.split option.split)
qed

interpretation fd: horn_pass "visit_found od" "clauses_of od" for od
  by unfold_locales (rule visit_found_fires)

lemma pass_found:
  "foldE (visit od) cs P =
     bindE (mapE (look_up od) cs) (\<lambda>xs. Inr (fold (visit_found od) xs P))"
  by (rule foldE_parse) (simp_all add: visit_def)

text \<open>
  \<open>closure\<close> is the \<open>while True\<close> loop: \<open>num\<close> is the number of elements before the pass.
\<close>

function closure :: "objdeps \<Rightarrow> fnode list \<Rightarrow> nat \<Rightarrow> fnode list \<Rightarrow> fnode list res" where
  "closure od cs num P =
     bindE (foldE (visit od) cs P) (\<lambda>P'.
       if num = length P' then Inr P' else closure od cs (length P') P')"
  by pat_completeness auto

definition growable :: "objdeps \<Rightarrow> fnode list \<Rightarrow> fnode set" where
  "growable od cs = (case mapE (look_up od) cs of
       Inl _ \<Rightarrow> {} | Inr xs \<Rightarrow> fst ` set (concat (map (clauses_of od) xs)))"

lemma pass_grows:
  assumes "foldE (visit od) cs P = Inr P'" and "length P' \<noteq> length P"
  shows "card (growable od cs - set P') < card (growable od cs - set P)"
proof -
  from assms(1) obtain xs where "mapE (look_up od) cs = Inr xs" and "P' = fold (visit_found od) xs P"
    by (auto simp: pass_found bindE_Inr_iff)
  with assms(2) fd.pass_decreases show ?thesis by (simp add: growable_def)
qed

termination closure
  by (relation "measures [\<lambda>(od, cs, num, P). if num = length P then 0 else 1,
      \<lambda>(od, cs, num, P). card (growable od cs - set P)]")
    (auto intro: pass_grows)

declare closure.simps [simp del, code]

subsection \<open>check_fdep\<close>

definition split_patched :: "fnode list \<Rightarrow> pyset \<times> (str \<times> str) list" where
  "split_patched P = fold (\<lambda>(o', f) (rmfunc, rmko).
     if endswith o' ''.o'' then (List.insert f rmfunc, rmko)
     else (rmfunc, List.insert (f, o') rmko)) P ([], [])"

text \<open>From the candidates on: their order is that in which Python visits the set.\<close>

definition close_fdep :: "objdeps \<Rightarrow> fnode list \<Rightarrow> fnode list \<Rightarrow> (pyset \<times> (str \<times> str) list) res" where
  "close_fdep od cs patch_sym =
     bindE (closure od cs (length patch_sym) patch_sym) (\<lambda>P. Inr (split_patched P))"

definition check_fdep :: "fnode list \<Rightarrow> fnode list \<Rightarrow> objdeps \<Rightarrow> (pyset \<times> (str \<times> str) list) res" where
  "check_fdep fdep_checklist patch_sym od =
     bindE (populate od fdep_checklist) (\<lambda>cs. close_fdep od cs patch_sym)"

subsection \<open>What the candidates are\<close>

text \<open>The elements \<open>populate_one\<close> adds for a checked function and for a related one.\<close>

definition imported :: "objdeps \<Rightarrow> str \<Rightarrow> fnode set" where
  "imported od md = {(m, s). s \<in> set (dd_get (import_table od) md) \<and> m \<in> set (dd_get (mod_map od) s)}"

definition around :: "objdeps \<Rightarrow> fnode \<Rightarrow> (str \<times> str) \<times> fsym list \<Rightarrow> fnode set" where
  "around od c e = (case e of ((relf, relmod), callers) \<Rightarrow>
     if (relf, relmod) = c then {}
     else insert (relmod, relf) (if has_key (import_table od) relmod
       then imported od relmod \<union> prod.swap ` set callers else {}))"

definition near :: "objdeps \<Rightarrow> fnode \<Rightarrow> fnode set" where
  "near od c = imported od (fst c) \<union> (case related od (fst c) (snd c) of
       Inr (Some fd) \<Rightarrow> prod.swap ` set (dd_get fd c) \<union> (\<Union>e \<in> set fd. around od c e)
     | _ \<Rightarrow> {})"

lemma fold_insert_set: "set (fold List.insert xs ys) = set ys \<union> set xs"
  by (induction xs arbitrary: ys) auto

lemma set_add_callers: "set (add_callers callers new) = set new \<union> prod.swap ` set callers"
  unfolding add_callers_def by (induction callers arbitrary: new) auto

lemma set_add_imports: "set (add_imports od md name new) = set new \<union> imported od md"
proof -
  have mods: "set (fold (\<lambda>m. List.insert (m, s)) ms xs) = set xs \<union> (\<lambda>m. (m, s)) ` set ms" for s ms and xs :: "fnode list"
    by (induction ms arbitrary: xs) auto
  have one: "set (case get_mods od s False of None \<Rightarrow> xs | Some mods \<Rightarrow> fold (\<lambda>m. List.insert (m, s)) mods xs) =
      set xs \<union> (\<lambda>m. (m, s)) ` set (dd_get (mod_map od) s)" for s and xs :: "fnode list"
    using set_get_mods [of od s] by (cases "get_mods od s False") (auto simp: mods)
  have all: "set (fold (\<lambda>s new. case get_mods od s False of None \<Rightarrow> new
        | Some mods \<Rightarrow> fold (\<lambda>m. List.insert (m, s)) mods new) syms xs) =
      set xs \<union> {(m, s). s \<in> set syms \<and> m \<in> set (dd_get (mod_map od) s)}" for syms and xs :: "fnode list"
    by (induction syms arbitrary: xs) (auto simp: one)
  show ?thesis
    using opt_set_imports [of od md name]
    by (cases "imports_of od md name") (simp_all add: add_imports_def all imported_def imports_of_def has_key_iff
        dd_get_outside split: if_splits)
qed

lemma set_populate_related: "set (populate_related od c e new) = set new \<union> around od c e"
proof -
  obtain o' f relf relmod callers where ce: "c = (o', f)" "e = ((relf, relmod), callers)"
    by (metis surj_pair)
  show ?thesis
    by (cases "has_key (import_table od) relmod"; cases "relf = o' \<and> relmod = f")
       (auto simp: ce populate_related_def around_def set_add_imports set_add_callers imports_of_def)
qed

lemma set_populate_one:
  assumes "populate_one od c new = Inr new'"
  shows "set new' = set new \<union> near od c"
proof -
  obtain o' f where c: "c = (o', f)" by (cases c)
  have all: "set (fold (populate_related od c) fd xs) = set xs \<union> (\<Union>e \<in> set fd. around od c e)" for fd xs
    by (induction fd arbitrary: xs) (auto simp: set_populate_related)
  from assms obtain r where r: "related od o' f = Inr r"
    by (auto simp: populate_one_def c bindE_Inr_iff Let_def)
  show ?thesis
  proof (cases r)
    case None
    with assms r have "new' = add_imports od o' f new" by (simp add: populate_one_def c)
    with None r show ?thesis by (simp add: c near_def set_add_imports)
  next
    case (Some fd)
    have own: "set (if has_key fd c then add_callers (dd_get fd c) xs else xs) =
        set xs \<union> prod.swap ` set (dd_get fd c)" for xs
      by (simp add: set_add_callers has_key_iff dd_get_outside)
    have new': "new' = (if fd = [] then add_imports od o' f new else
        fold (populate_related od c) fd (if has_key fd c then add_callers (dd_get fd c) (add_imports od o' f new)
          else add_imports od o' f new))"
      using assms r Some by (cases "fd = []"; cases "has_key fd c") (simp_all add: populate_one_def c Let_def)
    have near: "near od c = imported od o' \<union> (prod.swap ` set (dd_get fd c) \<union> (\<Union>e \<in> set fd. around od c e))"
      using r Some by (simp add: near_def c)
    show ?thesis unfolding new' near by (cases "fd = []") (simp_all add: all own set_add_imports Un_assoc)
  qed
qed

lemma set_populate:
  assumes "populate od cl = Inr cs"
  shows "set cs = set cl \<union> (\<Union>c \<in> set cl. near od c)"
proof -
  have run: "foldE (populate_one od) cl new = Inr new' \<Longrightarrow> set new' = set new \<union> (\<Union>c \<in> set cl. near od c)" for new new'
  proof (induction cl arbitrary: new)
    case (Cons c cl)
    then obtain u where "populate_one od c new = Inr u" and "foldE (populate_one od) cl u = Inr new'"
      by (auto simp: bindE_Inr_iff)
    with Cons.IH [of u] set_populate_one show ?case by auto
  qed simp
  from assms obtain new where "foldE (populate_one od) cl [] = Inr new" and "cs = fold List.insert new cl"
    by (auto simp: populate_def bindE_Inr_iff)
  with run show ?thesis by (simp add: fold_insert_set)
qed

lemma populate_returns: "(\<exists>cs. populate od cl = Inr cs) \<longleftrightarrow> (\<forall>c \<in> set cl. \<exists>fd. related od (fst c) (snd c) = Inr fd)"
proof -
  have one: "(\<exists>new'. populate_one od c new = Inr new') \<longleftrightarrow> (\<exists>fd. related od (fst c) (snd c) = Inr fd)" for c new
    by (cases c; cases "related od (fst c) (snd c)") (auto simp: populate_one_def Let_def split: option.splits)
  have "(\<exists>new'. foldE (populate_one od) cl new = Inr new') \<longleftrightarrow>
      (\<forall>c \<in> set cl. \<exists>fd. related od (fst c) (snd c) = Inr fd)" for new
  proof (induction cl arbitrary: new)
    case (Cons c cl)
    then show ?case
      using one [of c new] by (cases "populate_one od c new") auto
  qed simp
  then show ?thesis by (simp add: populate_def bindE_Inr_iff)
qed

subsection \<open>The set of patchable functions\<close>

text \<open>
  The least set that contains the initial functions, every candidate no linked object's function
  calls (\<open>related\<close> finds no callers) and every function related to a candidate whose callers
  are all in the set; an object that is not LLVM bitcode is never touched, nor is a function that a
  function outside the set refers to.
\<close>

inductive_set patchable :: "objdeps \<Rightarrow> fnode set \<Rightarrow> fnode set \<Rightarrow> fnode set" for od C I where
  start: "c \<in> I \<Longrightarrow> c \<in> patchable od C I"
| lone: "\<lbrakk>c \<in> C; related od (fst c) (snd c) = Inr fd; opt_set fd = {}; is_ir_mod od (fst c);
    \<forall>r \<in> refs_of od (fst c) (snd c). r \<in> patchable od C I\<rbrakk> \<Longrightarrow> c \<in> patchable od C I"
| related: "\<lbrakk>c \<in> C; related od (fst c) (snd c) = Inr (Some fd); ((f, md), callers) \<in> set fd;
    is_ir_mod od md; \<forall>(caller, cmod) \<in> set callers. is_ir_mod od cmod \<and> (cmod, caller) \<in> patchable od C I;
    \<forall>r \<in> refs_of od md f. r \<in> patchable od C I\<rbrakk> \<Longrightarrow> (md, f) \<in> patchable od C I"

definition clauses_for :: "objdeps \<Rightarrow> fnode set \<Rightarrow> fnode clause set" where
  "clauses_for od C = {x. \<exists>c \<in> C. \<exists>fd. related od (fst c) (snd c) = Inr fd \<and> x \<in> set (clauses_of od (c, fd))}"

lemma look_up_Inr: "look_up od c = Inr y \<longleftrightarrow> (\<exists>fd. related od (fst c) (snd c) = Inr fd \<and> y = (c, fd))"
  by (auto simp: look_up_def bindE_Inr_iff)

lemma in_clauses_lone:
  assumes "related od (fst c) (snd c) = Inr fd" and "opt_set fd = {}"
  shows "clauses_of od (c, fd) = lone_clauses od c"
  using assms by (cases fd) (auto simp: clauses_of_def)

lemma in_clauses_for:
  "c \<in> C \<Longrightarrow> related od (fst c) (snd c) = Inr fd \<Longrightarrow> x \<in> set (clauses_of od (c, fd)) \<Longrightarrow> x \<in> clauses_for od C"
  unfolding clauses_for_def by blast

lemma patchable_horn: "patchable od C I = horn_model (clauses_for od C) I"
proof (intro set_eqI iffI)
  fix a assume "a \<in> patchable od C I"
  then show "a \<in> horn_model (clauses_for od C) I"
  proof induction
    case (lone c fd)
    then have "(c, refs_of od (fst c) (snd c)) \<in> clauses_for od C"
      by (intro in_clauses_for [of c C od fd]) (simp_all add: in_clauses_lone lone_clauses_def)
    with lone show ?case by (auto intro: horn_model.clause)
  next
    case (related c fd f md callers)
    from related(5) have "list_all (\<lambda>(caller, cmod). is_ir_mod od cmod) callers"
      by (auto simp: list_all_iff)
    with related(4) have "((md, f), prod.swap ` set callers \<union> refs_of od md f) \<in>
        set (related_clauses od ((f, md), callers))"
      by (simp add: related_clauses_def)
    with related(3) have "((md, f), prod.swap ` set callers \<union> refs_of od md f) \<in> set (clauses_of od (c, Some fd))"
      unfolding clauses_of_def by (cases fd) (auto simp del: insert_iff)
    with related(1,2) have "((md, f), prod.swap ` set callers \<union> refs_of od md f) \<in> clauses_for od C"
      by (rule in_clauses_for)
    moreover have "\<forall>b \<in> prod.swap ` set callers \<union> refs_of od md f. b \<in> horn_model (clauses_for od C) I"
      using related by auto
    ultimately show ?case by (rule horn_model.clause)
  qed (rule horn_model.start)
next
  fix a assume "a \<in> horn_model (clauses_for od C) I"
  then show "a \<in> patchable od C I"
  proof induction
    case (clause h B)
    then obtain c fd where c: "c \<in> C" "related od (fst c) (snd c) = Inr fd"
      and h: "(h, B) \<in> set (clauses_of od (c, fd))"
      unfolding clauses_for_def by blast
    show ?case
    proof (cases "opt_set fd = {}")
      case True
      with c h have "h = c" "B = refs_of od (fst c) (snd c)" "is_ir_mod od (fst c)"
        by (auto simp: in_clauses_lone lone_clauses_def split: if_splits)
      with c True clause.IH show ?thesis by (auto intro: patchable.lone)
    next
      case False
      then obtain l where fd: "fd = Some l" "l \<noteq> []" by (cases fd) auto
      with h obtain f md callers where e: "((f, md), callers) \<in> set l" "is_ir_mod od md"
          "\<forall>(caller, cmod) \<in> set callers. is_ir_mod od cmod" "h = (md, f)"
          "B = prod.swap ` set callers \<union> refs_of od md f"
        by (auto simp: clauses_of_def related_clauses_def list_all_iff split: if_splits prod.splits)
      have IH: "\<forall>b \<in> B. b \<in> patchable od C I" using clause.IH by blast
      have refs: "\<forall>r \<in> refs_of od md f. r \<in> patchable od C I" using IH unfolding e(5) by blast
      have "\<forall>(caller, cmod) \<in> set callers. is_ir_mod od cmod \<and> (cmod, caller) \<in> patchable od C I"
        using e(3) IH unfolding e(5) by auto
      from patchable.related [OF c(1) c(2) [unfolded fd(1)] e(1,2) this refs]
      show ?thesis unfolding e(4) .
    qed
  qed (rule patchable.start)
qed

lemma patchable_mono: "a \<in> patchable od C I \<Longrightarrow> C \<subseteq> D \<Longrightarrow> I \<subseteq> J \<Longrightarrow> a \<in> patchable od D J"
  unfolding patchable_horn by (erule horn_mono) (auto simp: clauses_for_def)

lemma clauses_found:
  assumes "mapE (look_up od) cs = Inr xs"
  shows "set (concat (map (clauses_of od) xs)) = clauses_for od (set cs)"
proof -
  have "set xs = {x. \<exists>c \<in> set cs. look_up od c = Inr x}" by (rule mapE_set [OF assms])
  then have "set (concat (map (clauses_of od) xs)) = (\<Union>x \<in> {x. \<exists>c \<in> set cs. look_up od c = Inr x}. set (clauses_of od x))"
    by simp
  also have "\<dots> = clauses_for od (set cs)"
    unfolding clauses_for_def look_up_Inr by blast
  finally show ?thesis .
qed

lemma closure_patchable:
  assumes "closure od cs num P = Inr Q" and "num = length P"
    and "I \<subseteq> set P" and "set P \<subseteq> patchable od (set cs) I"
  shows "set Q = patchable od (set cs) I"
  using assms
proof (induction od cs num P rule: closure.induct)
  case (1 od cs num P)
  from "1.prems"(1) obtain P' where P': "foldE (visit od) cs P = Inr P'"
    and rest: "(if num = length P' then Inr P' else closure od cs (length P') P') = Inr Q"
    by (subst (asm) closure.simps) (auto simp: bindE_Inr_iff)
  from P' obtain xs where xs: "mapE (look_up od) cs = Inr xs" and P'': "P' = fold (visit_found od) xs P"
    by (auto simp: pass_found bindE_Inr_iff)
  note model = "1.prems"(4) [unfolded patchable_horn, folded clauses_found [OF xs]]
  show ?case
  proof (cases "num = length P'")
    case True
    then have len: "length (fold (visit_found od) xs P) = length P" using "1.prems"(2) P'' by simp
    note fixed = fd.pass_fixed [OF len "1.prems"(3) model, unfolded clauses_found [OF xs], folded patchable_horn]
    from True rest have "Q = P'" by simp
    with fixed P'' show ?thesis by simp
  next
    case False
    have "I \<subseteq> set P'" using "1.prems"(3) fd.pass_keeps [of P od xs] unfolding P'' by blast
    moreover have "set P' \<subseteq> patchable od (set cs) I"
      using fd.pass_sound [OF model] unfolding P'' patchable_horn clauses_found [OF xs] .
    ultimately show ?thesis using "1.IH" [OF P' False] False rest by simp
  qed
qed

lemma closure_returns:
  "(\<exists>Q. closure od cs num P = Inr Q) \<longleftrightarrow> (\<forall>c \<in> set cs. \<exists>fd. related od (fst c) (snd c) = Inr fd)"
proof (induction od cs num P rule: closure.induct)
  case (1 od cs num P)
  have found: "(\<exists>xs. mapE (look_up od) cs = Inr xs) \<longleftrightarrow> (\<forall>c \<in> set cs. \<exists>fd. related od (fst c) (snd c) = Inr fd)"
    by (induction cs) (auto simp: bindE_Inr_iff look_up_def)
  show ?case
  proof (cases "foldE (visit od) cs P")
    case (Inl e)
    then have "\<nexists>xs. mapE (look_up od) cs = Inr xs" by (auto simp: pass_found bindE_Inl_iff)
    with Inl show ?thesis unfolding found [symmetric] by (subst closure.simps) simp
  next
    case (Inr P')
    then have "\<exists>xs. mapE (look_up od) cs = Inr xs" by (auto simp: pass_found bindE_Inr_iff)
    with Inr "1.IH" [OF Inr] show ?thesis unfolding found [symmetric] by (subst closure.simps) auto
  qed
qed

lemma set_split_patched:
  assumes "split_patched P = (rmfunc, rmko)"
  shows "set rmfunc = {f. \<exists>o'. (o', f) \<in> set P \<and> endswith o' ''.o''} \<and>
    set rmko = {(f, o'). (o', f) \<in> set P \<and> \<not> endswith o' ''.o''}"
proof -
  let ?step = "\<lambda>(o', f) (rmfunc, rmko). if endswith o' ''.o'' then (List.insert f rmfunc, rmko)
     else (rmfunc, List.insert (f, o') rmko)"
  have "fold ?step P (rf, rk) = (rmfunc, rmko) \<Longrightarrow>
      set rmfunc = set rf \<union> {f. \<exists>o'. (o', f) \<in> set P \<and> endswith o' ''.o''} \<and>
      set rmko = set rk \<union> {(f, o'). (o', f) \<in> set P \<and> \<not> endswith o' ''.o''}" for rf rk
  proof (induction P arbitrary: rf rk)
    case (Cons c P)
    obtain o' f where c: "c = (o', f)" by (cases c)
    show ?case
    proof (cases "endswith o' ''.o''")
      case True
      with Cons show ?thesis using Cons.IH [of "List.insert f rf" rk] by (auto simp: c)
    next
      case False
      with Cons show ?thesis using Cons.IH [of rf "List.insert (f, o') rk"] by (auto simp: c)
    qed
  qed simp
  from this [of "[]" "[]"] assms show ?thesis by (simp add: split_patched_def)
qed

lemma close_fdep_sets:
  assumes "close_fdep od cs ps = Inr (rf, rk)"
  shows "set rf = {f. \<exists>md. (md, f) \<in> patchable od (set cs) (set ps) \<and> endswith md ''.o''} \<and>
    set rk = {(f, md). (md, f) \<in> patchable od (set cs) (set ps) \<and> \<not> endswith md ''.o''}"
proof -
  from assms obtain P where P: "closure od cs (length ps) ps = Inr P" and "split_patched P = (rf, rk)"
    by (auto simp: close_fdep_def bindE_Inr_iff)
  moreover have "set P = patchable od (set cs) (set ps)"
    using P by (rule closure_patchable) (auto intro: patchable.start)
  ultimately show ?thesis using set_split_patched [of P rf rk] by auto
qed

lemma close_fdep_returns:
  "(\<exists>r. close_fdep od cs ps = Inr r) \<longleftrightarrow> (\<forall>c \<in> set cs. \<exists>fd. related od (fst c) (snd c) = Inr fd)"
  unfolding closure_returns [of od cs "length ps" ps, symmetric] by (auto simp: close_fdep_def bindE_Inr_iff)

lemma check_fdep_parts:
  assumes "check_fdep cl ps od = Inr (rf, rk)"
  shows "\<exists>cs. populate od cl = Inr cs \<and>
    set rf = {f. \<exists>md. (md, f) \<in> patchable od (set cs) (set ps) \<and> endswith md ''.o''} \<and>
    set rk = {(f, md). (md, f) \<in> patchable od (set cs) (set ps) \<and> \<not> endswith md ''.o''}"
  using assms close_fdep_sets unfolding check_fdep_def by (auto simp: bindE_Inr_iff)

text \<open>A function is gone when its name, or its name and module, is in the result.\<close>

definition gone :: "pyset \<Rightarrow> (str \<times> str) list \<Rightarrow> fnode \<Rightarrow> bool" where
  "gone rf rk c \<longleftrightarrow> (if endswith (fst c) ''.o'' then snd c \<in> set rf else (snd c, fst c) \<in> set rk)"

text \<open>
  Nothing left uses the function: every caller the tables list, from whatever object, and every
  function of its object that refers to it is gone. The module of a caller stands for its object.
\<close>

definition callers_gone :: "objdeps \<Rightarrow> pyset \<Rightarrow> (str \<times> str) list \<Rightarrow> str \<Rightarrow> bool" where
  "callers_gone od rf rk f \<longleftrightarrow> (\<forall>(caller, cmod) \<in> set (dd_get (frevdep_map od) f).
     \<exists>k. caller_mod od cmod = Inr k \<and> is_ir_mod od k \<and> gone rf rk (k, caller))"

definition referrers_gone :: "objdeps \<Rightarrow> pyset \<Rightarrow> (str \<times> str) list \<Rightarrow> fnode \<Rightarrow> bool" where
  "referrers_gone od rf rk c \<longleftrightarrow> (\<forall>s \<in> set (dd2_get (fpref_revmap od) (fst c) (snd c)). gone rf rk (fst c, s))"

definition exported :: "objdeps \<Rightarrow> fnode \<Rightarrow> bool" where
  "exported od c \<longleftrightarrow> snd c \<in> set (dd_get (export_table od) (fst c))"

lemma patchable_unused:
  assumes "c \<in> patchable od C I" and "c \<notin> I" and "od_named od" and "od_linked od"
    and gone: "\<And>x. x \<in> patchable od C I \<Longrightarrow> gone rf rk x"
  shows "is_ir_mod od (fst c) \<and> referrers_gone od rf rk c \<and>
    (callers_gone od rf rk (snd c) \<or> c \<in> C \<and> \<not> exported od c)"
  using assms(1)
proof cases
  case (lone fd)
  have "referrers_gone od rf rk c" using lone(5) gone by (auto simp: referrers_gone_def refs_of_def)
  moreover have "callers_gone od rf rk (snd c)" if "exported od c"
  proof -
    have f: "snd c \<in> set (dd_get (export_table od) (fst c))" using that by (simp add: exported_def)
    then have "fst c \<in> set (dd_get (mod_map od) (snd c))" using assms(4) by (simp add: linked_defs)
    with lone(2,3) have "related od (fst c) (snd c) = Inr (Some [])"
      by (cases fd) (auto simp: related_def bindE_Inr_iff)
    then show ?thesis using related_empty [OF _ assms(3) f] by (simp add: callers_gone_def)
  qed
  ultimately show ?thesis using lone(1,4) by blast
next
  case (related c0 fd f md callers)
  have callers: "set callers = calls_from od f"
    by (rule related_entry_callers [OF related(3) final_apart [OF named_final [OF assms(3)]] related(4)])
  have "callers_gone od rf rk f"
    unfolding callers_gone_def
  proof clarify
    fix caller cmod assume call: "(caller, cmod) \<in> set (dd_get (frevdep_map od) f)"
    obtain k where k: "caller_mod od cmod = Inr k" using caller_mod_total [OF named_nonempty [OF assms(3)]] by blast
    with call have "(caller, k) \<in> set callers" unfolding callers calls_from_def by blast
    with related(6) gone have "is_ir_mod od k \<and> gone rf rk (k, caller)" by blast
    with k show "\<exists>k. caller_mod od cmod = Inr k \<and> is_ir_mod od k \<and> gone rf rk (k, caller)" by blast
  qed
  moreover have "referrers_gone od rf rk c" using related(1,7) gone by (auto simp: referrers_gone_def refs_of_def)
  ultimately show ?thesis using related(1,5) by simp
qed (use assms(2) in simp)

subsection \<open>A small build\<close>

text \<open>
  \<open>l.o\<close> exports \<open>lib_f\<close> and \<open>lib_g\<close>; \<open>d_init\<close> of module \<open>m.ko\<close> calls \<open>lib_f\<close> and is itself called by
  \<open>x_main\<close> of \<open>x.o\<close>, which nothing removes. Checking \<open>lib_g\<close> removes all of them but \<open>x_main\<close>.
\<close>

definition demo_calls :: objdeps where
  "demo_calls = (empty_objdeps [])\<lparr>
     import_table := [(''l.o'', [''printk''])],
     export_table := [(''l.o'', [''lib_f'', ''lib_g'']), (''d.o'', [''d_init'']), (''x.o'', [''x_main''])],
     mod_map := [(''lib_f'', [''l.o'']), (''lib_g'', [''l.o'']), (''d_init'', [''d.o'']), (''x_main'', [''x.o''])],
     fdep_map := [(''d.o'', [(''d_init'', [''lib_f''])]), (''x.o'', [(''x_main'', [''d_init''])])],
     frevdep_map := [(''lib_f'', [(''d_init'', ''d.o'')]), (''d_init'', [(''x_main'', ''x.o'')])],
     drv_map := [(''d.o'', [''m.ko''])]\<rparr>"


lemma demo_calls_populate:
  "populate demo_calls [(''l.o'', ''lib_g'')] = Inr [(''l.o'', ''lib_f''), (''m.ko'', ''d_init''), (''l.o'', ''lib_g'')]"
  by code_simp

lemma demo_calls_fdep:
  "check_fdep [(''l.o'', ''lib_g'')] [(''l.o'', ''lib_g'')] demo_calls =
     Inr ([''lib_g'', ''lib_f''], [(''d_init'', ''m.ko'')])"
  by code_simp

lemma demo_calls_fdep_none:
  "check_fdep [(''l.o'', ''lib_g'')] [] demo_calls = Inr ([''lib_f''], [(''d_init'', ''m.ko'')])"
  by code_simp

text \<open>
  The tables of a small kernel: \<open>l.o\<close> defines \<open>lib_f\<close>, which \<open>d_init\<close> of the module \<open>m.ko\<close> calls,
  \<open>lib_g\<close>, which calls \<open>lib_h\<close>, and \<open>lib_k\<close>. \<open>x_main\<close> of \<open>x.o\<close>, which a table of functions refers to,
  calls \<open>lib_k\<close> and \<open>d_init\<close>.
\<close>

definition demo_tables :: "(str \<times> str) list" where
  "demo_tables =
     [(''/b/l.o.symtab'', join_with [CHR 0x0A] [''U printk'', ''T lib_f'', ''T lib_g'', ''T lib_h'', ''T lib_k'']),
      (''/b/l.o.imptab'', ''lib_g : lib_h''),
      (''/b/x.o.symtab'', ''T x_main''),
      (''/b/x.o.imptab'', join_with [CHR 0x0A] [''x_main : lib_k'', ''x_main : d_init'']),
      (''/b/x.o.fptref'', ''ops : x_main''),
      (''/b/drv/d.o.symtab'', ''T d_init''),
      (''/b/drv/d.o.imptab'', ''d_init : lib_f''),
      (''/b/drv/m.mod'', ''drv/d.o'')]"

definition demo_build :: fsys where
  "demo_build = \<lparr>fs_walk = \<lambda>_. [(''/b'', [''l.o.symtab'', ''l.o.imptab'', ''x.o.symtab'', ''x.o.imptab'', ''x.o.fptref'']),
       (''/b/drv'', [''d.o.symtab'', ''d.o.imptab'', ''m.mod''])],
     fs_exists = \<lambda>_. True, fs_text = map_of demo_tables\<rparr>"

definition demo_kernel :: objdeps where
  "demo_kernel = (empty_objdeps [])\<lparr>
     import_table := [(''/b/l.o'', [''printk''])],
     export_table := [(''/b/l.o'', [''lib_k'', ''lib_h'', ''lib_g'', ''lib_f'']), (''/b/x.o'', [''x_main'']), (''/b/drv/d.o'', [''d_init''])],
     global_export_table := [(''/b/l.o'', [''lib_k'', ''lib_h'', ''lib_g'', ''lib_f'']), (''/b/x.o'', [''x_main'']), (''/b/drv/d.o'', [''d_init''])],
     fdep_map := [(''/b/l.o'', [(''lib_g'', [''lib_h''])]), (''/b/x.o'', [(''x_main'', [''d_init'', ''lib_k''])]),
       (''/b/drv/d.o'', [(''d_init'', [''lib_f''])])],
     frevdep_map := [(''lib_h'', [(''lib_g'', ''/b/l.o'')]), (''lib_k'', [(''x_main'', ''/b/x.o'')]),
       (''d_init'', [(''x_main'', ''/b/x.o'')]), (''lib_f'', [(''d_init'', ''/b/drv/d.o'')])],
     mod_map := [(''lib_f'', [''/b/l.o'']), (''lib_g'', [''/b/l.o'']), (''lib_h'', [''/b/l.o'']), (''lib_k'', [''/b/l.o'']),
       (''x_main'', [''/b/x.o'']), (''d_init'', [''/b/drv/d.o''])],
     drv_map := [(''/b/drv/d.o'', [''/b/drv/m.ko''])],
     fpref_map := [(''/b/x.o'', [(''ops'', [''x_main''])])], fpref_revmap := [(''/b/x.o'', [(''x_main'', [''ops''])])]\<rparr>"

lemma demo_kernel_built: "mk_objdeps demo_build ''/s'' ''/b'' [] = Inr demo_kernel"
  by code_simp

lemma demo_kernel_populate:
  "populate demo_kernel [(''/b/l.o'', ''lib_g'')] = Inr [(''/b/l.o'', ''lib_k''), (''/b/x.o'', ''x_main''),
     (''/b/l.o'', ''lib_h''), (''/b/l.o'', ''lib_f''), (''/b/drv/m.ko'', ''d_init''), (''/b/l.o'', ''lib_g'')]"
  by code_simp

lemma demo_kernel_fdep:
  "check_fdep [(''/b/l.o'', ''lib_g'')] [(''/b/l.o'', ''lib_g'')] demo_kernel =
     Inr ([''lib_g'', ''lib_h'', ''lib_f''], [(''d_init'', ''/b/drv/m.ko'')])"
  by code_simp

subsection \<open>Properties\<close>

text \<open>
  C1: \<open>check_fdep\<close> computes the least set of patchable functions: what it returns are the functions of
  that set, those of objects in the first component and those of modules, with their module, in the
  second.
\<close>

theorem check_fdep_least:
  assumes "check_fdep cl ps od = Inr (rf, rk)" and "populate od cl = Inr cs"
  shows "set rf = {f. \<exists>md. (md, f) \<in> patchable od (set cs) (set ps) \<and> endswith md ''.o''} \<and>
    set rk = {(f, md). (md, f) \<in> patchable od (set cs) (set ps) \<and> \<not> endswith md ''.o''}"
  using check_fdep_parts [OF assms(1)] assms(2) by auto

theorem check_fdep_least_witness:
  "set [''lib_g'', ''lib_f''] = {f. \<exists>md. (md, f) \<in> patchable demo_calls
       (set [(''l.o'', ''lib_f''), (''m.ko'', ''d_init''), (''l.o'', ''lib_g'')]) (set [(''l.o'', ''lib_g'')]) \<and>
       endswith md ''.o''} \<and>
   set [(''d_init'', ''m.ko'')] = {(f, md). (md, f) \<in> patchable demo_calls
       (set [(''l.o'', ''lib_f''), (''m.ko'', ''d_init''), (''l.o'', ''lib_g'')]) (set [(''l.o'', ''lib_g'')]) \<and>
       \<not> endswith md ''.o''}"
  by (rule check_fdep_least [OF demo_calls_fdep demo_calls_populate])

text \<open>
  C2: no function of the kernel's objects is removed while something uses it: a function the result
  names was given as unused, or its object is bitcode, every function of the object that refers to it
  is removed, and every caller in the tables is removed too; only a candidate that its object has no
  symbol for (the compiler inlined it away) is removed without a look at its callers. For functions
  of loadable modules the like is not true, see the property on them below.
\<close>

theorem removed_function_unused:
  assumes "mk_objdeps fs linux_src linux_build bt = Inr od" and "check_fdep cl ps od = Inr (rf, rk)"
    and "populate od cl = Inr cs" and "f \<in> set rf"
  shows "\<exists>md. endswith md ''.o'' \<and> ((md, f) \<in> set ps \<or>
    is_ir_mod od md \<and> referrers_gone od rf rk (md, f) \<and>
    (callers_gone od rf rk f \<or> (md, f) \<in> set cs \<and> \<not> exported od (md, f)))"
proof -
  note sets = check_fdep_parts [OF assms(2), unfolded assms(3)]
  from sets assms(4) obtain md where md: "(md, f) \<in> patchable od (set cs) (set ps)" "endswith md ''.o''" by auto
  have gone: "gone rf rk x" if "x \<in> patchable od (set cs) (set ps)" for x
    using sets that by (cases x) (auto simp: gone_def)
  from md show ?thesis
    using patchable_unused [OF md(1) _ mk_objdeps_named [OF assms(1)] objdeps_links [OF assms(1)] gone] by auto
qed

theorem removed_function_unused_witness:
  "\<exists>md. endswith md ''.o'' \<and> ((md, ''lib_h'') \<in> set [(''/b/l.o'', ''lib_g'')] \<or>
    is_ir_mod demo_kernel md \<and>
    referrers_gone demo_kernel [''lib_g'', ''lib_h'', ''lib_f''] [(''d_init'', ''/b/drv/m.ko'')] (md, ''lib_h'') \<and>
    (callers_gone demo_kernel [''lib_g'', ''lib_h'', ''lib_f''] [(''d_init'', ''/b/drv/m.ko'')] ''lib_h'' \<or>
     (md, ''lib_h'') \<in> set [(''/b/l.o'', ''lib_k''), (''/b/x.o'', ''x_main''), (''/b/l.o'', ''lib_h''),
       (''/b/l.o'', ''lib_f''), (''/b/drv/m.ko'', ''d_init''), (''/b/l.o'', ''lib_g'')] \<and>
     \<not> exported demo_kernel (md, ''lib_h'')))"
  by (rule removed_function_unused [OF demo_kernel_built demo_kernel_fdep demo_kernel_populate]) simp

text \<open>
  The result holds names only. Here \<open>a.o\<close> has an inlined \<open>helper\<close>, and \<open>b.o\<close> exports another function
  of that name, which \<open>x_main\<close> calls; checking \<open>lib_f\<close> gives out the name, although \<open>x_main\<close> stays.
\<close>

definition demo_same_name :: objdeps where
  "demo_same_name = (empty_objdeps [])\<lparr>
     import_table := [(''l.o'', [''printk''])],
     export_table := [(''l.o'', [''lib_f'']), (''b.o'', [''helper'']), (''x.o'', [''x_main''])],
     mod_map := [(''lib_f'', [''l.o'']), (''helper'', [''b.o'']), (''x_main'', [''x.o''])],
     fdep_map := [(''a.o'', [(''helper'', [''lib_f''])]), (''x.o'', [(''x_main'', [''helper''])])],
     frevdep_map := [(''lib_f'', [(''helper'', ''a.o'')]), (''helper'', [(''x_main'', ''x.o'')])]\<rparr>"

lemma removed_by_name:
  "(''x_main'', ''x.o'') \<in> set (dd_get (frevdep_map demo_same_name) ''helper'') \<and>
   check_fdep [(''l.o'', ''lib_f'')] [] demo_same_name = Inr ([''helper'', ''lib_f''], [])"
  by code_simp

text \<open>
  C3: \<open>check_fdep\<close> returns whenever its queries do: the loop ends on every build, and it fails only if
  \<open>related\<close> fails for one of the candidates.
\<close>

theorem check_fdep_returns:
  "(\<exists>r. check_fdep cl ps od = Inr r) =
     (\<exists>cs. populate od cl = Inr cs \<and> (\<forall>c \<in> set cs. \<exists>fd. related od (fst c) (snd c) = Inr fd))"
  unfolding close_fdep_returns [of od _ ps, symmetric] check_fdep_def
  by (auto simp: bindE_Inr_iff)

theorem check_fdep_returns_witness:
  "\<exists>r. check_fdep [(''l.o'', ''lib_g'')] [(''l.o'', ''lib_g'')] demo_calls = Inr r"
proof -
  have "\<exists>fd. related demo_calls (fst c) (snd c) = Inr fd"
    if "c \<in> set [(''l.o'', ''lib_f''), (''m.ko'', ''d_init''), (''l.o'', ''lib_g'')]" for c
  proof -
    have "related demo_calls ''l.o'' ''lib_f'' = Inr (Some [((''lib_f'', ''l.o''), [(''d_init'', ''m.ko'')])])"
      "related demo_calls ''m.ko'' ''d_init'' = Inr None"
      "related demo_calls ''l.o'' ''lib_g'' = Inr (Some [((''lib_f'', ''l.o''), [(''d_init'', ''m.ko'')])])"
      by code_simp+
    with that show ?thesis by auto
  qed
  then show ?thesis unfolding check_fdep_returns using demo_calls_populate by blast
qed

text \<open>
  C5: giving more unused functions never makes \<open>check_fdep\<close> keep a function it removed before.
\<close>

theorem check_fdep_mono:
  assumes "set ps \<subseteq> set ps'" and "check_fdep cl ps od = Inr (rf, rk)" and "check_fdep cl ps' od = Inr (rf', rk')"
  shows "set rf \<subseteq> set rf' \<and> set rk \<subseteq> set rk'"
proof -
  from check_fdep_parts [OF assms(2)] check_fdep_parts [OF assms(3)] obtain cs where
    "set rf = {f. \<exists>md. (md, f) \<in> patchable od (set cs) (set ps) \<and> endswith md ''.o''}"
    "set rk = {(f, md). (md, f) \<in> patchable od (set cs) (set ps) \<and> \<not> endswith md ''.o''}"
    "set rf' = {f. \<exists>md. (md, f) \<in> patchable od (set cs) (set ps') \<and> endswith md ''.o''}"
    "set rk' = {(f, md). (md, f) \<in> patchable od (set cs) (set ps') \<and> \<not> endswith md ''.o''}"
    by auto
  moreover have "patchable od (set cs) (set ps) \<subseteq> patchable od (set cs) (set ps')"
    using patchable_mono [OF _ subset_refl assms(1)] by blast
  ultimately show ?thesis by auto
qed

theorem check_fdep_mono_witness:
  "set [''lib_f''] \<subseteq> set [''lib_g'', ''lib_f''] \<and> set [(''d_init'', ''m.ko'')] \<subseteq> set [(''d_init'', ''m.ko'')]"
  by (rule check_fdep_mono [OF _ demo_calls_fdep_none demo_calls_fdep]) simp

text \<open>
  C19: the candidates are the checked functions and, for each of them, the definitions of what its
  object imports and what \<open>related\<close> lists: the related functions and, for related objects with
  imports, the definitions of those imports and the callers.
\<close>

theorem populate_candidates:
  assumes "populate od cl = Inr cs"
  shows "set cs = set cl \<union> (\<Union>c \<in> set cl. imported od (fst c) \<union> (case related od (fst c) (snd c) of
       Inr (Some fd) \<Rightarrow> prod.swap ` set (dd_get fd c) \<union> (\<Union>e \<in> set fd. around od c e)
     | _ \<Rightarrow> {}))"
  using set_populate [OF assms] by (simp add: near_def)

theorem populate_candidates_witness:
  "set [(''l.o'', ''lib_f''), (''m.ko'', ''d_init''), (''l.o'', ''lib_g'')] =
   set [(''l.o'', ''lib_g'')] \<union> (\<Union>c \<in> set [(''l.o'', ''lib_g'')]. imported demo_calls (fst c) \<union>
     (case related demo_calls (fst c) (snd c) of
       Inr (Some fd) \<Rightarrow> prod.swap ` set (dd_get fd c) \<union> (\<Union>e \<in> set fd. around demo_calls c e)
     | _ \<Rightarrow> {}))"
  by (rule populate_candidates [OF demo_calls_populate])

text \<open>
  C18: a candidate of a loadable module is removed whatever calls it or refers to it: the tables \<open>related\<close> and
  \<open>has_referencer\<close> read are keyed by object files, and a candidate stands there under the name of its
  module, so it is taken for a function without callers. In the witness \<open>x_main\<close>, which is not
  removed, calls \<open>d_init\<close> of the module, which is.
\<close>

theorem module_candidate_removed:
  assumes "mk_objdeps fs linux_src linux_build bt = Inr od" and "check_fdep cl ps od = Inr (rf, rk)"
    and "populate od cl = Inr cs" and "(ko, f) \<in> set cs" and "endswith ko ''.ko''"
  shows "(f, ko) \<in> set rk"
proof -
  note named = mk_objdeps_named [OF assms(1)]
  have ko: "\<not> endswith ko ''.o''" using assms(5) by (rule ko_not_object)
  then have "ko \<notin> set (dd_get (mod_map od) f)" using named unfolding od_named_def by blast
  moreover have "set (dd2_get (fpref_revmap od) ko f) = {}" using named ko unfolding od_named_def by (intro equals0I) blast
  moreover have "is_ir_mod od ko" using named ko unfolding od_named_def is_ir_mod_def by blast
  ultimately have "related od (fst (ko, f)) (snd (ko, f)) = Inr None" "refs_of od ko f = {}" "is_ir_mod od ko"
    by (simp_all add: related_def refs_of_def)
  then have "(ko, f) \<in> patchable od (set cs) (set ps)"
    using assms(4) by (intro patchable.lone [where fd = None]) simp_all
  with check_fdep_parts [OF assms(2)] assms(3) ko show ?thesis by auto
qed

theorem module_candidate_removed_witness:
  "(''x_main'', ''/b/x.o'') \<in> set (dd_get (frevdep_map demo_kernel) ''d_init'') \<and>
   ''x_main'' \<notin> set [''lib_g'', ''lib_h'', ''lib_f''] \<and> (''d_init'', ''/b/drv/m.ko'') \<in> set [(''d_init'', ''/b/drv/m.ko'')]"
proof (intro conjI)
  show "(''d_init'', ''/b/drv/m.ko'') \<in> set [(''d_init'', ''/b/drv/m.ko'')]"
    by (rule module_candidate_removed [OF demo_kernel_built demo_kernel_fdep demo_kernel_populate]) code_simp+
qed code_simp+

text \<open>
  The branch of \<open>check_fdep\<close> that adds the callers of the checked function itself is never taken:
  it looks for the pair of object and function among keys that are pairs of function and module, and
  no exported symbol is the path of an object.
\<close>

theorem own_callers_not_added:
  assumes "related od obj f = Inr (Some fd)" and "\<And>md s. s \<in> set (dd_get (export_table od) md) \<Longrightarrow> slash \<notin> set s"
    and "slash \<in> set obj"
  shows "\<not> has_key fd (obj, f)"
  using related_keys [OF assms(1)] assms(2,3) by (force simp: exported_keys_def has_key_iff)

theorem own_callers_not_added_witness:
  "\<not> has_key [((''f'', ''/b/a.o''), [(''g'', ''/b/a.o'')])] (''/b/a.o'', ''f'')"
proof (rule own_callers_not_added)
  let ?od = "(empty_objdeps [])\<lparr>export_table := [(''/b/a.o'', [''f''])], mod_map := [(''f'', [''/b/a.o''])],
    frevdep_map := [(''f'', [(''g'', ''/b/a.o'')])]\<rparr>"
  show "related ?od ''/b/a.o'' ''f'' = Inr (Some [((''f'', ''/b/a.o''), [(''g'', ''/b/a.o'')])])" by code_simp
  show "slash \<notin> set s" if "s \<in> set (dd_get (export_table ?od) md)" for md s
    using that by (auto simp: dd_get_def split: if_splits)
  show "slash \<in> set ''/b/a.o''" by simp
qed

end
