(* ===== verification/FdepOrder.thy ===== *)
theory FdepOrder
  imports FuncDep "HOL-Library.Multiset"
begin

section \<open>The order in which check_fdep visits its sets\<close>

text \<open>
  \<open>check_fdep\<close> and the queries of \<open>ObjDeps\<close> loop over Python sets, whose order is not fixed: the
  checklist, the initial functions, the candidates the loop repeats over, and the sets in the tables
  of \<open>ObjDeps\<close>. Two states of \<open>ObjDeps\<close> that differ only in these orders are \<open>reordered\<close>; this theory
  shows that \<open>check_fdep\<close> finds the same functions in both, as long as no object belongs to two modules,
  and that it need not do so otherwise: \<open>related\<close> takes the first module of a caller's object.
\<close>

subsection \<open>Reordered tables\<close>

definition reordered :: "'a list dict \<Rightarrow> 'a list dict \<Rightarrow> bool" where
  "reordered t u \<longleftrightarrow> (\<forall>k. has_key t k = has_key u k \<and> mset (dd_get t k) = mset (dd_get u k))"

text \<open>The tables the queries read; the order of their keys is free too.\<close>

definition reordered_tables :: "objdeps \<Rightarrow> objdeps \<Rightarrow> bool" where
  "reordered_tables od od' \<longleftrightarrow>
     reordered (obj_build_revdeps od) (obj_build_revdeps od') \<and> reordered (import_table od) (import_table od') \<and>
     reordered (export_table od) (export_table od') \<and> reordered (frevdep_map od) (frevdep_map od') \<and>
     reordered (mod_map od) (mod_map od') \<and> reordered (drv_map od) (drv_map od') \<and>
     (\<forall>md f. set (dd2_get (fpref_revmap od) md f) = set (dd2_get (fpref_revmap od') md f)) \<and>
     set (non_bc_mods od) = set (non_bc_mods od')"

definition single_modules :: "objdeps \<Rightarrow> bool" where
  "single_modules od \<longleftrightarrow> (\<forall>obj. has_key (drv_map od) obj \<longrightarrow> length (dd_get (drv_map od) obj) = 1)"

lemma reordered_sym: "reordered t u \<Longrightarrow> reordered u t"
  by (simp add: reordered_def)

lemma reordered_tables_sym: "reordered_tables od od' \<Longrightarrow> reordered_tables od' od"
  unfolding reordered_tables_def by (auto intro: reordered_sym)

lemma reordered_set: "reordered t u \<Longrightarrow> set (dd_get u k) = set (dd_get t k)"
  unfolding reordered_def by (metis set_mset_mset)

lemma reordered_key: "reordered t u \<Longrightarrow> has_key u k = has_key t k"
  by (simp add: reordered_def)

lemma reordered_drv:
  assumes "reordered (drv_map od) (drv_map od')" and "single_modules od"
  shows "dd_get (drv_map od') obj = dd_get (drv_map od) obj" and "single_modules od'"
proof -
  show same: "dd_get (drv_map od') obj = dd_get (drv_map od) obj" for obj
  proof (cases "has_key (drv_map od) obj")
    case True
    then obtain ko where ko: "dd_get (drv_map od) obj = [ko]"
      using assms(2) by (auto simp: single_modules_def length_Suc_conv)
    then have "mset (dd_get (drv_map od') obj) = mset [ko]" using assms(1) by (simp add: reordered_def flip: ko)
    with ko show ?thesis by simp
  next
    case False
    then have "\<not> has_key (drv_map od') obj" using assms(1) by (simp add: reordered_def)
    with False show ?thesis by (simp add: has_key_iff dd_get_outside)
  qed
  show "single_modules od'"
    using assms(2) reordered_key [OF assms(1)] unfolding single_modules_def same by blast
qed

subsection \<open>The queries on reordered tables\<close>

lemma foldE_returns:
  assumes "\<And>x u. x \<in> set xs \<Longrightarrow> \<exists>v. f x u = Inr v"
  shows "\<exists>v. foldE f xs s = Inr v"
  using assms
proof (induction xs arbitrary: s)
  case (Cons x xs)
  from Cons.prems [of x s] obtain u where "f x s = Inr u" by auto
  moreover have "\<exists>v. foldE f xs u = Inr v" using Cons.prems by (intro Cons.IH) simp
  ultimately show ?case by simp
qed simp

lemma mapE_returns:
  assumes "\<And>x. x \<in> set xs \<Longrightarrow> \<exists>y. f x = Inr y"
  shows "\<exists>ys. mapE f xs = Inr ys"
  using assms
proof (induction xs)
  case (Cons x xs)
  from Cons.prems [of x] obtain y where "f x = Inr y" by auto
  moreover from Cons obtain ys where "mapE f xs = Inr ys" by auto
  ultimately show ?case by simp
qed simp

lemma single_mods:
  assumes "single_modules od"
  shows "\<exists>m. rel_mod od md = Inr m" and "\<exists>k. caller_mod od cmod = Inr k"
proof -
  have one: "has_key (drv_map od) obj \<Longrightarrow> \<exists>ko. dd_get (drv_map od) obj = [ko]" for obj
    using assms by (auto simp: single_modules_def length_Suc_conv)
  from one [of md] show "\<exists>m. rel_mod od md = Inr m" by (auto simp: rel_mod_def)
  from one [of cmod] show "\<exists>k. caller_mod od cmod = Inr k" by (auto simp: caller_mod_def)
qed

lemma related_total:
  assumes "single_modules od"
  shows "\<exists>r. related od md name = Inr r"
proof -
  have callers: "\<exists>cs. rel_callers od s = Inr cs" for s
  proof -
    have "\<exists>y. (\<lambda>(caller, cmod). bindE (caller_mod od cmod) (\<lambda>k. Inr (caller, k))) x = Inr y" for x
      using single_mods(2) [OF assms, of "snd x"] by (cases x) auto
    then have "\<exists>ys. mapE (\<lambda>(caller, cmod). bindE (caller_mod od cmod) (\<lambda>k. Inr (caller, k))) xs = Inr ys" for xs
      by (intro mapE_returns) blast
    then show ?thesis by (simp add: rel_callers_def)
  qed
  have sym: "\<exists>v. rel_sym od s u = Inr v" for s u
  proof -
    obtain m cand where u: "u = (m, cand)" by (cases u)
    obtain m' cs where "rel_mod od m = Inr m'" "rel_callers od s = Inr cs"
      using single_mods(1) [OF assms] callers by blast
    then show ?thesis by (simp add: u rel_sym_pair)
  qed
  have testmod: "\<exists>v. rel_testmod od m u = Inr v" for m u
  proof -
    obtain v where "foldE (rel_sym od) (dd_get (export_table od) m) (m, u) = Inr v"
      using foldE_returns [of _ "rel_sym od"] sym by blast
    then show ?thesis by (cases v) (simp add: rel_testmod_def)
  qed
  obtain v where "foldE (rel_testmod od) (testmods od md) [] = Inr v"
    using foldE_returns [of _ "rel_testmod od"] testmod by blast
  then show ?thesis by (simp add: related_def)
qed

lemma related_is_none: "single_modules od \<Longrightarrow> related od md name = Inr None \<longleftrightarrow> md \<notin> set (dd_get (mod_map od) name)"
  using related_total [of od md name] by (auto simp: related_def bindE_Inr_iff)

definition reordering :: "objdeps \<Rightarrow> objdeps \<Rightarrow> bool" where
  "reordering od od' \<longleftrightarrow> reordered_tables od od' \<and> single_modules od \<and> modules_apart od"

lemma reordering_drv:
  assumes "reordering od od'"
  shows "dd_get (drv_map od') obj = dd_get (drv_map od) obj" and "has_key (drv_map od') obj = has_key (drv_map od) obj"
    and "single_modules od'" and "modules_apart od'"
proof -
  from assms have re: "reordered (drv_map od) (drv_map od')" and single: "single_modules od" and apart: "modules_apart od"
    by (simp_all add: reordering_def reordered_tables_def)
  show get: "dd_get (drv_map od') obj = dd_get (drv_map od) obj" for obj using re single by (rule reordered_drv)
  show key: "has_key (drv_map od') obj = has_key (drv_map od) obj" for obj using re by (rule reordered_key)
  show "single_modules od'" using re single by (rule reordered_drv)
  show "modules_apart od'" using apart by (simp add: modules_apart_def get key)
qed

lemma reordering_back: "reordering od od' \<Longrightarrow> reordering od' od"
  using reordering_drv(3,4) reordered_tables_sym unfolding reordering_def by blast

lemma reordering_sets:
  assumes "reordering od od'"
  shows "set (dd_get (obj_build_revdeps od') k) = set (dd_get (obj_build_revdeps od) k)"
    "set (dd_get (import_table od') k) = set (dd_get (import_table od) k)"
    "set (dd_get (export_table od') k) = set (dd_get (export_table od) k)"
    "set (dd_get (frevdep_map od') k) = set (dd_get (frevdep_map od) k)"
    "set (dd_get (mod_map od') k) = set (dd_get (mod_map od) k)"
    "has_key (import_table od') k = has_key (import_table od) k"
    "refs_of od' k f = refs_of od k f" "is_ir_mod od' k = is_ir_mod od k"
  using assms by (simp_all add: reordering_def reordered_tables_def refs_of_def is_ir_mod_def reordered_key
      reordered_set [of _ "obj_build_revdeps od'"] reordered_set [of _ "import_table od'"]
      reordered_set [of _ "export_table od'"] reordered_set [of _ "frevdep_map od'"] reordered_set [of _ "mod_map od'"])

lemma reordering_mods: "reordering od od' \<Longrightarrow> rel_mod od' = rel_mod od \<and> caller_mod od' = caller_mod od"
  by (simp add: rel_mod_def caller_mod_def reordering_drv fun_eq_iff)

lemma reordering_callers:
  assumes "reordering od od'" and "related od md name = Inr (Some fd)" and "related od' md name = Inr (Some fd')"
  shows "set (dd_get fd' k) = set (dd_get fd k)"
proof -
  have apart: "modules_apart od" "modules_apart od'"
    using assms(1) reordering_drv(4) [OF assms(1)] by (simp_all add: reordering_def)
  have "calls_from od' rs = calls_from od rs" for rs
    by (simp add: calls_from_def reordering_sets [OF assms(1)] reordering_mods [OF assms(1)])
  then show ?thesis
    by (cases k) (simp add: related_callers [OF assms(2) apart(1)] related_callers [OF assms(3) apart(2)]
        reordering_sets [OF assms(1)] reordering_mods [OF assms(1)])
qed

lemma reordering_none: "reordering od od' \<Longrightarrow> related od' md name = Inr None \<longleftrightarrow> related od md name = Inr None"
  by (simp add: related_is_none reordering_sets reordering_drv(3)) (simp add: reordering_def related_is_none)

lemma reordering_some:
  assumes "reordering od od'" and "related od md name = Inr (Some fd)"
  obtains fd' where "related od' md name = Inr (Some fd')"
proof -
  obtain r where r: "related od' md name = Inr r" using related_total [OF reordering_drv(3) [OF assms(1)]] by blast
  moreover from assms(2) r reordering_none [OF assms(1), of md name] have "r \<noteq> None" by auto
  ultimately show ?thesis using that by blast
qed

lemma reordering_entry:
  assumes "reordering od od'" and "related od md name = Inr (Some fd)" and "related od' md name = Inr (Some fd')"
    and "(k, cs) \<in> set fd"
  shows "\<exists>cs'. (k, cs') \<in> set fd' \<and> set cs' = set cs"
proof -
  from assms(4) have cs: "cs = dd_get fd k" "cs \<noteq> []" unfolding related_entry [OF assms(2)] by blast+
  then have "set (dd_get fd' k) = set cs" by (simp add: reordering_callers [OF assms(1-3)])
  moreover from this cs(2) have "dd_get fd' k \<noteq> []" by auto
  ultimately show ?thesis unfolding related_entry [OF assms(3)] by blast
qed

lemma patchable_into:
  assumes "reordering od od'" and "c \<in> patchable od C I"
  shows "c \<in> patchable od' C I"
  using assms(2)
proof (induction rule: patchable.induct)
  case (lone c fd)
  have "\<exists>fd'. related od' (fst c) (snd c) = Inr fd' \<and> opt_set fd' = {}"
  proof (cases fd)
    case None
    with lone(2) have "related od' (fst c) (snd c) = Inr None" by (simp add: reordering_none [OF assms(1)])
    then show ?thesis by simp
  next
    case (Some l)
    with lone(2,3) have l: "related od (fst c) (snd c) = Inr (Some [])" by simp
    with assms(1) obtain fd' where fd': "related od' (fst c) (snd c) = Inr (Some fd')" by (rule reordering_some)
    have "set (dd_get fd' k) = {}" for k using reordering_callers [OF assms(1) l fd'] by simp
    then have "x \<notin> set fd'" for x using related_entry [OF fd', of "fst x" "snd x"] by (cases x) auto
    then have "fd' = []" by (cases fd') auto
    with fd' show ?thesis by simp
  qed
  then obtain fd' where "related od' (fst c) (snd c) = Inr fd'" "opt_set fd' = {}" by blast
  with lone(1,4,5) show ?case by (intro patchable.lone [where fd = fd']) (simp_all add: reordering_sets [OF assms(1)])
next
  case (related c fd f md callers)
  from assms(1) related(2) obtain fd' where fd': "related od' (fst c) (snd c) = Inr (Some fd')" by (rule reordering_some)
  from reordering_entry [OF assms(1) related(2) fd' related(3)]
  obtain cs' where "((f, md), cs') \<in> set fd'" "set cs' = set callers" by blast
  with related(1,4-6) fd' show ?case
    by (intro patchable.related [where fd = fd' and callers = cs']) (auto simp: reordering_sets [OF assms(1)])
qed (rule patchable.start)

lemma around_into:
  assumes "reordering od od'" and "related od (fst c) (snd c) = Inr (Some fd)"
    and "related od' (fst c) (snd c) = Inr (Some fd')" and "e \<in> set fd"
  shows "\<exists>e' \<in> set fd'. around od' c e' = around od c e"
proof -
  obtain relf relmod cs where e: "e = ((relf, relmod), cs)" by (metis surj_pair)
  from reordering_entry [OF assms(1-3) assms(4) [unfolded e]]
  obtain cs' where "((relf, relmod), cs') \<in> set fd'" "set cs' = set cs" by blast
  moreover have "imported od' relmod = imported od relmod" by (simp add: imported_def reordering_sets [OF assms(1)])
  ultimately show ?thesis
    by (intro bexI [of _ "((relf, relmod), cs')"]) (simp_all add: around_def e reordering_sets [OF assms(1)])
qed

lemma near_into:
  assumes "reordering od od'"
  shows "near od c \<subseteq> near od' c"
proof -
  have imp: "imported od' (fst c) = imported od (fst c)" by (simp add: imported_def reordering_sets [OF assms])
  have "single_modules od" using assms by (simp add: reordering_def)
  then obtain r where r: "related od (fst c) (snd c) = Inr r" using related_total by blast
  show ?thesis
  proof (cases r)
    case None
    then show ?thesis using r by (simp add: near_def imp)
  next
    case (Some fd)
    with r have fd: "related od (fst c) (snd c) = Inr (Some fd)" by simp
    with assms obtain fd' where fd': "related od' (fst c) (snd c) = Inr (Some fd')" by (rule reordering_some)
    have "(\<Union>e \<in> set fd. around od c e) \<subseteq> (\<Union>e \<in> set fd'. around od' c e)"
      using around_into [OF assms fd fd'] by blast
    then show ?thesis unfolding near_def fd fd' sum.case option.case reordering_callers [OF assms fd fd'] imp by blast
  qed
qed

text \<open>A reordering can be undone, so the inclusions are equations.\<close>

lemma reordering_same:
  assumes "reordering od od'"
  shows "patchable od' C I = patchable od C I" and "near od' c = near od c"
  using patchable_into [OF assms] patchable_into [OF reordering_back [OF assms]]
    near_into [OF assms] near_into [OF reordering_back [OF assms]] by blast+

lemma built_apart: "mk_objdeps fs src build bt = Inr od \<Longrightarrow> modules_apart od"
  using mk_objdeps_named named_final final_apart by blast

subsection \<open>Properties\<close>

text \<open>
  C4: the result does not depend on the order in which sets are visited, when no object belongs to two
  modules: for tables of \<open>ObjDeps\<close> whose sets and keys come in another order, for any order of the
  checklist and of the initial functions and for any order in which the loop visits the candidates,
  \<open>check_fdep\<close> finds the same two sets of functions.
\<close>

theorem check_fdep_order:
  assumes "mk_objdeps fs linux_src linux_build bt = Inr od" and "single_modules od" and "reordered_tables od od'"
    and "set cl' = set cl" and "set ps' = set ps" and "check_fdep cl ps od = Inr (rf, rk)"
  shows "\<exists>cs. populate od' cl' = Inr cs \<and> (\<forall>cs'. set cs' = set cs \<longrightarrow>
    (\<exists>rf' rk'. close_fdep od' cs' ps' = Inr (rf', rk') \<and> set rf' = set rf \<and> set rk' = set rk))"
proof -
  have re: "reordering od od'" using assms(2,3) built_apart [OF assms(1)] by (simp add: reordering_def)
  note total = related_total [OF reordering_drv(3) [OF re]]
  from check_fdep_parts [OF assms(6)] obtain cs0 where cs0: "populate od cl = Inr cs0"
    and sets: "set rf = {f. \<exists>md. (md, f) \<in> patchable od (set cs0) (set ps) \<and> endswith md ''.o''}"
      "set rk = {(f, md). (md, f) \<in> patchable od (set cs0) (set ps) \<and> \<not> endswith md ''.o''}" by blast
  obtain cs where cs: "populate od' cl' = Inr cs" using populate_returns [of od' cl'] total by blast
  have same: "set cs = set cs0"
    using set_populate [OF cs] set_populate [OF cs0] assms(4) by (simp add: reordering_same(2) [OF re])
  have "\<exists>rf' rk'. close_fdep od' cs' ps' = Inr (rf', rk') \<and> set rf' = set rf \<and> set rk' = set rk"
    if "set cs' = set cs" for cs'
  proof -
    obtain rf' rk' where r: "close_fdep od' cs' ps' = Inr (rf', rk')"
      using close_fdep_returns [of od' cs' ps'] total by force
    from close_fdep_sets [OF r] show ?thesis
      using r by (simp add: that same assms(5) sets reordering_same(1) [OF re])
  qed
  with cs show ?thesis by blast
qed

text \<open>The tables of the small kernel, visited in another order.\<close>

definition demo_reordered :: objdeps where
  "demo_reordered = demo_kernel\<lparr>
     export_table := [(''/b/drv/d.o'', [''d_init'']), (''/b/l.o'', [''lib_f'', ''lib_h'', ''lib_g'', ''lib_k'']), (''/b/x.o'', [''x_main''])],
     fdep_map := rev (fdep_map demo_kernel), frevdep_map := rev (frevdep_map demo_kernel)\<rparr>"

lemma demo_tables_reordered: "reordered_tables demo_kernel demo_reordered"
  by (simp add: reordered_tables_def demo_reordered_def demo_kernel_def empty_objdeps_def reordered_def has_key_def dd_get_def)

theorem check_fdep_order_witness:
  "\<exists>cs. populate demo_reordered [(''/b/l.o'', ''lib_g'')] = Inr cs \<and> (\<forall>cs'. set cs' = set cs \<longrightarrow>
    (\<exists>rf' rk'. close_fdep demo_reordered cs' [(''/b/l.o'', ''lib_g''), (''/b/l.o'', ''lib_g'')] = Inr (rf', rk') \<and>
      set rf' = set [''lib_g'', ''lib_h'', ''lib_f''] \<and> set rk' = set [(''d_init'', ''/b/drv/m.ko'')]))"
proof (rule check_fdep_order [OF demo_kernel_built _ demo_tables_reordered _ _ demo_kernel_fdep])
  show "single_modules demo_kernel"
    by (simp add: single_modules_def demo_kernel_def empty_objdeps_def has_key_def dd_get_def)
qed simp_all

text \<open>
  With an object in two modules the result does depend on the order: \<open>related\<close> gives its functions to
  the module that happens to come first.
\<close>

lemma shared_object_order:
  "check_fdep [(''/b/l.o'', ''lib_g'')] [(''/b/l.o'', ''lib_g'')]
     (demo_kernel\<lparr>drv_map := [(''/b/drv/d.o'', [''/b/drv/m.ko'', ''/b/drv/n.ko''])]\<rparr>) =
     Inr ([''lib_g'', ''lib_h'', ''lib_f''], [(''d_init'', ''/b/drv/m.ko'')]) \<and>
   check_fdep [(''/b/l.o'', ''lib_g'')] [(''/b/l.o'', ''lib_g'')]
     (demo_kernel\<lparr>drv_map := [(''/b/drv/d.o'', [''/b/drv/n.ko'', ''/b/drv/m.ko''])]\<rparr>) =
     Inr ([''lib_g'', ''lib_h'', ''lib_f''], [(''d_init'', ''/b/drv/n.ko'')])"
  by code_simp

end
