(* ===== verification/Target.thy ===== *)
theory Target
  imports ModDeps "HOL-Library.Char_ord" "HOL-Library.List_Lexorder"
begin

section \<open>The target image: kernel, modules, symbols\<close>

text \<open>
  The functions of \<open>kernel_patch/hwfilter.py\<close> that look at the mounted image: the name and version
  of its kernel, its initial ramdisk, the modules and symbols it holds, and which module files are
  removed or counted. Symbolic links and \<open>glob\<close> are parameters: \<open>link p\<close> is where a symbolic link
  at \<open>p\<close> points, \<open>globs pat\<close> the paths a pattern expands to.
\<close>

subsection \<open>Kernel\<close>

text \<open>Strings compare by their characters' codes; \<open>max\<close> of an empty list raises.\<close>

fun max_str :: "str list \<Rightarrow> str res" where
  "max_str [] = Inl ValueError"
| "max_str (s # ss) = Inr (fold max ss s)"

definition get_kernel :: "fsys \<Rightarrow> (str \<Rightarrow> str option) \<Rightarrow> (str \<Rightarrow> str list) \<Rightarrow> str \<Rightarrow> str res" where
  "get_kernel fs link globs check_dir =
     (let boot = path_join check_dir ''boot'';
          kern = path_join boot ''vmlinuz'';
          kern = (case link kern of Some p \<Rightarrow> p | None \<Rightarrow> kern)
      in bindE (if \<not> fs_exists fs (path_join boot (basename kern))
                then max_str (globs (path_join boot ''vmlinuz-*'')) else Inr kern)
           (\<lambda>k. Inr (basename k)))"

text \<open>
  The pattern \<open>vmlinu[zx]-([0-9]\.[0-9]*\.[0-9]*-[0-9]*.*)\<close>: each run of digits is maximal, since a
  character that is no digit follows it, and \<open>.*\<close> takes the rest of the line.
\<close>

fun version_digits :: "str \<Rightarrow> str \<Rightarrow> bool" where
  "version_digits seps [] \<longleftrightarrow> seps = []"
| "version_digits [] (c # v) \<longleftrightarrow> True"
| "version_digits (s # seps) (c # v) \<longleftrightarrow>
     (if c = s then version_digits seps v else is_digit c \<and> version_digits (s # seps) v)"

definition is_release :: "str \<Rightarrow> bool" where
  "is_release v \<longleftrightarrow> (case v of
       d # p # r \<Rightarrow> is_digit d \<and> p = CHR ''.'' \<and> version_digits ''.-'' r
     | _ \<Rightarrow> False)"

definition kernel_release :: "str \<Rightarrow> str res" where
  "kernel_release kern =
     (if (startswith kern ''vmlinuz-'' \<or> startswith kern ''vmlinux-'') \<and> is_release (drop 8 kern)
      then Inr (takeWhile (\<lambda>c. c \<noteq> CHR 0x0A) (drop 8 kern))
      else Inl AssertionError)"

definition get_kernel_ver :: "fsys \<Rightarrow> (str \<Rightarrow> str option) \<Rightarrow> (str \<Rightarrow> str list) \<Rightarrow> str \<Rightarrow> str res" where
  "get_kernel_ver fs link globs check_dir = bindE (get_kernel fs link globs check_dir) kernel_release"

text \<open>The first of the three names a distribution may use.\<close>

definition initrd_names :: "str \<Rightarrow> str list" where
  "initrd_names ver = [''initramfs-'' @ ver @ ''.img'', ''initrd.img-'' @ ver, ''initrd-'' @ ver]"

definition get_initrd ::
    "fsys \<Rightarrow> (str \<Rightarrow> str option) \<Rightarrow> (str \<Rightarrow> str list) \<Rightarrow> str \<Rightarrow> str option res" where
  "get_initrd fs link globs check_dir = bindE (get_kernel_ver fs link globs check_dir) (\<lambda>mod_ver.
     Inr (find (fs_exists fs) (map (path_join (path_join check_dir ''boot'')) (initrd_names mod_ver))))"

subsection \<open>Modules and symbols\<close>

definition mod_dir_of :: "str \<Rightarrow> str \<Rightarrow> str" where
  "mod_dir_of check_dir ver = path_join (path_join check_dir ''lib/modules/'') ver"

definition disk_mods :: "str \<Rightarrow> walk \<Rightarrow> (str \<times> str) list" where
  "disk_mods mod_dir w = fold (\<lambda>(root, fn) acc.
     let m = norm_mod fn in
     if endswith m ''.ko'' then List.insert (m, path_join (drop (length mod_dir) root) fn) acc else acc)
     (walk_files w) []"

definition sym_line :: "str \<Rightarrow> (int \<times> str \<times> str) res" where
  "sym_line line = (case split_ws line of
       [addr, ty, name] \<Rightarrow> bindE (int16 addr) (\<lambda>a. Inr (a, ty, name))
     | _ \<Rightarrow> Inl ValueError)"

text \<open>The types of function symbols.\<close>

definition func_types :: "str list" where
  "func_types = [''T'', ''t'', ''W'', ''w'']"

definition get_target_info ::
    "fsys \<Rightarrow> (str \<Rightarrow> str option) \<Rightarrow> (str \<Rightarrow> str list) \<Rightarrow> str \<Rightarrow> str option \<Rightarrow>
     ((str \<times> str) list \<times> (int \<times> str \<times> str) list) res" where
  "get_target_info fs link globs check_dir sysmap = bindE (get_kernel_ver fs link globs check_dir) (\<lambda>mod_ver.
     let mod_dir = mod_dir_of check_dir mod_ver;
          mods = disk_mods mod_dir (fs_walk fs mod_dir);
          dflt = path_join (path_join check_dir ''boot'') (''System.map-'' @ mod_ver);
          p = (case sysmap of None \<Rightarrow> dflt | Some s \<Rightarrow> if s = [] then dflt else s)
      in bindE (read_text fs p) (\<lambda>data.
         bindE (mapE sym_line (lines_of (strip data))) (\<lambda>symtab. Inr (mods, symtab))))"

definition load_alldrv :: "walk \<Rightarrow> pyset" where
  "load_alldrv w = fold (\<lambda>(_, f) acc. if endswith f ''.mod'' then List.insert (chop 4 f) acc else acc)
     (walk_files w) []"

text \<open>\<open>load_alldrv_with_path\<close>: \<open>relpath root\<close> is the directory's path below the build directory.\<close>

definition load_alldrv_with_path :: "(str \<Rightarrow> str) \<Rightarrow> walk \<Rightarrow> pyset dict" where
  "load_alldrv_with_path relpath w = fold (\<lambda>(root, f) t.
     if endswith f ''.mod'' then dd_add (chop 4 f) (path_join (relpath root) f) t else t)
     (walk_files w) []"

subsection \<open>Removing module files\<close>

text \<open>
  A file is removed when its name up to the first dot, or that name with dashes as underscores, is
  among the modules to remove.
\<close>

definition is_removed :: "pyset \<Rightarrow> str \<Rightarrow> bool" where
  "is_removed rmmods f \<longleftrightarrow> stem_of f \<in> set rmmods \<or> dash_to_us (stem_of f) \<in> set rmmods"

definition remove_module :: "pyset \<Rightarrow> walk \<Rightarrow> walk" where
  "remove_module rmmods w = map (\<lambda>(root, files). (root, filter (\<lambda>f. \<not> is_removed rmmods f) files)) w"

definition calc_module_size :: "(str \<Rightarrow> nat) \<Rightarrow> pyset \<Rightarrow> walk \<Rightarrow> nat" where
  "calc_module_size getsize rmmods w = fold (\<lambda>(root, f) total.
     if is_removed rmmods f then total + getsize (path_join root f) else total) (walk_files w) 0"

definition calc_module_count :: "pyset \<Rightarrow> walk \<Rightarrow> nat \<times> nat" where
  "calc_module_count rmmods w = fold (\<lambda>(root, f) (rm_cnt, total_cnt).
     if ''ko'' \<notin> set (split_char (CHR ''.'') f) then (rm_cnt, total_cnt)
     else (if is_removed rmmods f then rm_cnt + 1 else rm_cnt, total_cnt + 1)) (walk_files w) (0, 0)"

text \<open>\<open>patch_initrd\<close> leaves out the modules whose name contains a filter key.\<close>

definition filter_rmmods :: "str list \<Rightarrow> pyset \<Rightarrow> pyset" where
  "filter_rmmods filter_key rmmods =
     (if filter_key = [] then rmmods
      else filter (\<lambda>m. True \<notin> set (map (\<lambda>fk. occurs fk m) filter_key)) rmmods)"

subsection \<open>Lemmas\<close>

lemma disk_mods_ko:
  "(m, p) \<in> set (disk_mods md w) \<Longrightarrow> endswith m ''.ko''"
proof -
  have "\<forall>x \<in> set (disk_mods md w). endswith (fst x) ''.ko''"
    unfolding disk_mods_def Let_def
    by (rule fold_keeps) (auto split: prod.splits)
  then show "(m, p) \<in> set (disk_mods md w) \<Longrightarrow> endswith m ''.ko''" by auto
qed

lemma walk_files_remove:
  "walk_files (remove_module rm w) = filter (\<lambda>(_, f). \<not> is_removed rm f) (walk_files w)"
  by (induction w) (auto simp: walk_files_def remove_module_def filter_map comp_def)

lemma version_digits_ok:
  assumes "list_all is_digit a" and "list_all is_digit b"
  shows "version_digits ''.-'' (a @ CHR ''.'' # b @ CHR ''-'' # c)"
proof -
  have nd: "\<not> is_digit (CHR ''.'')" "\<not> is_digit (CHR ''-'')" by (simp_all add: is_digit_def)
  have rest: "version_digits [] v" for v by (cases v) simp_all
  have "version_digits ''-'' (b @ CHR ''-'' # c)"
    using assms(2) by (induction b) (auto simp: nd rest)
  then show ?thesis using assms(1) by (induction a) (auto simp: nd)
qed

lemma module_size_sum:
  "calc_module_size g rm w = (\<Sum>(root, f) \<leftarrow> filter (\<lambda>(_, f). is_removed rm f) (walk_files w). g (path_join root f))"
proof -
  have "fold (\<lambda>(root, f) total. if is_removed rm f then total + g (path_join root f) else total) fs n =
      n + (\<Sum>(root, f) \<leftarrow> filter (\<lambda>(_, f). is_removed rm f) fs. g (path_join root f))" for fs n
    by (induction fs arbitrary: n) auto
  then show ?thesis by (simp add: calc_module_size_def)
qed

definition is_module_file :: "str \<Rightarrow> bool" where
  "is_module_file f \<longleftrightarrow> ''ko'' \<in> set (split_char (CHR ''.'') f)"

lemma module_count_filter:
  "calc_module_count rm w =
     (length (filter (\<lambda>(_, f). is_module_file f \<and> is_removed rm f) (walk_files w)),
      length (filter (\<lambda>(_, f). is_module_file f) (walk_files w)))"
proof -
  have "fold (\<lambda>(root, f) (rm_cnt, total_cnt).
       if ''ko'' \<notin> set (split_char (CHR ''.'') f) then (rm_cnt, total_cnt)
       else (if is_removed rm f then rm_cnt + 1 else rm_cnt, total_cnt + 1)) fs (a, b) =
     (a + length (filter (\<lambda>(_, f). is_module_file f \<and> is_removed rm f) fs),
      b + length (filter (\<lambda>(_, f). is_module_file f) fs))" for fs :: "(str \<times> str) list" and a b
    by (induction fs arbitrary: a b) (auto simp: is_module_file_def)
  from this [of "walk_files w" 0 0] show ?thesis by (simp add: calc_module_count_def)
qed

lemma sum_list_partition:
  "(\<Sum>x \<leftarrow> filter P xs. h x) + (\<Sum>x \<leftarrow> filter (\<lambda>x. \<not> P x) xs. h x) = (\<Sum>x \<leftarrow> xs. h x :: nat)"
  by (induction xs) auto

lemma length_partition:
  "length (filter (\<lambda>x. P x \<and> Q x) xs) + length (filter (\<lambda>x. P x \<and> \<not> Q x) xs) = length (filter P xs)"
  by (induction xs) auto

lemma takeWhile_all: "c \<notin> set s \<Longrightarrow> takeWhile (\<lambda>d. d \<noteq> c) s = s"
  by (induction s) auto

subsection \<open>Properties\<close>

text \<open>
  What is counted is what is removed: the size of the modules to remove and the size of the files
  \<open>remove_module\<close> leaves add up to the size of all files; the modules counted as removed and the
  modules it leaves add up to all modules; and nothing is left to remove.
\<close>

theorem removal_counted:
  "calc_module_size getsize rm w + (\<Sum>(root, f) \<leftarrow> walk_files (remove_module rm w). getsize (path_join root f)) =
     (\<Sum>(root, f) \<leftarrow> walk_files w. getsize (path_join root f)) \<and>
   fst (calc_module_count rm w) + snd (calc_module_count rm (remove_module rm w)) = snd (calc_module_count rm w) \<and>
   fst (calc_module_count rm (remove_module rm w)) = 0 \<and> calc_module_size getsize rm (remove_module rm w) = 0"
proof (intro conjI)
  have neg: "(\<lambda>(x, f). \<not> is_removed rm f) = (\<lambda>x. \<not> (case x of (r, f) \<Rightarrow> is_removed rm f))"
    by (auto simp: fun_eq_iff)
  show "calc_module_size getsize rm w + (\<Sum>(root, f) \<leftarrow> walk_files (remove_module rm w). getsize (path_join root f)) =
     (\<Sum>(root, f) \<leftarrow> walk_files w. getsize (path_join root f))"
    unfolding module_size_sum walk_files_remove neg by (rule sum_list_partition)
  have "length (filter (\<lambda>(_, f). is_module_file f \<and> is_removed rm f) fs) +
      length (filter (\<lambda>(_, f). \<not> is_removed rm f \<and> is_module_file f) fs) =
      length (filter (\<lambda>(_, f). is_module_file f) fs)" for fs :: "(str \<times> str) list"
    by (induction fs) auto
  then show "fst (calc_module_count rm w) + snd (calc_module_count rm (remove_module rm w)) = snd (calc_module_count rm w)"
    by (simp add: module_count_filter walk_files_remove case_prod_unfold conj_commute)
qed (auto simp: module_count_filter module_size_sum walk_files_remove case_prod_unfold filter_empty_conv)

text \<open>
  The release in a kernel's file name is read back: for names \<open>vmlinuz-x.y.z-rest\<close> with one digit
  \<open>x\<close> and numbers \<open>y\<close> and \<open>z\<close> the release is all that follows the prefix, so that the
  directory \<open>lib/modules/x.y.z-rest\<close> and the file \<open>System.map-x.y.z-rest\<close> are looked up.
\<close>

theorem kernel_release_name:
  assumes "is_digit x" and "list_all is_digit y" and "list_all is_digit z" and "CHR 0x0A \<notin> set rest"
    and "k \<in> {''vmlinuz-'', ''vmlinux-''}"
  shows "kernel_release (k @ x # CHR ''.'' # y @ CHR ''.'' # z @ CHR ''-'' # rest) =
    Inr (x # CHR ''.'' # y @ CHR ''.'' # z @ CHR ''-'' # rest)"
proof -
  let ?v = "x # CHR ''.'' # y @ CHR ''.'' # z @ CHR ''-'' # rest"
  have "is_release ?v" using assms(1) version_digits_ok [OF assms(2,3)] by (simp add: is_release_def)
  moreover have "CHR 0x0A \<notin> set ?v"
    using assms(1-4) by (auto simp: list_all_iff is_digit_def)
  ultimately show ?thesis using assms(5) by (auto simp: kernel_release_def takeWhile_all simp del: takeWhile.simps)
qed

theorem kernel_release_name_witness:
  "kernel_release (''vmlinuz-'' @ CHR ''5'' # CHR ''.'' # ''15'' @ CHR ''.'' # ''0'' @ CHR ''-'' # ''91-generic'') =
     Inr ''5.15.0-91-generic''"
  using kernel_release_name [of "CHR ''5''" "''15''" "''0''" "''91-generic''" "''vmlinuz-''"]
  by (simp add: is_digit_def)

end
