(* ===== verification/PyRegex.thy ===== *)
theory PyRegex
  imports PyDict
begin

section \<open>Regular expressions\<close>

text \<open>
  The fragment of \<open>re\<close> that device signatures use once their \<open>*\<close> and \<open>?\<close> are rewritten:
  literal characters, \<open>.\<close>, character classes, each with an optional \<open>*\<close>, \<open>+\<close> or \<open>?\<close>. A pattern
  with groups, alternatives, anchors, braces or escapes compiles to \<open>Unmodelled\<close>; a pattern Python
  refuses raises \<open>ReError\<close>. \<open>rx_match r s\<close> is the truth value of \<open>re.match\<close>: some prefix of \<open>s\<close>
  matches.
\<close>

datatype rx_atom = Lit char | AnyChar | Class bool "(char \<times> char) list"

datatype quant = One | Star | Plus | Opt

type_synonym rx = "(rx_atom \<times> quant) list"

definition code_of :: "char \<Rightarrow> nat" where
  "code_of c = of_char c"

fun atom_ok :: "rx_atom \<Rightarrow> char \<Rightarrow> bool" where
  "atom_ok (Lit d) c \<longleftrightarrow> c = d"
| "atom_ok AnyChar c \<longleftrightarrow> c \<noteq> CHR 0x0A"
| "atom_ok (Class neg rs) c \<longleftrightarrow>
     list_ex (\<lambda>(a, b). code_of a \<le> code_of c \<and> code_of c \<le> code_of b) rs \<noteq> neg"

fun rx_match :: "rx \<Rightarrow> str \<Rightarrow> bool" where
  "rx_match [] s \<longleftrightarrow> True"
| "rx_match ((a, One) # r) [] \<longleftrightarrow> False"
| "rx_match ((a, One) # r) (c # cs) \<longleftrightarrow> atom_ok a c \<and> rx_match r cs"
| "rx_match ((a, Opt) # r) [] \<longleftrightarrow> rx_match r []"
| "rx_match ((a, Opt) # r) (c # cs) \<longleftrightarrow> rx_match r (c # cs) \<or> atom_ok a c \<and> rx_match r cs"
| "rx_match ((a, Star) # r) [] \<longleftrightarrow> rx_match r []"
| "rx_match ((a, Star) # r) (c # cs) \<longleftrightarrow>
     rx_match r (c # cs) \<or> atom_ok a c \<and> rx_match ((a, Star) # r) cs"
| "rx_match ((a, Plus) # r) [] \<longleftrightarrow> False"
| "rx_match ((a, Plus) # r) (c # cs) \<longleftrightarrow> atom_ok a c \<and> rx_match ((a, Star) # r) cs"

subsection \<open>Compiling a pattern\<close>

text \<open>The inside of a character class, after \<open>[\<close> and \<open>^\<close>, up to its closing bracket.\<close>

fun class_items :: "str \<Rightarrow> ((char \<times> char) list \<times> str) res" where
  "class_items [] = Inl ReError"
| "class_items (c # cs) =
     (if c = CHR '']'' then Inr ([], cs)
      else if c = CHR 0x5C then Inl Unmodelled
      else (case cs of
              d # e # es \<Rightarrow>
                if d = CHR ''-'' \<and> e \<noteq> CHR '']''
                then (if e = CHR 0x5C then Inl Unmodelled
                      else if code_of e < code_of c then Inl ReError
                      else bindE (class_items es) (\<lambda>(rs, rest). Inr ((c, e) # rs, rest)))
                else bindE (class_items cs) (\<lambda>(rs, rest). Inr ((c, c) # rs, rest))
            | _ \<Rightarrow> bindE (class_items cs) (\<lambda>(rs, rest). Inr ((c, c) # rs, rest))))"

definition parse_class :: "str \<Rightarrow> (rx_atom \<times> str) res" where
  "parse_class s =
     (let neg = startswith s ''^''; body = (if neg then drop 1 s else s)
      in if startswith body '']'' then Inl Unmodelled
         else bindE (class_items body) (\<lambda>(rs, rest). Inr (Class neg rs, rest)))"

definition parse_atom :: "char \<Rightarrow> str \<Rightarrow> (rx_atom \<times> str) res" where
  "parse_atom c cs =
     (if c = CHR ''.'' then Inr (AnyChar, cs)
      else if c = CHR ''['' then parse_class cs
      else if c \<in> set ''*+?'' then Inl ReError
      else if c \<in> set ''(){}|^$'' \<or> c = CHR 0x5C then Inl Unmodelled
      else Inr (Lit c, cs))"

definition parse_quant :: "str \<Rightarrow> (quant \<times> str) res" where
  "parse_quant s = (case s of
       [] \<Rightarrow> Inr (One, [])
     | c # cs \<Rightarrow>
         if c \<in> set ''*+?''
         then (if cs \<noteq> [] \<and> hd cs = CHR ''*'' then Inl ReError
               else if cs \<noteq> [] \<and> hd cs \<in> set ''+?'' then Inl Unmodelled
               else Inr (if c = CHR ''*'' then Star else if c = CHR ''+'' then Plus else Opt, cs))
         else Inr (One, s))"

lemmas class_items_step = class_items.simps(2)

declare class_items.simps(2) [simp del]

lemma class_items_shorter: "class_items s = Inr (rs, rest) \<Longrightarrow> length rest < length s"
proof (induction "length s" arbitrary: s rs rest rule: less_induct)
  case less
  have step: "length rest' < length t"
    if "class_items t = Inr (rs', rest')" and "length t < length s" for t rs' rest'
    using less.hyps that by blast
  show ?case
  proof (cases s)
    case (Cons c cs)
    show ?thesis
    proof (cases "c = CHR '']'' \<or> c = CHR 0x5C")
      case False
      then consider rs' where "class_items cs = Inr (rs', rest)"
        | d e es rs' where "cs = d # e # es" "class_items es = Inr (rs', rest)"
        using less.prems [unfolded Cons class_items_step]
        by (auto elim!: bindE_InrE split: if_split_asm list.split_asm)
      then show ?thesis by cases (auto dest: step simp: Cons)
    qed (use less.prems Cons in \<open>auto simp: class_items_step\<close>)
  qed (use less.prems in simp)
qed

lemma parse_atom_shorter: "parse_atom c cs = Inr (a, rest) \<Longrightarrow> length rest \<le> length cs"
  by (auto simp: parse_atom_def parse_class_def Let_def bindE_Inr_iff
      dest!: class_items_shorter split: if_splits)

lemma parse_quant_shorter: "parse_quant s = Inr (q, rest) \<Longrightarrow> length rest \<le> length s"
  by (auto simp: parse_quant_def split: list.splits if_splits)

function rx_compile :: "str \<Rightarrow> rx res" where
  "rx_compile [] = Inr []"
| "rx_compile (c # cs) =
     bindE (parse_atom c cs) (\<lambda>(a, s1).
     bindE (parse_quant s1) (\<lambda>(q, s2).
     bindE (rx_compile s2) (\<lambda>r. Inr ((a, q) # r))))"
  by pat_completeness auto
termination
  by (relation "measure length")
     (auto dest!: parse_atom_shorter parse_quant_shorter)

definition re_match :: "str \<Rightarrow> str \<Rightarrow> bool res" where
  "re_match pat s = bindE (rx_compile pat) (\<lambda>r. Inr (rx_match r s))"

subsection \<open>Matching a prefix\<close>

lemma rx_match_append: "rx_match r s \<Longrightarrow> rx_match r (s @ t)"
proof (induction r s rule: rx_match.induct)
  case (4 a r)
  then show ?case by (cases t) auto
next
  case (6 a r)
  then show ?case by (cases t) auto
qed auto

lemma rx_match_star: "rx_match r s \<Longrightarrow> rx_match ((a, Star) # r) s"
  by (cases s) auto

lemma rx_match_opt: "rx_match r s \<Longrightarrow> rx_match ((a, Opt) # r) s"
  by (cases s) auto

lemma rx_match_skip:
  "list_all (atom_ok a) s \<Longrightarrow> rx_match r t \<Longrightarrow> rx_match ((a, Star) # r) (s @ t)"
  by (induction s) (auto intro: rx_match_star)

end
