(* ===== verification/HwDb.thy ===== *)
theory HwDb
  imports PyRegex PyPath
begin

section \<open>The hardware database: load_db and match-hw.py\<close>

text \<open>
  \<open>hwfilter.load_db\<close> reads the hardware profile (one modalias a line) and the device database (type,
  entry point, module and signature a line), turns each signature into a regular expression and
  lists the modules whose signature matches a device of the profile. \<open>hwdb/match-hw.py\<close> does the
  same for \<open>modules.alias\<close>.

  The database is keyed by the compiled pattern, and two compiled patterns are the same key exactly
  when their texts are equal: the key of the model is the text.
\<close>

subsection \<open>hwfilter.load_db\<close>

definition sig_pattern :: "str \<Rightarrow> str" where
  "sig_pattern sg = replace_char (CHR ''?'') ''.?'' (replace_char (CHR ''*'') ''.*'' sg)"

type_synonym devdb = "(rx \<times> str) dict"

text \<open>\<open>ty,entry,mod,sig = line.strip().split()\<close>.\<close>

definition db_fields :: "str \<Rightarrow> (str \<times> str \<times> str) res" where
  "db_fields line = (case split_ws (strip line) of
       [ty, entry, md, sg] \<Rightarrow> Inr (entry, md, sg)
     | _ \<Rightarrow> Inl ValueError)"

definition db_line :: "str \<Rightarrow> devdb \<times> str dict \<Rightarrow> (devdb \<times> str dict) res" where
  "db_line line t =
     bindE (db_fields line) (\<lambda>(entry, md, sg).
     bindE (rx_compile (sig_pattern sg)) (\<lambda>r.
     Inr (AList.update (sig_pattern sg) (r, md) (fst t), AList.update md entry (snd t))))"

definition matching_mods :: "devdb \<Rightarrow> str \<Rightarrow> str list" where
  "matching_mods devdb key = map (\<lambda>(p, r, md). md) (filter (\<lambda>(p, r, md). rx_match r key) devdb)"

record hwinfo =
  devlist :: "str list"
  dev_db :: devdb
  driver_map :: "str dict"
  modlist :: "str list"

definition load_db_text :: "str \<Rightarrow> str \<Rightarrow> hwinfo res" where
  "load_db_text conf db =
     bindE (foldE db_line (lines_of (strip db)) ([], [])) (\<lambda>(devdb, dmap).
       let devs = map strip (lines_of (strip conf))
       in Inr \<lparr>devlist = devs, dev_db = devdb, driver_map = dmap,
               modlist = concat (map (matching_mods devdb) devs)\<rparr>)"

definition load_db :: "fsys \<Rightarrow> str \<Rightarrow> str \<Rightarrow> hwinfo res" where
  "load_db fs hwconf devdb_path =
     bindE (read_text fs hwconf) (\<lambda>conf. bindE (read_text fs devdb_path) (load_db_text conf))"

subsection \<open>match-hw.py\<close>

definition subtypes :: "str list" where
  "subtypes = [''acpi*'', ''ahci'', ''amba'', ''auxiliary'', ''bcma'', ''cpu'', ''cxl'', ''dax'',
     ''dfl'', ''dmi'', ''dmi*'', ''eisa'', ''fsl-mc'', ''greybus'', ''hdaudio'', ''hid'', ''hsi'',
     ''i2c'', ''i3c'', ''ieee1394'', ''input'', ''ipack'', ''isa'', ''ishtp'', ''mcb'', ''mdio'',
     ''mei'', ''mhi'', ''mmc'', ''nd'', ''of'', ''pci'', ''pcmcia'', ''platform'', ''pnp'',
     ''rapidio'', ''rpmsg'', ''sata'', ''scsi'', ''sdio'', ''sdw'', ''serio'', ''slim'', ''spi'',
     ''spmi'', ''ssam'', ''ssb'', ''tbsvc'', ''tee'', ''typec'', ''ulpi'', ''usb'', ''usbfunc'',
     ''vfio_pci'', ''vfio-reset'', ''virtio'', ''vmbus'', ''wmi'', ''xen'', ''xen-backend'']"

definition alias_pattern :: "str \<Rightarrow> str" where
  "alias_pattern a = replace_char (CHR ''?'') ''.'' (replace_char (CHR ''*'') ''.*'' a)"

definition catch_all :: "str \<Rightarrow> bool" where
  "catch_all a \<longleftrightarrow> take 20 a = ''pci:v*d*sv*sd*bc*sc*'' \<or>
     take 33 a = ''input:b*v*p*e*-e*k*r*a*m*l*s*f*w*''"

definition alias_line :: "str \<Rightarrow> pyset dict \<Rightarrow> pyset dict" where
  "alias_line line am =
     (if startswith line ''#'' then am
      else let sp = split_ws (rstrip line) in
        if length sp < 3 then am
        else let alias = join_with '' '' (butlast (tl sp)); sp2 = split_char (CHR '':'') alias in
          if catch_all alias then am
          else if length sp2 < 2 \<or> hd sp2 \<notin> set subtypes then am
          else dd_add (alias_pattern alias) (last sp) am)"

definition load_aliases :: "str list \<Rightarrow> pyset dict" where
  "load_aliases ls = fold alias_line ls []"

definition match_device :: "pyset dict \<Rightarrow> str \<Rightarrow> (str \<times> str) list res" where
  "match_device am hw =
     bindE (mapE (\<lambda>(pat, mods). bindE (if mods = [] then Inr False else re_match pat hw)
              (\<lambda>b. Inr (if b then map (\<lambda>a. (basename a, hw)) mods else []))) am)
       (\<lambda>rs. Inr (if concat rs = [] then [(''NONE'', hw)] else concat rs))"

definition match_hw :: "str list \<Rightarrow> str list \<Rightarrow> (str \<times> str) list res" where
  "match_hw alias_lines hw_lines =
     bindE (mapE (\<lambda>l. match_device (load_aliases alias_lines) (rstrip l)) hw_lines)
       (\<lambda>rs. Inr (concat rs))"

subsection \<open>The database as the list of its records\<close>

definition db_record :: "str \<Rightarrow> (str \<times> rx \<times> str \<times> str) res" where
  "db_record line = bindE (db_fields line) (\<lambda>(entry, md, sg).
     bindE (rx_compile (sig_pattern sg)) (\<lambda>r. Inr (sig_pattern sg, r, md, entry)))"

definition add_db :: "str \<times> rx \<times> str \<times> str \<Rightarrow> devdb \<times> str dict \<Rightarrow> devdb \<times> str dict" where
  "add_db rec t = (case rec of (p, r, md, entry) \<Rightarrow>
     (AList.update p (r, md) (fst t), AList.update md entry (snd t)))"

lemma foldE_db_line:
  "foldE db_line ls t = bindE (mapE db_record ls) (\<lambda>rs. Inr (fold add_db rs t))"
  by (rule foldE_parse)
     (auto simp: db_line_def db_record_def add_db_def bindE_Inr_iff bindE_Inl_iff split: prod.splits)

lemma add_dbs:
  "fold add_db rs t =
     (fold (\<lambda>(k, v). AList.update k v) (map (\<lambda>(p, r, md, e). (p, r, md)) rs) (fst t),
      fold (\<lambda>(k, v). AList.update k v) (map (\<lambda>(p, r, md, e). (md, e)) rs) (snd t))"
  by (induction rs arbitrary: t) (auto simp: add_db_def)

lemma load_db_records:
  assumes "load_db_text conf db = Inr h"
  shows "\<exists>rs. mapE db_record (lines_of (strip db)) = Inr rs \<and>
    distinct (map fst (dev_db h)) \<and>
    map_of (dev_db h) = map_of (rev (map (\<lambda>(p, r, md, e). (p, r, md)) rs)) \<and>
    map_of (driver_map h) = map_of (rev (map (\<lambda>(p, r, md, e). (md, e)) rs)) \<and>
    modlist h = concat (map (matching_mods (dev_db h)) (devlist h)) \<and>
    devlist h = map strip (lines_of (strip conf))"
  using assms
  by (auto simp: load_db_text_def foldE_db_line bindE_Inr_iff add_dbs map_of_fold_update
      distinct_fold_update Let_def)

lemma in_modlist_iff:
  assumes "distinct (map fst d)"
  shows "md \<in> set (matching_mods d key) \<longleftrightarrow> (\<exists>p r. map_of d p = Some (r, md) \<and> rx_match r key)"
  using assms by (force simp: matching_mods_def)

text \<open>The signatures whose only special characters are \<open>*\<close>, \<open>?\<close> and \<open>.\<close>, and their expressions.\<close>

definition plain_char :: "char \<Rightarrow> bool" where
  "plain_char c \<longleftrightarrow> c \<notin> set ''+()[]{}|^$'' \<and> c \<noteq> CHR 0x5C"

definition sig_atom :: "char \<Rightarrow> rx_atom \<times> quant" where
  "sig_atom c = (if c = CHR ''*'' then (AnyChar, Star) else if c = CHR ''?'' then (AnyChar, Opt)
     else if c = CHR ''.'' then (AnyChar, One) else (Lit c, One))"

lemma sig_pattern_Nil [simp]: "sig_pattern [] = []"
  by (simp add: sig_pattern_def replace_char_def)

lemma sig_pattern_Cons:
  "sig_pattern (c # cs) =
     (if c = CHR ''*'' then CHR ''.'' # CHR ''*'' # sig_pattern cs
      else if c = CHR ''?'' then CHR ''.'' # CHR ''?'' # sig_pattern cs
      else c # sig_pattern cs)"
  by (simp add: sig_pattern_def replace_char_def)

definition no_quant :: "str \<Rightarrow> bool" where
  "no_quant s \<longleftrightarrow> (\<forall>c cs. s = c # cs \<longrightarrow> c \<notin> set ''*+?'')"

lemma sig_pattern_no_quant: "list_all plain_char cs \<Longrightarrow> no_quant (sig_pattern cs)"
  by (cases cs) (auto simp: sig_pattern_Cons plain_char_def no_quant_def)

lemma parse_quants:
  assumes "no_quant s"
  shows "parse_quant s = Inr (One, s)" "parse_quant (CHR ''*'' # s) = Inr (Star, s)"
    "parse_quant (CHR ''?'' # s) = Inr (Opt, s)"
  using assms by (cases s; auto simp: parse_quant_def no_quant_def)+

lemma compile_sig: "list_all plain_char sg \<Longrightarrow> rx_compile (sig_pattern sg) = Inr (map sig_atom sg)"
proof (induction sg)
  case (Cons c cs)
  then have "no_quant (sig_pattern cs)" and c: "plain_char c"
    by (auto intro: sig_pattern_no_quant)
  from Cons parse_quants [OF this(1)] c show ?case
    by (auto simp: sig_pattern_Cons sig_atom_def parse_atom_def plain_char_def)
qed simp

text \<open>A signature as the pattern it is meant as: \<open>*\<close> any text, \<open>?\<close> one character.\<close>

fun glob :: "str \<Rightarrow> str \<Rightarrow> bool" where
  "glob [] s \<longleftrightarrow> s = []"
| "glob (p # ps) [] \<longleftrightarrow> p = CHR ''*'' \<and> glob ps []"
| "glob (p # ps) (c # cs) \<longleftrightarrow>
     (if p = CHR ''*'' then glob ps (c # cs) \<or> glob (p # ps) cs
      else (p = CHR ''?'' \<or> p = c) \<and> glob ps cs)"

lemma glob_rx_match:
  "glob sg s \<Longrightarrow> CHR 0x0A \<notin> set s \<Longrightarrow> rx_match (map sig_atom sg) s"
  by (induction sg s rule: glob.induct)
     (auto simp: sig_atom_def split: if_splits)

subsection \<open>Properties\<close>

lemma modlist_records:
  assumes "load_db_text conf db = Inr h" and "mapE db_record (lines_of (strip db)) = Inr rs"
  shows "md \<in> set (modlist h) \<longleftrightarrow>
    (\<exists>dev \<in> set (devlist h). \<exists>us p r e vs.
       rs = us @ (p, r, md, e) # vs \<and> p \<notin> fst ` set vs \<and> rx_match r dev)"
proof -
  let ?kv = "\<lambda>(p, r, md, e). (p, r, md)"
  obtain rs' where "mapE db_record (lines_of (strip db)) = Inr rs'"
    and d: "distinct (map fst (dev_db h))" and m': "map_of (dev_db h) = map_of (rev (map ?kv rs'))"
    and l: "modlist h = concat (map (matching_mods (dev_db h)) (devlist h))"
    using load_db_records [OF assms(1)] by (elim exE conjE) (rule that; assumption)
  with assms(2) have m: "map_of (dev_db h) = map_of (rev (map ?kv rs))" by simp
  have keys: "fst ` set (map ?kv vs) = fst ` set vs" for vs by force
  have last_rec: "map_of (dev_db h) p = Some (r, md) \<longleftrightarrow>
      (\<exists>us e vs. rs = us @ (p, r, md, e) # vs \<and> p \<notin> fst ` set vs)" for p r
    unfolding m map_of_rev_last map_split_conv keys by auto
  have "md \<in> set (matching_mods (dev_db h) dev) \<longleftrightarrow> (\<exists>us p r e vs.
       rs = us @ (p, r, md, e) # vs \<and> p \<notin> fst ` set vs \<and> rx_match r dev)" for dev
    unfolding in_modlist_iff [OF d] last_rec by blast
  with l show ?thesis by simp
qed

text \<open>
  C24: the module list computed by \<open>load_db\<close> is exactly the modules of those database records that
  are the last ones with their pattern and whose pattern matches a device of the hardware profile.
\<close>

theorem modlist_exact:
  assumes "load_db_text conf db = Inr h" and "mapE db_record (lines_of (strip db)) = Inr rs"
  shows "md \<in> set (modlist h) \<longleftrightarrow>
    (\<exists>dev \<in> set (devlist h). \<exists>us p r e vs.
       rs = us @ (p, r, md, e) # vs \<and> p \<notin> fst ` set vs \<and> rx_match r dev)"
  using assms by (rule modlist_records)

theorem modlist_exact_witness:
  "case load_db_text ''pci:v1d2'' ''pci_device_id e1 m1 pci:v1*'' of
     Inl e \<Rightarrow> False | Inr h \<Rightarrow> ''m1'' \<in> set (modlist h)"
proof -
  define r where "r = map sig_atom ''pci:v1*''"
  let ?db = "''pci_device_id e1 m1 pci:v1*''"
  let ?h = "\<lparr>devlist = [''pci:v1d2''], dev_db = [(''pci:v1.*'', r, ''m1'')],
    driver_map = [(''m1'', ''e1'')], modlist = [''m1'']\<rparr>"
  have h: "load_db_text ''pci:v1d2'' ?db = Inr ?h"
    and rs: "mapE db_record (lines_of (strip ?db)) = Inr [(''pci:v1.*'', r, ''m1'', ''e1'')]"
    and m: "rx_match r ''pci:v1d2''"
    unfolding r_def by code_simp+
  have "''m1'' \<in> set (modlist ?h)"
    unfolding modlist_exact [OF h rs] using m by (simp add: Cons_eq_append_conv)
  with h show ?thesis by simp
qed

text \<open>
  A driver whose signature, read as a pattern with \<open>*\<close> for any text and \<open>?\<close> for one
  character, fits a device of the hardware profile is in the module list, unless a later line of the
  database gives the same pattern to a driver again.
\<close>

theorem matching_driver_kept:
  assumes "load_db_text conf db = Inr h"
    and "lines_of (strip db) = before @ line # after"
    and "db_fields line = Inr (entry, md, sg)" and "list_all plain_char sg"
    and "\<And>l e' md' sg'. l \<in> set after \<Longrightarrow> db_fields l = Inr (e', md', sg') \<Longrightarrow>
      sig_pattern sg' \<noteq> sig_pattern sg"
    and "dev \<in> set (devlist h)" and "CHR 0x0A \<notin> set dev" and "glob sg dev"
  shows "md \<in> set (modlist h)"
proof -
  obtain rs where rs: "mapE db_record (lines_of (strip db)) = Inr rs"
    using load_db_records [OF assms(1)] by blast
  then have "map db_record (before @ line # after) = map Inr rs"
    unfolding assms(2) [symmetric] by (rule mapE_Inr_map)
  then obtain us x vs where "rs = us @ x # vs" and x: "db_record line = Inr x"
    and vs: "map db_record after = map Inr vs"
    by (auto simp: append_eq_map_conv map_eq_append_conv Cons_eq_map_conv map_eq_Cons_conv)
  moreover have "x = (sig_pattern sg, map sig_atom sg, md, entry)"
    using x assms(3,4) by (simp add: db_record_def compile_sig)
  moreover have "sig_pattern sg \<notin> fst ` set vs"
  proof
    assume "sig_pattern sg \<in> fst ` set vs"
    then obtain y where y: "y \<in> set vs" "fst y = sig_pattern sg" by auto
    from y(1) have "Inr y \<in> set (map db_record after)" unfolding vs by simp
    then obtain l where l: "l \<in> set after" "db_record l = Inr y" by (auto simp: image_iff)
    then obtain e' md' sg' where "db_fields l = Inr (e', md', sg')" "fst y = sig_pattern sg'"
      by (auto simp: db_record_def bindE_Inr_iff)
    with assms(5) l(1) y(2) show False by metis
  qed
  moreover have "rx_match (map sig_atom sg) dev"
    using assms(7,8) by (simp add: glob_rx_match)
  ultimately show ?thesis
    using assms(6) modlist_records [OF assms(1) rs] by blast
qed

theorem matching_driver_kept_witness:
  "case load_db_text ''pci:v1d2'' (''pci_device_id e1 m1 pci:v1*'') of
     Inl e \<Rightarrow> False | Inr h \<Rightarrow> ''m1'' \<in> set (modlist h)"
proof -
  let ?db = "''pci_device_id e1 m1 pci:v1*''" and ?r = "map sig_atom ''pci:v1*''"
  let ?h = "\<lparr>devlist = [''pci:v1d2''], dev_db = [(''pci:v1.*'', ?r, ''m1'')],
    driver_map = [(''m1'', ''e1'')], modlist = [''m1'']\<rparr>"
  have h: "load_db_text ''pci:v1d2'' ?db = Inr ?h" by code_simp
  have "''m1'' \<in> set (modlist ?h)"
  proof (rule matching_driver_kept [OF h, of "[]" ?db "[]" "''e1''" "''m1''" "''pci:v1*''" "''pci:v1d2''"])
    show "lines_of (strip ?db) = [] @ ?db # []" by code_simp
    show "db_fields ?db = Inr (''e1'', ''m1'', ''pci:v1*'')" by code_simp
    show "list_all plain_char ''pci:v1*''" by code_simp
    show "glob ''pci:v1*'' ''pci:v1d2''" by code_simp
  qed simp_all
  with h show ?thesis by simp
qed

text \<open>
  Two drivers with one signature: the later record overwrites the earlier one, so the earlier
  driver is known to the database but is not in the module list although its signature matches.
\<close>

theorem shared_signature_overwritten:
  assumes "mapE db_record (lines_of (strip db)) = Inr [(p, r, md1, e1), (p, r, md2, e2)]"
    and "md1 \<noteq> md2" and "load_db_text conf db = Inr h"
  shows "has_key (driver_map h) md1 \<and> md1 \<notin> set (modlist h)"
proof
  obtain rs where "mapE db_record (lines_of (strip db)) = Inr rs"
    and d: "map_of (driver_map h) = map_of (rev (map (\<lambda>(p, r, md, e). (md, e)) rs))"
    using load_db_records [OF assms(3)] by blast
  with assms(1,2) show "has_key (driver_map h) md1" by (simp add: has_key_def)
  show "md1 \<notin> set (modlist h)"
    using modlist_records [OF assms(3,1), of md1] assms(2) by (auto simp: Cons_eq_append_conv)
qed

theorem shared_signature_overwritten_witness:
  "case load_db_text ''pci:v1'' ([CHR ''a''] @ '' e1 m1 pci:v1'' @ [CHR 0x0A] @ ''a e2 m2 pci:v1'') of
     Inl e \<Rightarrow> False | Inr h \<Rightarrow> has_key (driver_map h) ''m1'' \<and> ''m1'' \<notin> set (modlist h)"
proof -
  let ?db = "[CHR ''a''] @ '' e1 m1 pci:v1'' @ [CHR 0x0A] @ ''a e2 m2 pci:v1''"
  let ?r = "map sig_atom ''pci:v1''"
  let ?h = "\<lparr>devlist = [''pci:v1''], dev_db = [(''pci:v1'', ?r, ''m2'')],
    driver_map = [(''m1'', ''e1''), (''m2'', ''e2'')], modlist = [''m2'']\<rparr>"
  have rs: "mapE db_record (lines_of (strip ?db)) =
      Inr [(''pci:v1'', ?r, ''m1'', ''e1''), (''pci:v1'', ?r, ''m2'', ''e2'')]"
    and h: "load_db_text ''pci:v1'' ?db = Inr ?h"
    by code_simp+
  have "''m1'' \<noteq> ''m2''" by simp
  from shared_signature_overwritten [OF rs this h] h show ?thesis by simp
qed

end
