(* ===== verification/InitCall.thy ===== *)
theory InitCall
  imports PyDict
begin

section \<open>Initcall symbols: initcall_sym2init and match_initcall_sig\<close>

text \<open>
  The kernel names the initcall entry of a function \<open>f\<close> of module \<open>m\<close> either \<open>__initcall_\<close> \<open>f\<close>
  \<open>level\<close> or \<open>__initcall__kmod_\<close> \<open>m\<close> \<open>__<n>_<line>_\<close> \<open>f\<close> \<open>level\<close>. \<open>initcall_sym2init\<close> recovers \<open>f\<close>;
  \<open>match_initcall_sig\<close> decides whether an entry belongs to a module and an init function.
  \<open>initcall_sym\<close> builds the second form, and the round trip is proved against it.
\<close>

subsection \<open>The substitution of \<open>__[0-9]+_[0-9]+_\<close>\<close>

text \<open>A match at the start of the text: what follows it. Digits are never given back, since the
  character after them has to be an underscore.\<close>

definition match_ids :: "str \<Rightarrow> str option" where
  "match_ids s =
     (if startswith s ''__'' then
        let d1 = takeWhile is_digit (drop 2 s); r1 = dropWhile is_digit (drop 2 s) in
        if d1 \<noteq> [] \<and> startswith r1 ''_'' then
          let d2 = takeWhile is_digit (drop 1 r1); r2 = dropWhile is_digit (drop 1 r1) in
          if d2 \<noteq> [] \<and> startswith r2 ''_'' then Some (drop 1 r2) else None
        else None
      else None)"

lemma match_ids_shorter: "match_ids s = Some r \<Longrightarrow> length r < length s"
proof -
  assume r: "match_ids s = Some r"
  let ?r1 = "dropWhile is_digit (drop 2 s)"
  from r have s: "startswith s ''__''" and eq: "r = drop 1 (dropWhile is_digit (drop 1 ?r1))"
    by (auto simp: match_ids_def Let_def split: if_splits)
  from s have "2 \<le> length s" by (cases s; cases "tl s") auto
  moreover have "length r \<le> length (drop 2 s)"
    unfolding eq using length_dropWhile_le [of is_digit "drop 2 s"]
      length_dropWhile_le [of is_digit "drop 1 ?r1"] by simp
  ultimately show ?thesis by simp
qed

function sub_ids :: "str \<Rightarrow> str" where
  "sub_ids [] = []"
| "sub_ids (c # cs) =
     (case match_ids (c # cs) of
        Some rest \<Rightarrow> ''____'' @ sub_ids rest
      | None \<Rightarrow> c # sub_ids cs)"
  by pat_completeness auto
termination
  by (relation "measure length") (auto dest: match_ids_shorter)

subsection \<open>The functions\<close>

text \<open>The level suffix is cut off by the same statements in both functions.\<close>

definition cut_digit :: "str \<Rightarrow> str res" where
  "cut_digit s = bindE (from_end 1 s) (\<lambda>c. Inr (if is_numeric c then chop 1 s else s))"

definition cut_sync :: "str \<Rightarrow> str res" where
  "cut_sync s = bindE (from_end 2 s)
     (\<lambda>c. Inr (if is_numeric c \<and> endswith s ''s'' then chop 2 s else s))"

definition cut_early :: "str \<Rightarrow> str" where
  "cut_early s = (if endswith s ''early'' \<and> \<not> endswith s ''_early'' then chop 5 s else s)"

definition cut_suffix :: "str \<Rightarrow> str \<Rightarrow> str" where
  "cut_suffix p s = (if endswith s p then chop (length p) s else s)"

definition strip_level :: "str \<Rightarrow> str res" where
  "strip_level s =
     bindE (cut_digit s) (\<lambda>s1. bindE (cut_sync s1) (\<lambda>s2.
     Inr (cut_suffix ''con'' (cut_suffix ''rootfs'' (cut_early s2)))))"

definition initcall_sym2init :: "str \<Rightarrow> str option res" where
  "initcall_sym2init name =
     (let newsym = sub_ids name in
      if \<not> occurs ''____'' newsym then
        if name \<in> {''__initcall_start'', ''__initcall_end''} then Inr None
        else if \<not> startswith name ''__initcall_'' then Inr None
        else bindE (strip_level (drop 11 name)) (\<lambda>s. Inr (Some s))
      else bindE (strip_level (split_str ''____'' newsym ! 1)) (\<lambda>s. Inr (Some s)))"

definition match_initcall_sig :: "str \<Rightarrow> str \<Rightarrow> str \<Rightarrow> bool res" where
  "match_initcall_sig md initf name =
     bindE (strip_level name) (\<lambda>osym.
       let initcall_sig_old = ''__initcall_'' @ initf;
           initcall_sig = ''__initcall__kmod_'' @ dash_to_us md @ ''____'' @ initf
       in Inr (startswith (sub_ids name) initcall_sig \<or> osym = initcall_sig_old))"

subsection \<open>The symbols the kernel writes\<close>

definition initcall_sym :: "str \<Rightarrow> str \<Rightarrow> str \<Rightarrow> str \<Rightarrow> str \<Rightarrow> str" where
  "initcall_sym md n l f level =
     ''__initcall__kmod_'' @ md @ ''__'' @ n @ ''_'' @ l @ ''_'' @ f @ level"

definition levels :: "str list" where
  "levels = map (\<lambda>d. [d]) ''01234567'' @ map (\<lambda>d. [d, CHR ''s'']) ''01234567'' @
     [''early'', ''rootfs'', ''con'']"

definition number :: "str \<Rightarrow> bool" where
  "number s \<longleftrightarrow> s \<noteq> [] \<and> list_all is_digit s"

text \<open>No place where \<open>__[0-9]\<close> starts.\<close>

fun no_id :: "str \<Rightarrow> bool" where
  "no_id (a # b # c # r) \<longleftrightarrow> \<not> (a = CHR ''_'' \<and> b = CHR ''_'' \<and> is_digit c) \<and> no_id (b # c # r)"
| "no_id _ \<longleftrightarrow> True"

text \<open>
  Names whose end is not taken for a level: what a function's name must not look like for the code
  to recover it.
\<close>

definition plain_end :: "str \<Rightarrow> bool" where
  "plain_end f \<longleftrightarrow> 2 \<le> length f \<and> \<not> (is_numeric (f ! (length f - 2)) \<and> endswith f ''s'') \<and>
     \<not> endswith f ''early'' \<and> \<not> endswith f ''rootfs'' \<and> \<not> endswith f ''con'' \<and> \<not> endswith f ''_''"

definition module_part :: "str \<Rightarrow> bool" where
  "module_part md \<longleftrightarrow> md \<noteq> [] \<and> no_id (''__initcall__kmod_'' @ md) \<and>
     \<not> occurs ''____'' (''__initcall__kmod_'' @ md) \<and> \<not> endswith md ''_''"

definition function_part :: "str \<Rightarrow> bool" where
  "function_part f \<longleftrightarrow> plain_end f \<and> (\<forall>level \<in> set levels. no_id (f @ level) \<and> \<not> occurs ''____'' (f @ level))"

subsection \<open>Lemmas\<close>

lemma no_id_Cons: "no_id (c # cs) \<Longrightarrow> no_id cs"
  by (cases cs; cases "tl cs") auto

lemma match_ids_None: "no_id s \<Longrightarrow> match_ids s = None"
proof (cases s rule: no_id.cases)
  case (1 a b c r)
  moreover assume "no_id s"
  ultimately show ?thesis by (auto simp: match_ids_def)
qed (auto simp: match_ids_def)

lemma sub_ids_id: "no_id s \<Longrightarrow> sub_ids s = s"
proof (induction s)
  case (Cons c cs)
  then show ?case by (simp add: match_ids_None no_id_Cons)
qed simp

lemma no_id_first: "no_id (take 3 s) \<Longrightarrow> match_ids s = None"
  by (cases s rule: no_id.cases) (auto simp: match_ids_def)

lemma no_id_take: "no_id s \<Longrightarrow> no_id (take n s)"
proof (induction s arbitrary: n rule: no_id.induct)
  case (1 a b c r)
  consider "n \<le> 2" | m where "n = Suc (Suc (Suc m))"
    by (metis One_nat_def Suc_1 less_eq_nat.simps(1) not0_implies_Suc not_less_eq_eq)
  then show ?case
  proof cases
    case 1
    then show ?thesis
      by (cases "take n (a # b # c # r)" rule: no_id.cases)
         (auto dest!: arg_cong [where f = length])
  next
    case (2 m)
    with "1.prems" have "no_id (take (Suc (Suc m)) (b # c # r))" by (intro "1.IH") auto
    with "1.prems" 2 show ?thesis by simp
  qed
qed (auto simp: take_Cons' split: if_splits)

lemma sub_ids_append: "no_id (p @ take 2 s) \<Longrightarrow> sub_ids (p @ s) = p @ sub_ids s"
proof (induction p)
  case (Cons c p)
  have "take 3 ((c # p) @ take 2 s) = take 3 ((c # p) @ s)"
    by (cases p; cases "tl p") (auto simp: take_Cons' min_def)
  with no_id_take [OF Cons.prems, of 3] have "match_ids ((c # p) @ s) = None"
    by (intro no_id_first) simp
  with Cons show ?case by (auto dest: no_id_Cons)
qed simp

lemma no_id_underscores: "no_id p \<Longrightarrow> no_id (p @ ''__'')"
  by (induction p rule: no_id.induct) (auto simp: is_digit_def)

lemma digits_span:
  "list_all is_digit n \<Longrightarrow> takeWhile is_digit (n @ CHR ''_'' # s) = n"
  "list_all is_digit n \<Longrightarrow> dropWhile is_digit (n @ CHR ''_'' # s) = CHR ''_'' # s"
  by (induction n) (auto simp: is_digit_def)

lemma match_ids_numbers:
  "number n \<Longrightarrow> number l \<Longrightarrow> match_ids (''__'' @ n @ ''_'' @ l @ ''_'' @ r) = Some r"
  by (simp add: match_ids_def number_def digits_span)

lemma sub_ids_initcall:
  assumes "no_id (''__initcall__kmod_'' @ md)" and "number n" and "number l" and "no_id (f @ level)"
  shows "sub_ids (initcall_sym md n l f level) = ''__initcall__kmod_'' @ md @ ''____'' @ f @ level"
proof -
  let ?p = "''__initcall__kmod_'' @ md" and ?s = "''__'' @ n @ ''_'' @ l @ ''_'' @ f @ level"
  have "sub_ids (?p @ ?s) = ?p @ sub_ids ?s"
    using no_id_underscores [OF assms(1)] by (intro sub_ids_append) simp
  also have "sub_ids ?s = ''____'' @ sub_ids (f @ level)"
    using match_ids_numbers [OF assms(2,3), of "f @ level"] by simp
  finally show ?thesis
    using assms(4) by (simp add: initcall_sym_def sub_ids_id)
qed

lemma split_initcall:
  assumes p: "\<not> occurs ''____'' p" "\<not> endswith p ''_''" and q: "\<not> occurs ''____'' q"
  shows "split_str ''____'' (p @ ''____'' @ q) = [p, q]"
proof -
  have "\<not> startswith (v @ ''____'' @ q) ''____''" if v: "p = u @ v" "v \<noteq> []" for u v
  proof
    assume s: "startswith (v @ ''____'' @ q) ''____''"
    from v p(2) have "last v \<noteq> CHR ''_''"
      by (auto simp: endswith_suffix suffix_def)
         (metis append.assoc append_butlast_last_id)
    with s v(2) consider a b c d r where "v = a # b # c # d # r"
      by (cases v; cases "tl v"; cases "tl (tl v)"; cases "tl (tl (tl v))") (auto split: if_splits)
    then have "startswith v ''____''" using s by cases simp
    then obtain w where "v = ''____'' @ w" by (auto simp: startswith_prefix prefix_def)
    with v p(1) show False using occurs_append [of "''____''" u w] by simp
  qed
  then have "split_str ''____'' (p @ ''____'' @ q) = p # split_str ''____'' q"
    by (intro split_str_first) auto
  with q show ?thesis by (simp add: split_str_none)
qed

lemma level_digit: "d \<in> set ''01234567'' \<Longrightarrow> is_digit d"
  by (auto simp: is_digit_def)

lemma levels_cases:
  assumes "level \<in> set levels"
  obtains (digit) d where "level = [d]" "is_digit d"
    | (sync) d where "level = [d, CHR ''s'']" "is_digit d"
    | (early) "level = ''early''" | (rootfs) "level = ''rootfs''" | (con) "level = ''con''"
proof -
  from assms have "(\<exists>d \<in> set ''01234567''. level = [d]) \<or> (\<exists>d \<in> set ''01234567''. level = [d, CHR ''s'']) \<or>
      level \<in> {''early'', ''rootfs'', ''con''}"
    unfolding levels_def set_append set_map Un_iff image_iff list.set by blast
  with that level_digit show ?thesis by blast
qed

lemma from_end_append: "0 < n \<Longrightarrow> n \<le> length x \<Longrightarrow> from_end n (f @ x) = from_end n x"
  by (auto simp: from_end_def nth_append)

lemma endswith_last: "endswith (f @ [c]) [d] \<longleftrightarrow> c = d"
  by (simp add: endswith_rev)

lemma plain_end_cuts:
  assumes "plain_end f"
  shows "cut_sync f = Inr f" "cut_early f = f" "cut_suffix ''rootfs'' f = f" "cut_suffix ''con'' f = f"
  using assms by (auto simp: plain_end_def cut_sync_def cut_early_def cut_suffix_def from_end_def)

lemma cut_level:
  assumes "plain_end f"
  shows "is_digit d \<Longrightarrow> cut_digit (f @ [d]) = Inr f"
    and "cut_digit (f @ [d, CHR ''s'']) = Inr (f @ [d, CHR ''s''])"
    and "is_digit d \<Longrightarrow> cut_sync (f @ [d, CHR ''s'']) = Inr f"
    and "cut_early (f @ ''early'') = f"
    and "cut_early (f @ ''rootfs'') = f @ ''rootfs''"
    and "cut_early (f @ ''con'') = f @ ''con''"
    and "cut_suffix ''rootfs'' (f @ ''con'') = f @ ''con''"
proof -
  show "is_digit d \<Longrightarrow> cut_digit (f @ [d]) = Inr f"
    by (simp add: cut_digit_def from_end_append) (simp add: from_end_def is_numeric_def)
  show "cut_digit (f @ [d, CHR ''s'']) = Inr (f @ [d, CHR ''s''])"
    by (simp add: cut_digit_def from_end_append) (simp add: from_end_def is_numeric_def is_digit_def)
  show "is_digit d \<Longrightarrow> cut_sync (f @ [d, CHR ''s'']) = Inr f"
    by (simp add: cut_sync_def from_end_append) (simp add: from_end_def is_numeric_def endswith_rev)
  show "cut_early (f @ ''early'') = f"
    using assms by (simp add: cut_early_def plain_end_def endswith_rev)
  show "cut_early (f @ ''rootfs'') = f @ ''rootfs''" "cut_early (f @ ''con'') = f @ ''con''"
    by (simp_all add: cut_early_def endswith_rev)
  show "cut_suffix ''rootfs'' (f @ ''con'') = f @ ''con''"
    by (simp add: cut_suffix_def endswith_rev)
qed

lemma cut_word:
  "w \<in> {''early'', ''rootfs'', ''con''} \<Longrightarrow> cut_digit (f @ w) = Inr (f @ w)"
  "w \<in> {''early'', ''rootfs'', ''con''} \<Longrightarrow> cut_sync (f @ w) = Inr (f @ w)"
  by (auto simp: cut_digit_def cut_sync_def from_end_append)
     (simp_all add: from_end_def is_numeric_def is_digit_def)

lemma strip_level_plain:
  assumes f: "plain_end f" and "level \<in> set levels"
  shows "strip_level (f @ level) = Inr f"
  using assms(2)
proof (cases rule: levels_cases)
  case (digit d)
  then show ?thesis by (simp add: strip_level_def cut_level [OF f] plain_end_cuts [OF f])
next
  case (sync d)
  then show ?thesis by (simp add: strip_level_def cut_level [OF f] plain_end_cuts [OF f])
next
  case early
  then show ?thesis by (simp add: strip_level_def cut_word cut_level [OF f] plain_end_cuts [OF f])
next
  case rootfs
  then show ?thesis
    by (simp add: strip_level_def cut_word cut_level [OF f] plain_end_cuts [OF f])
       (simp add: cut_suffix_def plain_end_cuts [OF f, unfolded cut_suffix_def, simplified])
next
  case con
  then show ?thesis
    by (simp add: strip_level_def cut_word cut_level [OF f]) (simp add: cut_suffix_def)
qed

lemma strip_level_total: "3 \<le> length s \<Longrightarrow> \<exists>t. strip_level s = Inr t"
  by (auto simp: strip_level_def cut_digit_def cut_sync_def from_end_def bindE_Inr_iff)

lemma initcall_sym_append: "initcall_sym md n l f level = initcall_sym md n l f [] @ level"
  by (simp add: initcall_sym_def)

text \<open>The first \<open>____\<close> of a symbol separates its module from its function.\<close>

lemma ids_prefix_unique:
  assumes "\<not> occurs ''____'' m" "\<not> endswith m ''_''" and "m @ ''____'' @ q = m' @ ''____'' @ r"
  shows "length m \<le> length m'"
proof (rule ccontr)
  assume "\<not> length m \<le> length m'"
  with assms(3) obtain w where w: "m = m' @ w" "w \<noteq> []" "w @ ''____'' @ q = ''____'' @ r"
    by (auto simp: append_eq_append_conv2)
  then consider v where "w = ''____'' @ v" | "set w \<subseteq> {CHR ''_''}"
    by (auto simp: append_eq_append_conv2 Cons_eq_append_conv append_eq_Cons_conv)
  then show False
  proof cases
    case 1
    with w(1) assms(1) occurs_append [of "''____''" m' v] show False by simp
  next
    case 2
    with w(2) have "last w = CHR ''_''" using last_in_set by fastforce
    with w(1,2) assms(2) show False
      by (metis append.assoc append_butlast_last_id endswith_append)
  qed
qed

lemma ids_prefix_iff:
  assumes "\<not> occurs ''____'' m" "\<not> endswith m ''_''" "\<not> occurs ''____'' m'" "\<not> endswith m' ''_''"
  shows "startswith (m @ ''____'' @ q) (m' @ ''____'' @ r) \<longleftrightarrow> m' = m \<and> startswith q r"
proof
  assume "startswith (m @ ''____'' @ q) (m' @ ''____'' @ r)"
  then obtain z where z: "m @ ''____'' @ q = m' @ ''____'' @ r @ z"
    by (auto simp: startswith_prefix prefix_def)
  with assms have "length m = length m'"
    by (metis ids_prefix_unique le_antisym)
  with z show "m' = m \<and> startswith q r" by auto
qed auto

lemma module_partD:
  assumes "module_part md"
  shows "no_id (''__initcall__kmod_'' @ md)" "\<not> occurs ''____'' (''__initcall__kmod_'' @ md)"
    "\<not> endswith (''__initcall__kmod_'' @ md) ''_''"
proof -
  show "no_id (''__initcall__kmod_'' @ md)" "\<not> occurs ''____'' (''__initcall__kmod_'' @ md)"
    using assms unfolding module_part_def by blast+
  from assms obtain x c where "md = x @ [c]" and "c \<noteq> CHR ''_''"
    unfolding module_part_def by (cases md rule: rev_cases) (auto simp: endswith_last)
  then show "\<not> endswith (''__initcall__kmod_'' @ md) ''_''"
    by (simp add: endswith_rev)
qed

lemma function_partD:
  assumes "function_part f" and "level \<in> set levels"
  shows "plain_end f" "no_id (f @ level)" "\<not> occurs ''____'' (f @ level)"
  using assms unfolding function_part_def by blast+

text \<open>Stripping a level only cuts an end without underscores.\<close>

definition cut_to :: "str \<Rightarrow> str \<Rightarrow> bool" where
  "cut_to s t \<longleftrightarrow> (\<exists>u. s = t @ u \<and> CHR ''_'' \<notin> set u)"

lemma cut_to_refl [simp]: "cut_to s s"
  by (simp add: cut_to_def)

lemma cut_to_trans: "cut_to s t \<Longrightarrow> cut_to t u \<Longrightarrow> cut_to s u"
  by (fastforce simp: cut_to_def)

lemma cut_to_suffix: "CHR ''_'' \<notin> set p \<Longrightarrow> cut_to s (cut_suffix p s)"
  by (auto simp: cut_to_def cut_suffix_def dest: endswith_split)

lemma cut_to_early: "cut_to s (cut_early s)"
  using cut_to_suffix [of "''early''" s] by (auto simp: cut_early_def cut_suffix_def numeral_eq_Suc)

lemma cut_to_digit: "cut_digit s = Inr t \<Longrightarrow> cut_to s t"
  by (cases s rule: rev_cases)
     (auto simp: cut_digit_def from_end_def cut_to_def chop_def nth_append is_numeric_def is_digit_def)

lemma cut_to_sync:
  assumes "cut_sync s = Inr t" shows "cut_to s t"
proof -
  from assms have "2 \<le> length s" by (auto simp: cut_sync_def from_end_def split: if_splits)
  then obtain g a b where "s = g @ [a, b]" by (rule last_two)
  with assms show ?thesis
    by (auto simp: cut_sync_def from_end_def cut_to_def chop_def nth_append endswith_rev
        is_numeric_def is_digit_def split: if_splits)
qed

lemma strip_level_cut: "strip_level s = Inr t \<Longrightarrow> cut_to s t"
  unfolding strip_level_def bindE_Inr_iff
  by (auto intro!: cut_to_suffix cut_to_early
      elim!: cut_to_trans [OF cut_to_digit] cut_to_trans [OF cut_to_sync]
      intro: cut_to_trans [OF cut_to_trans [OF cut_to_early cut_to_suffix] cut_to_suffix])

subsection \<open>Properties\<close>

text \<open>
  C25: \<open>initcall_sym2init\<close> inverts the kernel's naming: from the symbol of a module, two numbers, a
  function and any of the initcall levels it recovers the function, provided the module and function
  names hold no text that looks like a separator, a number pair or a level.
\<close>

theorem initcall_roundtrip:
  assumes "module_part md" and "number n" and "number l" and "function_part f"
    and "level \<in> set levels"
  shows "initcall_sym2init (initcall_sym md n l f level) = Inr (Some f)"
proof -
  let ?p = "''__initcall__kmod_'' @ md"
  have "sub_ids (initcall_sym md n l f level) = ?p @ ''____'' @ f @ level"
    using assms sub_ids_initcall [OF module_partD(1) _ _ function_partD(2)] by simp
  moreover have "split_str ''____'' (?p @ ''____'' @ f @ level) = [?p, f @ level]"
    by (rule split_initcall [OF module_partD(2,3) function_partD(3)]) (fact assms)+
  moreover have "occurs ''____'' (?p @ ''____'' @ f @ level)"
    by (rule occurs_append)
  ultimately show ?thesis
    using strip_level_plain [OF function_partD(1) assms(5)] assms
    by (simp add: initcall_sym2init_def)
qed

theorem initcall_roundtrip_witness:
  "initcall_sym2init ''__initcall__kmod_e1000__12_345_e1000_init6'' = Inr (Some ''e1000_init'')"
proof -
  have "module_part ''e1000''" "number ''12''" "number ''345''" "function_part ''e1000_init''"
    "''6'' \<in> set levels" by code_simp+
  from initcall_roundtrip [OF this] show ?thesis by (simp add: initcall_sym_def)
qed

text \<open>
  C26: on the symbol of module \<open>md'\<close> and function \<open>g\<close>, \<open>match_initcall_sig\<close> accepts exactly the
  module whose normalised name is \<open>md'\<close> and the init functions that are a prefix of \<open>g\<close> and its
  level: in particular it accepts the pair the symbol was made from, the empty function, and also a
  function whose name only begins like \<open>g\<close>.
\<close>

theorem match_initcall_exact:
  assumes "module_part md'" and "module_part (dash_to_us md)" and "number n" and "number l"
    and "no_id (g @ level)" and "\<not> startswith f ''_kmod_''"
  shows "match_initcall_sig md f (initcall_sym md' n l g level) =
    Inr (dash_to_us md = md' \<and> startswith (g @ level) f)"
proof -
  let ?k = "''__initcall__kmod_''" and ?s = "initcall_sym md' n l g level"
  obtain t where t: "strip_level ?s = Inr t"
    using strip_level_total [of ?s] by (auto simp: initcall_sym_def)
  have "sub_ids ?s = ?k @ md' @ ''____'' @ g @ level"
    using assms sub_ids_initcall [OF module_partD(1)] by simp
  moreover have "startswith ((?k @ md') @ ''____'' @ g @ level) ((?k @ dash_to_us md) @ ''____'' @ f)
      \<longleftrightarrow> ?k @ dash_to_us md = ?k @ md' \<and> startswith (g @ level) f"
    by (rule ids_prefix_iff) (rule module_partD, fact assms)+
  moreover have "t \<noteq> ''__initcall_'' @ f"
  proof
    assume "t = ''__initcall_'' @ f"
    with strip_level_cut [OF t] obtain u where u: "CHR ''_'' \<notin> set u"
      and "f @ u = ''_kmod_'' @ md' @ ''__'' @ n @ ''_'' @ l @ ''_'' @ g @ level"
      by (auto simp: cut_to_def initcall_sym_def)
    then obtain z where z: "f @ u = ''_kmod_'' @ z" by blast
    then have "f @ u = ''_kmod'' @ CHR ''_'' # z" by simp
    with u have "length ''_kmod'' < length f"
      by (auto simp: append_eq_append_conv2 append_eq_Cons_conv Cons_eq_append_conv not_less)
    moreover have "take 6 (f @ u) = ''_kmod_''" using z by simp
    ultimately have "startswith f ''_kmod_''" by (simp add: startswith_def numeral_eq_Suc)
    with assms(6) show False by simp
  qed
  ultimately show ?thesis using t by (simp add: match_initcall_sig_def Let_def)
qed

theorem match_initcall_exact_witness:
  "match_initcall_sig ''snd-hda'' ''snd_in'' ''__initcall__kmod_snd_hda__12_345_snd_init6'' = Inr True"
proof -
  have "module_part ''snd_hda''" "module_part (dash_to_us ''snd-hda'')" "number ''12''" "number ''345''"
    "no_id (''snd_init'' @ ''6'')" "\<not> startswith ''snd_in'' ''_kmod_''" by code_simp+
  from match_initcall_exact [OF this] show ?thesis
    by (simp add: initcall_sym_def dash_to_us_def)
qed

end
