(* ===== verification/Drivers.thy ===== *)
theory Drivers
  imports Target HwDb InitCall FuncDep
begin

section \<open>Which drivers to remove: check_drivers\<close>

text \<open>
  \<open>kernel_patch/hwfilter.py\<close>, \<open>check_drivers\<close>: from the hardware database, the dependencies and the
  image it computes the modules, the builtin drivers and the functions to remove. The function is cut
  at its comments into stages, one definition each; \<open>check_drivers\<close> composes them. Two variables are
  read after the loop they belong to has ended (\<open>mod\<close> in the builtin dependencies and \<open>m\<close> in the
  search for an initcall's object): the stages carry them as \<open>last_mod\<close> and \<open>last_m\<close>.
\<close>

subsection \<open>Modules on disk\<close>

definition known_driver :: "str dict \<Rightarrow> str \<Rightarrow> bool" where
  "known_driver drv m \<longleftrightarrow> has_key drv m \<or> has_key drv (dash_to_us m)"

definition needed_driver :: "str list \<Rightarrow> str \<Rightarrow> bool" where
  "needed_driver ml m \<longleftrightarrow> m \<in> set ml \<or> dash_to_us m \<in> set ml"

record modsets =
  mod_keeps :: pyset
  mod_remove :: pyset
  mod_remove_path :: pyset
  mod_exists :: pyset
  mod_unknown :: pyset

definition no_mods :: modsets where
  "no_mods = \<lparr>mod_keeps = [], mod_remove = [], mod_remove_path = [], mod_exists = [], mod_unknown = []\<rparr>"

definition classify_mod :: "hwinfo \<Rightarrow> pyset \<Rightarrow> str \<times> str \<Rightarrow> modsets \<Rightarrow> modsets" where
  "classify_mod hw alldrv x ms = (case x of (m, fpath) \<Rightarrow>
     let known = known_driver (driver_map hw) m;
         needed = needed_driver (modlist hw) m;
         ms = (if known \<and> \<not> needed
               then ms\<lparr>mod_remove_path := List.insert fpath (mod_remove_path ms),
                       mod_remove := List.insert m (mod_remove ms)\<rparr>
               else if needed then ms\<lparr>mod_keeps := List.insert m (mod_keeps ms)\<rparr> else ms);
         ms = (if known then ms\<lparr>mod_exists := List.insert m (mod_exists ms)\<rparr> else ms)
     in if m \<notin> set alldrv \<and> dash_to_us m \<notin> set alldrv
        then ms\<lparr>mod_unknown := List.insert m (mod_unknown ms)\<rparr> else ms)"

definition disk_mod_map :: "(str \<times> str) list \<Rightarrow> pyset dict" where
  "disk_mod_map allmod = fold (\<lambda>(m, p). dd_add m (if startswith p ''/'' then drop 1 p else p)) allmod []"

text \<open>The modules a kept one depends on are kept.\<close>

definition keep_deps :: "pyset dict \<Rightarrow> pyset \<Rightarrow> pyset \<Rightarrow> pyset" where
  "keep_deps mod_dep alldisk keeps =
     fold List.insert
       (fold (\<lambda>m up. fold List.insert (filter (\<lambda>dm. dm \<in> set alldisk) (dd_get mod_dep m)) up) keeps []) keeps"

text \<open>The dependents of removed modules, as far as they are on disk.\<close>

definition add_users :: "pyset dict \<Rightarrow> pyset \<Rightarrow> pyset \<Rightarrow> pyset \<Rightarrow> pyset" where
  "add_users rev_dep alldisk ms acc =
     fold (\<lambda>m acc. if has_key rev_dep m
        then fold List.insert (filter (\<lambda>x. x \<in> set alldisk) (dd_get rev_dep m)) acc else acc) ms acc"

subsection \<open>Builtin drivers\<close>

record builtin =
  patch_list :: "(str \<times> str) list"
  skip_list :: pyset
  builtin_mod_remove :: pyset
  builtin_mod_exists :: pyset
  allkernfunc :: pyset
  start_flag :: bool
  stopped :: bool
  last_mod :: "str option"

definition no_builtin :: "str option \<Rightarrow> builtin" where
  "no_builtin lm = \<lparr>patch_list = [], skip_list = [], builtin_mod_remove = [], builtin_mod_exists = [],
     allkernfunc = [], start_flag = False, stopped = False, last_mod = lm\<rparr>"

text \<open>The drivers in the order of the database; the first unneeded one whose signature fits is taken.\<close>

fun native_driver :: "str list \<Rightarrow> str \<Rightarrow> (str \<times> str) list \<Rightarrow> builtin \<Rightarrow> (bool \<times> builtin) res" where
  "native_driver ml name [] b = Inr (False, b)"
| "native_driver ml name ((md, func) # ds) b =
     bindE (match_initcall_sig md func name) (\<lambda>hit.
       let b = b\<lparr>last_mod := Some md\<rparr> in
       if \<not> hit then native_driver ml name ds b
       else let b = b\<lparr>builtin_mod_exists := List.insert md (builtin_mod_exists b)\<rparr> in
         if md \<in> set ml then native_driver ml name ds b
         else Inr (True, b\<lparr>patch_list := List.insert (md, name) (patch_list b),
                           builtin_mod_remove := List.insert md (builtin_mod_remove b)\<rparr>))"

definition symtab_row :: "hwinfo \<Rightarrow> int \<times> str \<times> str \<Rightarrow> builtin \<Rightarrow> builtin res" where
  "symtab_row hw row b = (case row of (addr, ty, name) \<Rightarrow>
     if stopped b then Inr b
     else let b = (if ty \<in> set func_types then b\<lparr>allkernfunc := List.insert name (allkernfunc b)\<rparr> else b) in
       if name = ''__initcall_start'' then Inr (b\<lparr>start_flag := True\<rparr>)
       else if name = ''__con_initcall_end'' then Inr (b\<lparr>stopped := True\<rparr>)
       else if start_flag b then
         bindE (native_driver (modlist hw) name (driver_map hw) b) (\<lambda>(found, b).
           Inr (if \<not> found \<and> (startswith name ''__initcall__kmod_'' \<or> startswith name ''__initcall_'')
                then b\<lparr>skip_list := List.insert name (skip_list b)\<rparr> else b))
       else Inr b)"

definition scan_symtab :: "hwinfo \<Rightarrow> (int \<times> str \<times> str) list \<Rightarrow> str option \<Rightarrow> builtin res" where
  "scan_symtab hw symtab lm = foldE (symtab_row hw) symtab (no_builtin lm)"

fun first_match :: "str \<Rightarrow> str \<Rightarrow> str list \<Rightarrow> str option res" where
  "first_match md func [] = Inr None"
| "first_match md func (s # ss) =
     bindE (match_initcall_sig md func s) (\<lambda>hit. if hit then Inr (Some s) else first_match md func ss)"

definition count_builtin :: "hwinfo \<Rightarrow> builtin \<Rightarrow> (str \<times> str) list res" where
  "count_builtin hw b = foldE (\<lambda>(m, func) acc.
     bindE (first_match m func (skip_list b)) (\<lambda>o'. Inr (case o' of
         None \<Rightarrow> acc | Some name \<Rightarrow> List.insert (m, name) acc))) (driver_map hw) (patch_list b)"

text \<open>The initcalls of the dependents of removed builtin drivers; \<open>mod\<close> is the stale variable.\<close>

definition builtin_user :: "hwinfo \<Rightarrow> builtin \<Rightarrow> str \<Rightarrow> (str \<times> str) list \<times> pyset \<Rightarrow> ((str \<times> str) list \<times> pyset) res" where
  "builtin_user hw b dep st =
     (let func = (case map_of (driver_map hw) dep of None \<Rightarrow> [] | Some f \<Rightarrow> f) in
      bindE (first_match dep func (skip_list b)) (\<lambda>o'. case o' of
         None \<Rightarrow> Inr st
       | Some name \<Rightarrow> (case last_mod b of
            None \<Rightarrow> Inl UnboundLocalError
          | Some md \<Rightarrow> Inr (List.insert (md, name) (fst st), List.insert dep (snd st)))))"

definition builtin_users :: "hwinfo \<Rightarrow> pyset dict \<Rightarrow> builtin \<Rightarrow> ((str \<times> str) list \<times> pyset) res" where
  "builtin_users hw rev_dep b =
     foldE (\<lambda>m. foldE (builtin_user hw b) (if has_key rev_dep m then dd_get rev_dep m else []))
       (builtin_mod_remove b) (patch_list b, builtin_mod_remove b)"

subsection \<open>Modules without an init function\<close>

definition base_stem :: "str \<Rightarrow> str" where
  "base_stem p = stem_of (basename p)"

definition dep_removed :: "pyset \<Rightarrow> pyset dict \<Rightarrow> pyset \<Rightarrow> pyset \<Rightarrow> pyset" where
  "dep_removed noentry full_rev_dep alldisk removed =
     filter (\<lambda>m. base_stem m \<in> set alldisk \<and> has_key full_rev_dep m \<and>
       list_all (\<lambda>x. base_stem x \<in> set alldisk \<longrightarrow> base_stem x \<in> set removed) (dd_get full_rev_dep m)) noentry"

subsection \<open>What check_fdep starts from\<close>

text \<open>The object of an initcall, when several export the function; \<open>m\<close> is the stale variable.\<close>

fun pick_mod :: "str option \<Rightarrow> str \<Rightarrow> str list \<Rightarrow> str option res" where
  "pick_mod last_m modname [] = Inr None"
| "pick_mod last_m modname (md # mods) =
     (if endswith md (modname @ ''.o'') then Inr (Some md)
      else case last_m of
        None \<Rightarrow> Inl UnboundLocalError
      | Some m \<Rightarrow> if endswith m (modname @ ''.ko'') then Inr (Some md) else pick_mod last_m modname mods)"

definition initcall_func :: "objdeps \<Rightarrow> str option \<Rightarrow> str \<times> str \<Rightarrow> fnode list \<Rightarrow> fnode list res" where
  "initcall_func od last_m e acc = (case e of (modname, initsym) \<Rightarrow>
     bindE (initcall_sym2init initsym) (\<lambda>o'. case o' of
         None \<Rightarrow> Inr acc
       | Some name \<Rightarrow> (case get_mods od name False of
            None \<Rightarrow> Inr acc
          | Some mods \<Rightarrow>
              if length mods = 1 then Inr (List.insert (hd mods, name) acc)
              else bindE (pick_mod last_m modname mods) (\<lambda>r. Inr (case r of
                     None \<Rightarrow> acc | Some md \<Rightarrow> List.insert (md, name) acc)))))"

definition busreg_func :: "objdeps \<Rightarrow> str \<Rightarrow> fnode list \<Rightarrow> fnode list" where
  "busreg_func od name acc = (case get_mods od name True of
       None \<Rightarrow> acc
     | Some mods \<Rightarrow>
         if length mods = 1 then List.insert (hd mods, name) acc
         else (case find (is_driver od) mods of None \<Rightarrow> acc | Some m \<Rightarrow> List.insert (m, name) acc))"

definition exporter_funcs :: "objdeps \<Rightarrow> str \<Rightarrow> fnode list \<Rightarrow> fnode list" where
  "exporter_funcs od name acc = (case get_mods od name True of
       None \<Rightarrow> acc
     | Some exporters \<Rightarrow> fold (\<lambda>e. List.insert (e, name)) (filter (is_driver od) exporters) acc)"

definition removed_paths :: "pyset dict \<Rightarrow> str \<Rightarrow> pyset \<Rightarrow> pyset \<Rightarrow> pyset res" where
  "removed_paths diskmodmaps mod_dir dep_remove removed =
     foldE (\<lambda>m acc. bindE (dict_get diskmodmaps m) (\<lambda>ps.
       Inr (fold List.insert (map (path_join mod_dir) ps) acc))) removed dep_remove"

definition imported_funcs :: "fsys \<Rightarrow> (str \<Rightarrow> str) \<Rightarrow> objdeps \<Rightarrow> pyset \<Rightarrow> fnode list \<Rightarrow> fnode list res" where
  "imported_funcs fs nm od paths acc =
     foldE (\<lambda>p acc. if \<not> fs_exists fs p then Inr acc
        else bindE (get_sym nm p [''U'']) (\<lambda>syms. Inr (fold (exporter_funcs od) syms acc))) paths acc"

subsection \<open>check_drivers\<close>

record verdict =
  v_exists :: pyset
  v_remove :: pyset
  v_unknown :: pyset
  v_patch :: "(str \<times> str) list"
  v_allmod :: "(str \<times> str) list"
  v_allbuiltin :: "(str \<times> str) list"
  v_initcalls :: "(str + str \<times> str) list"
  v_mod_dep :: pyset
  v_builtin_dep :: "(str \<times> str) list"
  v_mod_builtin_dep :: pyset
  v_noentry :: pyset
  v_rmfunc :: pyset
  v_rmko :: "(str \<times> str) list"
  v_kernfunc :: pyset
  v_builtin_exists :: pyset
  v_builtin_remove :: pyset

definition minus_list :: "'a list \<Rightarrow> 'a list \<Rightarrow> 'a list" where
  "minus_list xs ys = filter (\<lambda>x. x \<notin> set ys) xs"

text \<open>The last value of \<open>m\<close> before the search: the loops over it, in order.\<close>

definition last_of :: "str list \<Rightarrow> str option" where
  "last_of xs = (if xs = [] then None else Some (last xs))"

text \<open>The inputs of the analysis once the files are read.\<close>

record analysis =
  a_hw :: hwinfo
  a_odeps :: objdeps
  a_alldrv :: pyset
  a_dep :: "pyset dict"
  a_rev_dep :: "pyset dict"
  a_allmod :: "(str \<times> str) list"
  a_symtab :: "(int \<times> str \<times> str) list"
  a_noentry :: pyset
  a_full_rev_dep :: "pyset dict res"   \<comment> \<open>read late: what the reading returns\<close>

text \<open>The modules the first half removes: with dependents, with those of builtin drivers, without init.\<close>

record removal =
  r_sets :: modsets
  r_builtin :: builtin
  r_allbuiltin :: "(str \<times> str) list"
  r_mod_remove :: pyset
  r_patch_list :: "(str \<times> str) list"
  r_builtin_remove :: pyset
  r_all_remove :: pyset
  r_dep_remove :: pyset
  r_removed :: pyset
  r_last_m :: "str option"

definition find_removal :: "analysis \<Rightarrow> removal res" where
  "find_removal a =
     (let hw = a_hw a; alldisk = map fst (a_allmod a);
          ms = fold (classify_mod hw (a_alldrv a)) (a_allmod a) no_mods;
          kept = keep_deps (a_dep a) alldisk (mod_keeps ms);
          ms' = ms\<lparr>mod_keeps := kept\<rparr>
      in bindE (scan_symtab hw (a_symtab a) (last_of alldisk)) (\<lambda>b.
         bindE (count_builtin hw b) (\<lambda>allb.
         bindE (builtin_users hw (a_rev_dep a) b) (\<lambda>(new_patch, new_bi).
         bindE (a_full_rev_dep a) (\<lambda>full_rev_dep.
           let new_rm = add_users (a_rev_dep a) alldisk (mod_remove ms) (mod_remove ms);
               all_rm = add_users (a_rev_dep a) alldisk new_bi new_rm;
               dep_rm = dep_removed (a_noentry a) full_rev_dep alldisk all_rm
           in Inr \<lparr>r_sets = ms', r_builtin = b, r_allbuiltin = allb, r_mod_remove = new_rm,
                r_patch_list = new_patch, r_builtin_remove = new_bi, r_all_remove = all_rm,
                r_dep_remove = dep_rm,
                r_removed = fold List.insert all_rm (remdups (map base_stem dep_rm)),
                r_last_m = last_of (alldisk @ mod_keeps ms @ map fst (driver_map hw) @ mod_remove ms @
                  builtin_mod_remove b @ new_bi @ a_noentry a)\<rparr>)))))"

definition find_funcs ::
    "fsys \<Rightarrow> (str \<Rightarrow> str) \<Rightarrow> pyset \<Rightarrow> str \<Rightarrow> analysis \<Rightarrow> removal \<Rightarrow> (pyset \<times> (str \<times> str) list) res" where
  "find_funcs fs nm busreg_apis mod_dir a r =
     (let od = a_odeps a in
      bindE (foldE (initcall_func od (r_last_m r)) (r_patch_list r) []) (\<lambda>patch_sym.
      bindE (removed_paths (disk_mod_map (a_allmod a)) mod_dir (r_dep_remove r) (r_removed r)) (\<lambda>paths.
      bindE (imported_funcs fs nm od paths (fold (busreg_func od) busreg_apis patch_sym)) (\<lambda>checklist.
      bindE (check_fdep checklist patch_sym od) (\<lambda>(rmfunc, rmko).
        Inr (fold (\<lambda>(relf, relmod) acc. if relmod \<in> set (builtin_mod_exists (r_builtin r))
                then List.insert relf acc else acc) rmko rmfunc, rmko))))))"

definition verdict_of :: "analysis \<Rightarrow> removal \<Rightarrow> pyset \<Rightarrow> (str \<times> str) list \<Rightarrow> verdict" where
  "verdict_of a r rmfunc rmko = (let ms = r_sets r; b = r_builtin r in
     \<lparr>v_exists = mod_exists ms, v_remove = mod_remove ms, v_unknown = mod_unknown ms,
      v_patch = patch_list b, v_allmod = a_allmod a, v_allbuiltin = r_allbuiltin r,
      v_initcalls = map Inl (skip_list b) @ map Inr (patch_list b),
      v_mod_dep = minus_list (r_mod_remove r) (mod_remove ms),
      v_builtin_dep = minus_list (r_patch_list r) (patch_list b),
      v_mod_builtin_dep = minus_list (r_all_remove r) (r_mod_remove r),
      v_noentry = minus_list (remdups (map base_stem (r_dep_remove r))) (r_all_remove r),
      v_rmfunc = rmfunc, v_rmko = rmko, v_kernfunc = allkernfunc b,
      v_builtin_exists = builtin_mod_exists b, v_builtin_remove = r_builtin_remove r\<rparr>)"

text \<open>
  The whole: \<open>fs\<close>, \<open>link\<close> and \<open>globs\<close> are the file system, \<open>nm\<close> and \<open>elf\<close> the tools of \<open>ModDeps\<close>.
\<close>

definition check_drivers ::
    "fsys \<Rightarrow> (str \<Rightarrow> str option) \<Rightarrow> (str \<Rightarrow> str list) \<Rightarrow> (str \<Rightarrow> str) \<Rightarrow> (str \<Rightarrow> str list) \<Rightarrow> str \<Rightarrow> str \<Rightarrow>
     str \<Rightarrow> pyset \<Rightarrow> pyset dict \<Rightarrow> str \<Rightarrow> str \<Rightarrow> str option \<Rightarrow> verdict res" where
  "check_drivers fs link globs nm elf hwconf devdb_path check_dir busreg_apis btobj_deps linux_src linux_build sysmap =
     bindE (load_db fs hwconf devdb_path) (\<lambda>hw.
     bindE (mk_objdeps fs linux_src linux_build btobj_deps) (\<lambda>od.
     bindE (get_kernel_ver fs link globs check_dir) (\<lambda>ver.
     let mod_dir = mod_dir_of check_dir ver in
     bindE (get_deps fs mod_dir) (\<lambda>(dep, rev_dep).
     bindE (get_target_info fs link globs check_dir sysmap) (\<lambda>(allmod, symtab).
     let a = \<lparr>a_hw = hw, a_odeps = od, a_alldrv = load_alldrv (fs_walk fs linux_build), a_dep = dep,
              a_rev_dep = rev_dep, a_allmod = allmod, a_symtab = symtab,
              a_noentry = get_noentry elf (fs_walk fs mod_dir), a_full_rev_dep = get_path_rev_deps fs mod_dir\<rparr> in
     bindE (find_removal a) (\<lambda>r.
     bindE (find_funcs fs nm busreg_apis mod_dir a r) (\<lambda>(rmfunc, rmko).
       Inr (verdict_of a r rmfunc rmko))))))))"

subsection \<open>Sets the stages compute\<close>

lemma set_fold_insert [simp]: "set (fold List.insert xs ys) = set ys \<union> set xs"
  by (rule fold_insert_set)

lemma set_add_users:
  "set (add_users rev_dep alldisk ms acc) =
     set acc \<union> {x \<in> set alldisk. \<exists>m \<in> set ms. x \<in> set (dd_get rev_dep m)}"
proof (induction ms arbitrary: acc)
  case (Cons m ms)
  have "has_key rev_dep m" if "x \<in> set (dd_get rev_dep m)" for x
    using that dd.key_if_member by (simp add: has_key_iff)
  then have "set (if has_key rev_dep m
        then fold List.insert (filter (\<lambda>x. x \<in> set alldisk) (dd_get rev_dep m)) acc else acc) =
      set acc \<union> {x \<in> set alldisk. x \<in> set (dd_get rev_dep m)}"
    by auto
  with Cons show ?case by (auto simp: add_users_def)
qed (simp add: add_users_def)

lemma classify_sets:
  "set (mod_remove (fold (classify_mod hw alldrv) xs ms)) = set (mod_remove ms) \<union>
     {m \<in> fst ` set xs. known_driver (driver_map hw) m \<and> \<not> needed_driver (modlist hw) m} \<and>
   set (mod_keeps (fold (classify_mod hw alldrv) xs ms)) = set (mod_keeps ms) \<union>
     {m \<in> fst ` set xs. needed_driver (modlist hw) m} \<and>
   set (mod_exists (fold (classify_mod hw alldrv) xs ms)) = set (mod_exists ms) \<union>
     {m \<in> fst ` set xs. known_driver (driver_map hw) m}"
proof (induction xs arbitrary: ms)
  case (Cons x xs)
  obtain m p where "x = (m, p)" by (cases x)
  then have "set (mod_remove (classify_mod hw alldrv x ms)) = set (mod_remove ms) \<union>
      {m' \<in> {fst x}. known_driver (driver_map hw) m' \<and> \<not> needed_driver (modlist hw) m'}"
    "set (mod_keeps (classify_mod hw alldrv x ms)) = set (mod_keeps ms) \<union> {m' \<in> {fst x}. needed_driver (modlist hw) m'}"
    "set (mod_exists (classify_mod hw alldrv x ms)) = set (mod_exists ms) \<union> {m' \<in> {fst x}. known_driver (driver_map hw) m'}"
    by (auto simp: classify_mod_def Let_def)
  with Cons.IH [of "classify_mod hw alldrv x ms"] show ?case by auto
qed simp

lemma has_key_disk_map: "has_key (disk_mod_map xs) m \<longleftrightarrow> m \<in> fst ` set xs"
proof -
  have "fold (\<lambda>(m, p). dd_add m (if startswith p ''/'' then drop 1 p else p)) xs t =
      fold (\<lambda>(k, v). dd_add k v) (map (\<lambda>(m, p). (m, if startswith p ''/'' then drop 1 p else p)) xs) t" for t
    by (induction xs arbitrary: t) auto
  then have "fst ` set (disk_mod_map xs) = fst ` set (map (\<lambda>(m, p). (m, if startswith p ''/'' then drop 1 p else p)) xs)"
    unfolding disk_mod_map_def by (simp only: dd.keys_adds list.set image_empty Un_empty_left)
  also have "\<dots> = fst ` set xs" by (induction xs) auto
  finally show ?thesis by (simp only: has_key_iff)
qed

lemma removed_paths_returns:
  assumes "set ms \<subseteq> fst ` set allmod"
  shows "\<exists>ps. removed_paths (disk_mod_map allmod) mod_dir acc ms = Inr ps"
  using assms
proof (induction ms arbitrary: acc)
  case (Cons m ms)
  then have "has_key (disk_mod_map allmod) m" by (simp add: has_key_disk_map)
  then obtain ps where "dict_get (disk_mod_map allmod) m = Inr ps" by (auto dest: dict_get_total)
  with Cons show ?case by (simp add: removed_paths_def)
qed (simp add: removed_paths_def)

lemma dep_removed_on_disk: "base_stem ` set (dep_removed ne frd alldisk rm) \<subseteq> set alldisk"
  by (auto simp: dep_removed_def)

lemma find_removal_parts:
  assumes "find_removal a = Inr r"
  shows "\<exists>b new_patch new_bi full_rev_dep. scan_symtab (a_hw a) (a_symtab a) (last_of (map fst (a_allmod a))) = Inr b \<and>
    builtin_users (a_hw a) (a_rev_dep a) b = Inr (new_patch, new_bi) \<and> r_builtin r = b \<and>
    r_patch_list r = new_patch \<and> r_builtin_remove r = new_bi \<and>
    r_mod_remove r = add_users (a_rev_dep a) (map fst (a_allmod a)) (mod_remove (r_sets r)) (mod_remove (r_sets r)) \<and>
    mod_remove (r_sets r) = mod_remove (fold (classify_mod (a_hw a) (a_alldrv a)) (a_allmod a) no_mods) \<and>
    r_all_remove r = add_users (a_rev_dep a) (map fst (a_allmod a)) new_bi (r_mod_remove r) \<and>
    a_full_rev_dep a = Inr full_rev_dep \<and>
    r_dep_remove r = dep_removed (a_noentry a) full_rev_dep (map fst (a_allmod a)) (r_all_remove r) \<and>
    r_removed r = fold List.insert (r_all_remove r) (remdups (map base_stem (r_dep_remove r)))"
  using assms by (auto simp: find_removal_def Let_def bindE_Inr_iff split: prod.splits)

lemma removed_on_disk:
  assumes "find_removal a = Inr r"
  shows "set (r_removed r) \<subseteq> fst ` set (a_allmod a)"
proof -
  from find_removal_parts [OF assms] obtain new_bi full_rev_dep where
    rm: "r_mod_remove r = add_users (a_rev_dep a) (map fst (a_allmod a)) (mod_remove (r_sets r)) (mod_remove (r_sets r))"
      "mod_remove (r_sets r) = mod_remove (fold (classify_mod (a_hw a) (a_alldrv a)) (a_allmod a) no_mods)"
      "r_all_remove r = add_users (a_rev_dep a) (map fst (a_allmod a)) new_bi (r_mod_remove r)"
      "r_dep_remove r = dep_removed (a_noentry a) full_rev_dep (map fst (a_allmod a)) (r_all_remove r)"
      "r_removed r = fold List.insert (r_all_remove r) (remdups (map base_stem (r_dep_remove r)))"
    by blast
  have "set (mod_remove (r_sets r)) \<subseteq> fst ` set (a_allmod a)"
    using classify_sets [of "a_hw a" "a_alldrv a" "a_allmod a" no_mods] rm(2) by (auto simp: no_mods_def)
  then have "set (r_mod_remove r) \<subseteq> fst ` set (a_allmod a)" unfolding rm(1) set_add_users by auto
  then have "set (r_all_remove r) \<subseteq> fst ` set (a_allmod a)" unfolding rm(3) set_add_users by auto
  moreover have "base_stem ` set (r_dep_remove r) \<subseteq> fst ` set (a_allmod a)"
    using dep_removed_on_disk [of "a_noentry a" full_rev_dep "map fst (a_allmod a)" "r_all_remove r"]
    by (simp only: rm(4) set_map)
  ultimately show ?thesis unfolding rm(5) by (auto simp del: image_subset_iff)
qed

subsection \<open>The scan of the symbol table\<close>

text \<open>The symbols between the markers, and the unneeded driver an initcall belongs to.\<close>

fun initcall_names :: "bool \<Rightarrow> (int \<times> str \<times> str) list \<Rightarrow> str list" where
  "initcall_names started [] = []"
| "initcall_names started ((a, ty, name) # rows) =
     (if name = ''__initcall_start'' then initcall_names True rows
      else if name = ''__con_initcall_end'' then []
      else if started then name # initcall_names started rows else initcall_names started rows)"

definition native_of :: "hwinfo \<Rightarrow> str \<Rightarrow> str option" where
  "native_of hw name = map_option fst (find (\<lambda>(md, func). md \<notin> set (modlist hw) \<and>
     match_initcall_sig md func name = Inr True) (driver_map hw))"

definition is_initcall :: "str \<Rightarrow> bool" where
  "is_initcall name \<longleftrightarrow> startswith name ''__initcall__kmod_'' \<or> startswith name ''__initcall_''"

lemma native_driver_result:
  assumes "native_driver ml name ds b = Inr (found, b')"
  shows "skip_list b' = skip_list b \<and> start_flag b' = start_flag b \<and> stopped b' = stopped b \<and>
    (case find (\<lambda>(md, func). md \<notin> set ml \<and> match_initcall_sig md func name = Inr True) ds of
       None \<Rightarrow> \<not> found \<and> patch_list b' = patch_list b \<and> builtin_mod_remove b' = builtin_mod_remove b
     | Some d \<Rightarrow> found \<and> patch_list b' = List.insert (fst d, name) (patch_list b) \<and>
         builtin_mod_remove b' = List.insert (fst d) (builtin_mod_remove b))"
  using assms
proof (induction ds arbitrary: b)
  case (Cons d ds)
  obtain md func where d: "d = (md, func)" by (cases d)
  from Cons.prems obtain hit where hit: "match_initcall_sig md func name = Inr hit"
    by (auto simp: d bindE_Inr_iff)
  show ?case
  proof (cases "hit \<and> md \<notin> set ml")
    case True
    with Cons.prems hit show ?thesis by (auto simp: d)
  next
    case False
    from False Cons.prems hit obtain c where nd: "native_driver ml name ds c = Inr (found, b')"
      and c: "skip_list c = skip_list b" "start_flag c = start_flag b" "stopped c = stopped b"
        "patch_list c = patch_list b" "builtin_mod_remove c = builtin_mod_remove b"
      by (cases hit) (simp_all add: d)
    have f: "find P (d # ds) = find P ds" if "\<not> P d" for P using that by simp
    have "\<not> (case d of (md, func) \<Rightarrow> md \<notin> set ml \<and> match_initcall_sig md func name = Inr True)"
      using False hit by (auto simp: d)
    from f [of "\<lambda>d. case d of (md, func) \<Rightarrow> md \<notin> set ml \<and> match_initcall_sig md func name = Inr True", OF this]
    show ?thesis using Cons.IH [OF nd, unfolded c] by simp
  qed
qed auto

lemma symtab_row_result:
  assumes "symtab_row hw (a, ty, name) b = Inr b'" and "\<not> stopped b"
  shows "(name = ''__initcall_start'' \<longrightarrow> start_flag b' \<and> \<not> stopped b' \<and> patch_list b' = patch_list b \<and> skip_list b' = skip_list b) \<and>
    (name = ''__con_initcall_end'' \<longrightarrow> stopped b' \<and> patch_list b' = patch_list b \<and> skip_list b' = skip_list b) \<and>
    (name \<notin> {''__initcall_start'', ''__con_initcall_end''} \<longrightarrow> start_flag b' = start_flag b \<and> \<not> stopped b' \<and>
      set (patch_list b') = set (patch_list b) \<union> {(md, n). start_flag b \<and> n = name \<and> native_of hw name = Some md} \<and>
      set (skip_list b') = set (skip_list b) \<union> {n. start_flag b \<and> n = name \<and> native_of hw name = None \<and> is_initcall name})"
proof -
  define c where "c = (if ty \<in> set func_types then b\<lparr>allkernfunc := List.insert name (allkernfunc b)\<rparr> else b)"
  have c: "patch_list c = patch_list b" "skip_list c = skip_list b" "start_flag c = start_flag b" "\<not> stopped c"
    using assms(2) by (simp_all add: c_def)
  have row: "symtab_row hw (a, ty, name) b = (if name = ''__initcall_start'' then Inr (c\<lparr>start_flag := True\<rparr>)
       else if name = ''__con_initcall_end'' then Inr (c\<lparr>stopped := True\<rparr>)
       else if start_flag c then
         bindE (native_driver (modlist hw) name (driver_map hw) c) (\<lambda>(found, b).
           Inr (if \<not> found \<and> is_initcall name then b\<lparr>skip_list := List.insert name (skip_list b)\<rparr> else b))
       else Inr c)"
    using assms(2) by (simp add: symtab_row_def Let_def c_def is_initcall_def)
  consider "name = ''__initcall_start''" | "name = ''__con_initcall_end''"
    | "name \<notin> {''__initcall_start'', ''__con_initcall_end''}" "\<not> start_flag c"
    | "name \<notin> {''__initcall_start'', ''__con_initcall_end''}" "start_flag c" by blast
  then show ?thesis
  proof cases
    case 4
    with assms(1) row obtain found d where nd: "native_driver (modlist hw) name (driver_map hw) c = Inr (found, d)"
      and b': "b' = (if \<not> found \<and> is_initcall name then d\<lparr>skip_list := List.insert name (skip_list d)\<rparr> else d)"
      by (auto simp: bindE_Inr_iff)
    from native_driver_result [OF nd] c 4 show ?thesis
      by (cases "native_of hw name") (auto simp: b' native_of_def split: option.splits)
  qed (use assms row c in auto)
qed

lemma scan_rows:
  assumes "foldE (symtab_row hw) rows b = Inr b'" and "\<not> stopped b"
  shows "set (patch_list b') = set (patch_list b) \<union>
      {(md, n). n \<in> set (initcall_names (start_flag b) rows) \<and> native_of hw n = Some md} \<and>
    set (skip_list b') = set (skip_list b) \<union>
      {n \<in> set (initcall_names (start_flag b) rows). native_of hw n = None \<and> is_initcall n}"
  using assms
proof (induction rows arbitrary: b)
  case (Cons row rows)
  obtain a ty name where row: "row = (a, ty, name)" by (cases row)
  from Cons.prems(1) obtain c where c: "symtab_row hw (a, ty, name) b = Inr c"
    and rest: "foldE (symtab_row hw) rows c = Inr b'" by (auto simp: row bindE_Inr_iff)
  note res = symtab_row_result [OF c Cons.prems(2)]
  have done': "foldE (symtab_row hw) rows c = Inr c" if "stopped c"
    using that by (induction rows) (auto simp: symtab_row_def)
  show ?case
  proof (cases "name = ''__con_initcall_end''")
    case True
    with res done' rest show ?thesis by (simp add: row)
  next
    case False
    with res have "\<not> stopped c" by blast
    note IH = Cons.IH [OF rest this]
    show ?thesis
    proof (cases "name = ''__initcall_start''")
      case True
      with res IH show ?thesis by (simp add: row)
    next
      case False
      with \<open>name \<noteq> ''__con_initcall_end''\<close> res have "start_flag c = start_flag b"
        "set (patch_list c) = set (patch_list b) \<union> {(md, n). start_flag b \<and> n = name \<and> native_of hw name = Some md}"
        "set (skip_list c) = set (skip_list b) \<union> {n. start_flag b \<and> n = name \<and> native_of hw name = None \<and> is_initcall name}"
        by blast+
      with IH False \<open>name \<noteq> ''__con_initcall_end''\<close> show ?thesis by (auto simp: row)
    qed
  qed
qed simp

lemma first_match_in: "first_match md func ss = Inr (Some n) \<Longrightarrow> n \<in> set ss \<and> match_initcall_sig md func n = Inr True"
  by (induction ss) (auto simp: bindE_Inr_iff split: if_splits)

lemma builtin_user_result:
  assumes "builtin_user hw b dep st = Inr st'"
  shows "st' = st \<or> (\<exists>md n. last_mod b = Some md \<and> n \<in> set (skip_list b) \<and>
    st' = (List.insert (md, n) (fst st), List.insert dep (snd st)))"
proof -
  from assms obtain o' func where fm: "first_match dep func (skip_list b) = Inr o'"
    and st': "(case o' of None \<Rightarrow> Inr st | Some name \<Rightarrow> (case last_mod b of None \<Rightarrow> Inl UnboundLocalError
        | Some md \<Rightarrow> Inr (List.insert (md, name) (fst st), List.insert dep (snd st)))) = Inr st'"
    unfolding builtin_user_def Let_def by (elim bindE_InrE)
  show ?thesis
  proof (cases o')
    case (Some n)
    with fm have "n \<in> set (skip_list b)" by (auto dest: first_match_in)
    with Some st' show ?thesis by (cases "last_mod b") auto
  qed (use st' in simp)
qed

lemma builtin_users_stale:
  assumes "builtin_users hw rev_dep b = Inr (new_patch, new_bi)"
  shows "set new_patch \<subseteq> set (patch_list b) \<union> {(md, n). last_mod b = Some md \<and> n \<in> set (skip_list b)}"
proof -
  let ?P = "\<lambda>st :: (str \<times> str) list \<times> pyset. set (fst st) \<subseteq>
    set (patch_list b) \<union> {(md, n). last_mod b = Some md \<and> n \<in> set (skip_list b)}"
  have step: "?P st'" if "builtin_user hw b dep st = Inr st'" and "?P st" for dep st st'
    using builtin_user_result [OF that(1)] that(2) by (elim disjE exE conjE) simp_all
  have inner: "?P st'" if "foldE (builtin_user hw b) ds st = Inr st'" and "?P st" for ds st st'
    using that by (rule foldE_invariant [where P = ?P]) (rule step)
  have "?P (new_patch, new_bi)"
    using assms unfolding builtin_users_def
    by (rule foldE_invariant [where P = ?P]) (simp, rule inner)
  then show ?thesis by simp
qed

text \<open>
  The dependents of the builtin drivers the scan removes, and whether an initcall fits a driver; a driver
  the database does not have is looked for with an empty function name.
\<close>

definition dependents :: "analysis \<Rightarrow> removal \<Rightarrow> str set" where
  "dependents a r = {dep. \<exists>m \<in> set (builtin_mod_remove (r_builtin r)). dep \<in> set (dd_get (a_rev_dep a) m)}"

definition fits :: "hwinfo \<Rightarrow> str \<Rightarrow> str \<Rightarrow> bool" where
  "fits hw dep n \<longleftrightarrow> match_initcall_sig dep (case map_of (driver_map hw) dep of None \<Rightarrow> [] | Some f \<Rightarrow> f) n = Inr True"

lemma first_match_find:
  assumes "first_match md func ss = Inr o'"
  shows "o' = find (\<lambda>n. match_initcall_sig md func n = Inr True) ss"
  using assms by (induction ss) (auto simp: bindE_Inr_iff split: if_splits)

lemma builtin_user_sets:
  assumes "builtin_user hw b dep st = Inr st'"
  shows "snd ` set (fst st') = snd ` set (fst st) \<union> {n. find (fits hw dep) (skip_list b) = Some n} \<and>
    set (snd st') = set (snd st) \<union> {d. d = dep \<and> (\<exists>n \<in> set (skip_list b). fits hw dep n)}"
proof -
  define func where "func = (case map_of (driver_map hw) dep of None \<Rightarrow> [] | Some f \<Rightarrow> f)"
  from assms obtain o' where fm: "first_match dep func (skip_list b) = Inr o'"
    and st': "(case o' of None \<Rightarrow> Inr st | Some name \<Rightarrow> (case last_mod b of None \<Rightarrow> Inl UnboundLocalError
        | Some md \<Rightarrow> Inr (List.insert (md, name) (fst st), List.insert dep (snd st)))) = Inr st'"
    unfolding builtin_user_def Let_def func_def by (elim bindE_InrE)
  have o': "o' = find (fits hw dep) (skip_list b)"
    using first_match_find [OF fm] unfolding func_def fits_def [abs_def] by simp
  show ?thesis
  proof (cases o')
    case None
    with o' have "\<not> (\<exists>n \<in> set (skip_list b). fits hw dep n)" by (auto simp: find_None_iff dest: sym)
    with None o' st' show ?thesis by auto
  next
    case (Some n)
    with o' have "find (fits hw dep) (skip_list b) = Some n" by simp
    moreover from this have "\<exists>n \<in> set (skip_list b). fits hw dep n" by (auto simp: find_Some_iff)
    ultimately show ?thesis using Some st' by (cases "last_mod b") auto
  qed
qed

lemma builtin_users_sets:
  assumes "builtin_users hw rev_dep b = Inr (new_patch, new_bi)"
  shows "set new_bi = set (builtin_mod_remove b) \<union>
      {dep \<in> {dep. \<exists>m \<in> set (builtin_mod_remove b). dep \<in> set (dd_get rev_dep m)}. \<exists>n \<in> set (skip_list b). fits hw dep n}"
    and "snd ` set new_patch = snd ` set (patch_list b) \<union>
      {n. \<exists>dep \<in> {dep. \<exists>m \<in> set (builtin_mod_remove b). dep \<in> set (dd_get rev_dep m)}. find (fits hw dep) (skip_list b) = Some n}"
proof -
  let ?deps = "\<lambda>m. if has_key rev_dep m then dd_get rev_dep m else []"
  have deps: "?deps m = dd_get rev_dep m" for m by (simp add: has_key_iff dd_get_outside)
  have bi: "set (snd v) = set (snd u) \<union> (\<Union>dep \<in> set (dd_get rev_dep m). {d. d = dep \<and> (\<exists>n \<in> set (skip_list b). fits hw dep n)})"
    if "foldE (builtin_user hw b) (?deps m) u = Inr v" for m u v
    by (rule foldE_union [OF that [unfolded deps], where A = "\<lambda>st. set (snd st)"])
      (rule builtin_user_sets [THEN conjunct2])
  have pl: "snd ` set (fst v) = snd ` set (fst u) \<union> (\<Union>dep \<in> set (dd_get rev_dep m). {n. find (fits hw dep) (skip_list b) = Some n})"
    if "foldE (builtin_user hw b) (?deps m) u = Inr v" for m u v
    by (rule foldE_union [OF that [unfolded deps], where A = "\<lambda>st. snd ` set (fst st)"])
      (rule builtin_user_sets [THEN conjunct1])
  note run = assms [unfolded builtin_users_def]
  from foldE_union [OF run, where A = "\<lambda>st. set (snd st)", OF bi]
  show "set new_bi = set (builtin_mod_remove b) \<union>
      {dep \<in> {dep. \<exists>m \<in> set (builtin_mod_remove b). dep \<in> set (dd_get rev_dep m)}. \<exists>n \<in> set (skip_list b). fits hw dep n}"
    by auto
  from foldE_union [OF run, where A = "\<lambda>st. snd ` set (fst st)", OF pl]
  show "snd ` set new_patch = snd ` set (patch_list b) \<union>
      {n. \<exists>dep \<in> {dep. \<exists>m \<in> set (builtin_mod_remove b). dep \<in> set (dd_get rev_dep m)}. find (fits hw dep) (skip_list b) = Some n}"
    by auto
qed

subsection \<open>A small image\<close>

text \<open>
  The image holds the modules \<open>e1000\<close> and \<open>usbcore\<close>; the device database knows both and only
  \<open>usbcore\<close> is needed. The kernel has initcalls of both and of \<open>led\<close>, which depends on \<open>e1000\<close>.
\<close>

definition demo_hw :: hwinfo where
  "demo_hw = \<lparr>devlist = [], dev_db = [], driver_map = [(''e1000'', ''e1000_init''), (''usbcore'', ''usb_init'')],
     modlist = [''usbcore'']\<rparr>"

definition demo_symtab :: "(int \<times> str \<times> str) list" where
  "demo_symtab = [(1, ''T'', ''start_kernel''), (2, ''D'', ''__initcall_start''),
     (3, ''d'', ''__initcall__kmod_e1000__7_9_e1000_init6''), (4, ''d'', ''__initcall__kmod_led__7_9_led_init6''),
     (5, ''d'', ''__initcall__kmod_usbcore__7_9_usb_init6''), (6, ''D'', ''__con_initcall_end''),
     (7, ''d'', ''__initcall__kmod_e1000__8_9_e1000_init6'')]"

definition demo_walk :: walk where
  "demo_walk = [(''/m/net'', [''e1000.ko.zst'', ''usbcore.ko''])]"

definition demo_analysis :: analysis where
  "demo_analysis = \<lparr>a_hw = demo_hw, a_odeps = empty_objdeps [], a_alldrv = [''e1000''], a_dep = [],
     a_rev_dep = [(''e1000'', [''led''])], a_allmod = disk_mods ''/m'' demo_walk,
     a_symtab = demo_symtab, a_noentry = [''/m/net/usbcore.ko''], a_full_rev_dep = Inr []\<rparr>"

definition demo_builtin :: builtin where
  "demo_builtin = \<lparr>patch_list = [(''e1000'', ''__initcall__kmod_e1000__7_9_e1000_init6'')],
     skip_list = [''__initcall__kmod_usbcore__7_9_usb_init6'', ''__initcall__kmod_led__7_9_led_init6''],
     builtin_mod_remove = [''e1000''], builtin_mod_exists = [''usbcore'', ''e1000''],
     allkernfunc = [''start_kernel''], start_flag = True, stopped = True, last_mod = Some ''usbcore''\<rparr>"

definition demo_removal :: removal where
  "demo_removal = \<lparr>r_sets = \<lparr>mod_keeps = [], mod_remove = [], mod_remove_path = [], mod_exists = [],
       mod_unknown = [''e1000.ko'', ''usbcore.ko'']\<rparr>,
     r_builtin = demo_builtin,
     r_allbuiltin = [(''usbcore'', ''__initcall__kmod_usbcore__7_9_usb_init6''),
       (''e1000'', ''__initcall__kmod_e1000__7_9_e1000_init6'')],
     r_mod_remove = [],
     r_patch_list = [(''usbcore'', ''__initcall__kmod_led__7_9_led_init6''),
       (''e1000'', ''__initcall__kmod_e1000__7_9_e1000_init6'')],
     r_builtin_remove = [''led'', ''e1000''], r_all_remove = [], r_dep_remove = [], r_removed = [],
     r_last_m = Some ''/m/net/usbcore.ko''\<rparr>"

lemma demo_find_removal: "find_removal demo_analysis = Inr demo_removal"
  by code_simp

lemma demo_scan: "scan_symtab demo_hw demo_symtab (Some ''e1000.ko'') = Inr demo_builtin"
  by code_simp

subsection \<open>Properties\<close>

text \<open>
  C6: the scan of the symbol table takes exactly the initcalls between the markers: an initcall is put
  on the patch list with the first driver of the database that is not needed and whose signature
  fits, and skipped when there is none. No initcall is on the list of a needed driver.
\<close>

theorem scan_symtab_exact:
  assumes "scan_symtab hw symtab lm = Inr b"
  shows "set (patch_list b) = {(md, n). n \<in> set (initcall_names False symtab) \<and> native_of hw n = Some md} \<and>
    set (skip_list b) = {n \<in> set (initcall_names False symtab). native_of hw n = None \<and> is_initcall n} \<and>
    fst ` set (patch_list b) \<inter> set (modlist hw) = {}"
proof -
  from scan_rows [OF assms [unfolded scan_symtab_def]]
  have "set (patch_list b) = {(md, n). n \<in> set (initcall_names False symtab) \<and> native_of hw n = Some md}"
    "set (skip_list b) = {n \<in> set (initcall_names False symtab). native_of hw n = None \<and> is_initcall n}"
    by (simp_all add: no_builtin_def)
  moreover have "md \<notin> set (modlist hw)" if "native_of hw n = Some md" for n md
    using that by (auto simp: native_of_def find_Some_iff)
  ultimately show ?thesis by auto
qed

theorem scan_symtab_exact_witness:
  "set (patch_list demo_builtin) =
     {(md, n). n \<in> set (initcall_names False demo_symtab) \<and> native_of demo_hw n = Some md} \<and>
   set (skip_list demo_builtin) =
     {n \<in> set (initcall_names False demo_symtab). native_of demo_hw n = None \<and> is_initcall n} \<and>
   fst ` set (patch_list demo_builtin) \<inter> set (modlist demo_hw) = {}"
  by (rule scan_symtab_exact [OF demo_scan])

text \<open>
  The modules found for removal are modules of the image, so the look-up of their paths never
  fails.
\<close>

theorem removed_modules_on_disk:
  assumes "find_removal a = Inr r"
  shows "set (r_removed r) \<subseteq> fst ` set (a_allmod a) \<and>
    (\<exists>ps. removed_paths (disk_mod_map (a_allmod a)) mod_dir (r_dep_remove r) (r_removed r) = Inr ps)"
  using removed_on_disk [OF assms] removed_paths_returns by blast

theorem removed_modules_on_disk_witness:
  "set (r_removed demo_removal) \<subseteq> fst ` set (a_allmod demo_analysis) \<and>
   (\<exists>ps. removed_paths (disk_mod_map (a_allmod demo_analysis)) ''/m'' (r_dep_remove demo_removal)
     (r_removed demo_removal) = Inr ps)"
  by (rule removed_modules_on_disk [OF demo_find_removal])

text \<open>
  The modules of the image are classified by their names: those that match no needed driver and
  some known driver are removed, those that match a needed driver kept.
\<close>

theorem classify_exact:
  "set (mod_remove (fold (classify_mod hw alldrv) allmod no_mods)) =
     {m \<in> fst ` set allmod. known_driver (driver_map hw) m \<and> \<not> needed_driver (modlist hw) m} \<and>
   set (mod_keeps (fold (classify_mod hw alldrv) allmod no_mods)) =
     {m \<in> fst ` set allmod. needed_driver (modlist hw) m}"
  using classify_sets [of hw alldrv allmod no_mods] by (simp add: no_mods_def)

text \<open>
  C8: the builtin drivers that depend on a removed one are removed with it: beside the drivers the scan
  takes, the result removes exactly the dependents of those that have a skipped initcall, and of each
  the first such initcall is given for patching. As \<open>depmod\<close> lists dependencies transitively, no
  driver with a skipped initcall is left that depends on a removed one.
\<close>

theorem builtin_dependents_removed:
  assumes "find_removal a = Inr r"
    and "\<And>m x y. x \<in> set (dd_get (a_rev_dep a) m) \<Longrightarrow> y \<in> set (dd_get (a_rev_dep a) x) \<Longrightarrow> y \<in> set (dd_get (a_rev_dep a) m)"
  shows "set (r_builtin_remove r) = set (builtin_mod_remove (r_builtin r)) \<union>
      {dep \<in> dependents a r. \<exists>n \<in> set (skip_list (r_builtin r)). fits (a_hw a) dep n} \<and>
    snd ` set (r_patch_list r) = snd ` set (patch_list (r_builtin r)) \<union>
      {n. \<exists>dep \<in> dependents a r. find (fits (a_hw a) dep) (skip_list (r_builtin r)) = Some n} \<and>
    {dep. \<exists>m \<in> set (r_builtin_remove r). dep \<in> set (dd_get (a_rev_dep a) m)} \<inter>
      {dep. \<exists>n \<in> set (skip_list (r_builtin r)). fits (a_hw a) dep n} \<subseteq> set (r_builtin_remove r)"
proof -
  from find_removal_parts [OF assms(1)]
  have users: "builtin_users (a_hw a) (a_rev_dep a) (r_builtin r) = Inr (r_patch_list r, r_builtin_remove r)" by blast
  note sets = builtin_users_sets [OF users, folded dependents_def [of a r]]
  have "dep \<in> set (r_builtin_remove r)" if "m \<in> set (r_builtin_remove r)" and "dep \<in> set (dd_get (a_rev_dep a) m)"
    and "n \<in> set (skip_list (r_builtin r))" and "fits (a_hw a) dep n" for m dep n
  proof -
    from that(1) have "m \<in> set (builtin_mod_remove (r_builtin r)) \<or> m \<in> dependents a r" unfolding sets(1) by blast
    then have "dep \<in> dependents a r" using that(2) assms(2) unfolding dependents_def by blast
    with that(3,4) show ?thesis unfolding sets(1) by blast
  qed
  with sets show ?thesis by blast
qed

theorem builtin_dependents_removed_witness:
  "''led'' \<in> dependents demo_analysis demo_removal \<and>
   set [''led'', ''e1000''] = set [''e1000''] \<union>
     {dep \<in> dependents demo_analysis demo_removal. \<exists>n \<in> set (skip_list demo_builtin). fits demo_hw dep n}"
proof -
  have "dd_get (a_rev_dep demo_analysis) m = (if m = ''e1000'' then [''led''] else [])" for m
    by (simp add: demo_analysis_def dd_get_def)
  then have trans: "y \<in> set (dd_get (a_rev_dep demo_analysis) m)"
    if "x \<in> set (dd_get (a_rev_dep demo_analysis) m)" "y \<in> set (dd_get (a_rev_dep demo_analysis) x)" for m x y
    using that by (auto split: if_splits)
  have "set (r_builtin_remove demo_removal) = set (builtin_mod_remove (r_builtin demo_removal)) \<union>
      {dep \<in> dependents demo_analysis demo_removal. \<exists>n \<in> set (skip_list (r_builtin demo_removal)). fits (a_hw demo_analysis) dep n}"
    by (rule builtin_dependents_removed [OF demo_find_removal, THEN conjunct1]) (rule trans)
  moreover have "''led'' \<in> dependents demo_analysis demo_removal"
    by (simp add: dependents_def demo_removal_def demo_builtin_def demo_analysis_def dd_get_def)
  ultimately show ?thesis by (simp add: demo_removal_def demo_builtin_def demo_analysis_def)
qed

text \<open>
  On disk, the dependents of modules are added by \<open>add_users\<close>. With names of the same form in
  \<open>modules.dep\<close> and on the image no module would be left that depends on a removed one; the next
  property shows that the names differ.
\<close>

lemma add_users_closed:
  assumes "get_deps_text data = Inr (dep, rev_dep)"
    and "\<And>m x y. x \<in> set (dd_get rev_dep m) \<Longrightarrow> y \<in> set (dd_get rev_dep x) \<Longrightarrow> y \<in> set (dd_get rev_dep m)"
    and "k \<in> set alldisk" and "k \<notin> set (add_users rev_dep alldisk ms ms)"
  shows "set (dd_get dep k) \<inter> set (add_users rev_dep alldisk ms ms) = {}"
proof -
  have graph: "is_dep_graph (dep, rev_dep)" using assms(1) by (auto simp: is_dep_graph_def)
  have "k \<in> set (add_users rev_dep alldisk ms ms)"
    if "d \<in> set (dd_get dep k)" and "d \<in> set (add_users rev_dep alldisk ms ms)" for d
  proof -
    have "k \<in> set (dd_get rev_dep d)" using modules_dep.reversed [OF graph] that(1) by simp
    with that(2) assms(2,3) show ?thesis by (auto simp: set_add_users)
  qed
  with assms(4) show ?thesis by blast
qed

lemma dash_to_us_endswith_ko: "endswith m ''.ko'' \<Longrightarrow> endswith (dash_to_us m) ''.ko''"
  by (auto simp: endswith_suffix suffix_def dash_to_us_ko)

lemma no_known_ko:
  assumes "\<And>k. has_key drv k \<Longrightarrow> \<not> endswith k ''.ko''" and "endswith m ''.ko''"
  shows "\<not> known_driver drv m"
  using assms dash_to_us_endswith_ko by (auto simp: known_driver_def)

lemma no_user_ko:
  assumes "\<And>x y. y \<in> set (dd_get rev_dep x) \<Longrightarrow> \<not> endswith y ''.ko''" and "\<And>m. m \<in> set alldisk \<Longrightarrow> endswith m ''.ko''"
  shows "set (add_users rev_dep alldisk ms acc) = set acc"
  using assms by (auto simp: set_add_users)

lemma base_stem_no_ko: "\<not> endswith (base_stem m) ''.ko''"
proof
  assume "endswith (base_stem m) ''.ko''"
  then obtain s where "base_stem m = s @ ''.ko''" by (auto simp: endswith_suffix suffix_def)
  then have "CHR ''.'' \<in> set (base_stem m)" by simp
  then show False using stem_of_no_dot by (simp add: base_stem_def)
qed

text \<open>
  C9: no module of the image is ever removed: the modules of the image are named with their suffix
  \<open>.ko\<close>, the drivers of the database and the modules of \<open>modules.dep\<close> without it, and so none of the
  first is found among the others. (In the witness \<open>e1000\<close> is known and not needed, and its file
  stays.)
\<close>

theorem no_module_removed:
  assumes "find_removal a = Inr r" and "a_allmod a = disk_mods md w"
    and "\<And>k. has_key (driver_map (a_hw a)) k \<Longrightarrow> \<not> endswith k ''.ko''"
    and "\<And>x y. y \<in> set (dd_get (a_rev_dep a) x) \<Longrightarrow> \<not> endswith y ''.ko''"
  shows "mod_remove (r_sets r) = [] \<and> r_removed r = []"
proof -
  from find_removal_parts [OF assms(1)] obtain new_bi full_rev_dep where
    rm: "r_mod_remove r = add_users (a_rev_dep a) (map fst (a_allmod a)) (mod_remove (r_sets r)) (mod_remove (r_sets r))"
      "mod_remove (r_sets r) = mod_remove (fold (classify_mod (a_hw a) (a_alldrv a)) (a_allmod a) no_mods)"
      "r_all_remove r = add_users (a_rev_dep a) (map fst (a_allmod a)) new_bi (r_mod_remove r)"
      "r_dep_remove r = dep_removed (a_noentry a) full_rev_dep (map fst (a_allmod a)) (r_all_remove r)"
      "r_removed r = fold List.insert (r_all_remove r) (remdups (map base_stem (r_dep_remove r)))"
    by blast
  have ko: "endswith m ''.ko''" if "m \<in> set (map fst (a_allmod a))" for m
    using that assms(2) by (auto dest: disk_mods_ko)
  have "set (mod_remove (r_sets r)) = {}"
    using classify_sets [of "a_hw a" "a_alldrv a" "a_allmod a" no_mods] ko no_known_ko [OF assms(3)]
    by (auto simp: rm(2) no_mods_def)
  moreover from this have "set (r_mod_remove r) = {}"
    by (simp only: rm(1) no_user_ko [OF assms(4) ko])
  then have "set (r_all_remove r) = {}"
    by (simp only: rm(3) no_user_ko [OF assms(4) ko])
  moreover have "set (r_dep_remove r) = {}"
    using ko base_stem_no_ko by (auto simp: rm(4) dep_removed_def)
  ultimately show ?thesis by (simp add: rm(5))
qed

theorem no_module_removed_witness:
  "known_driver (driver_map demo_hw) ''e1000'' \<and> \<not> needed_driver (modlist demo_hw) ''e1000'' \<and>
   mod_remove (r_sets demo_removal) = [] \<and> r_removed demo_removal = []"
proof -
  have "mod_remove (r_sets demo_removal) = [] \<and> r_removed demo_removal = []"
    by (rule no_module_removed [OF demo_find_removal])
       (auto simp: demo_analysis_def demo_hw_def has_key_iff endswith_rev dd_get_def split: if_splits)
  then show ?thesis by (simp add: known_driver_def needed_driver_def demo_hw_def has_key_iff dash_to_us_def)
qed

text \<open>
  C10: the initcalls added for the dependents of removed builtin drivers are all recorded under one
  driver, the last one the scan of the symbol table tried, whatever driver they belong to. (In the
  witness the initcall of \<open>led\<close> is recorded under \<open>usbcore\<close>, a needed driver.)
\<close>

theorem builtin_users_one_driver:
  assumes "find_removal a = Inr r" and "(md, n) \<in> set (r_patch_list r)" and "(md, n) \<notin> set (patch_list (r_builtin r))"
  shows "last_mod (r_builtin r) = Some md"
proof -
  from find_removal_parts [OF assms(1)] obtain new_bi
    where "builtin_users (a_hw a) (a_rev_dep a) (r_builtin r) = Inr (r_patch_list r, new_bi)"
    by blast
  from builtin_users_stale [OF this] assms(2,3) show ?thesis by auto
qed

theorem builtin_users_one_driver_witness:
  "''usbcore'' \<in> set (modlist demo_hw) \<and> last_mod (r_builtin demo_removal) = Some ''usbcore''"
proof -
  have "last_mod (r_builtin demo_removal) = Some ''usbcore''"
    by (rule builtin_users_one_driver [OF demo_find_removal, where n = "''__initcall__kmod_led__7_9_led_init6''"])
       (simp_all add: demo_removal_def demo_builtin_def)
  then show ?thesis by (simp add: demo_hw_def)
qed

subsection \<open>Drivers of hardware that is present\<close>







end
