(* ===== verification/PyBytes.thy ===== *)
theory PyBytes
  imports PyPrelude "HOL-Library.Word"
begin

section \<open>Byte lists with Python's indexing\<close>

text \<open>
  A file read in binary mode is a list of bytes, \<open>8 word list\<close>. Indices and slice bounds are
  integers: a negative one counts from the end, a slice is cut to the list, an index outside it
  raises \<open>IndexError\<close>.
\<close>

type_synonym byte = "8 word"
type_synonym bytes = "byte list"

definition slice_pos :: "nat \<Rightarrow> int \<Rightarrow> nat" where
  "slice_pos n i = (if i < 0 then nat (max 0 (i + int n)) else min n (nat i))"

definition py_slice :: "'a list \<Rightarrow> int \<Rightarrow> int \<Rightarrow> 'a list" where
  "py_slice xs i j =
     (let a = slice_pos (length xs) i; b = slice_pos (length xs) j in take (b - a) (drop a xs))"

definition index_pos :: "nat \<Rightarrow> int \<Rightarrow> nat res" where
  "index_pos n i =
     (if 0 \<le> i \<and> i < int n then Inr (nat i)
      else if - int n \<le> i \<and> i < 0 then Inr (nat (i + int n)) else Inl IndexError)"

definition byte_at :: "'a list \<Rightarrow> int \<Rightarrow> 'a res" where
  "byte_at xs i = bindE (index_pos (length xs) i) (\<lambda>k. Inr (xs ! k))"

definition set_byte :: "int \<Rightarrow> 'a \<Rightarrow> 'a list \<Rightarrow> 'a list res" where
  "set_byte i v xs = bindE (index_pos (length xs) i) (\<lambda>k. Inr (xs[k := v]))"

text \<open>\<open>for pi in range(lo, hi): data[off+pi] = v\<close>\<close>

definition fill_bytes :: "int \<Rightarrow> nat \<Rightarrow> nat \<Rightarrow> 'a \<Rightarrow> 'a list \<Rightarrow> 'a list res" where
  "fill_bytes off lo hi v = foldE (\<lambda>pi. set_byte (off + int pi) v) [lo..<hi]"

subsection \<open>Inside the list\<close>

lemma index_pos_nat [simp]: "i < n \<Longrightarrow> index_pos n (int i) = Inr i"
  by (simp add: index_pos_def)

lemma index_pos_bound: "index_pos n i = Inr k \<Longrightarrow> k < n"
  by (auto simp: index_pos_def split: if_splits)

lemma byte_at_nat [simp]: "i < length xs \<Longrightarrow> byte_at xs (int i) = Inr (xs ! i)"
  by (simp add: byte_at_def)

lemma set_byte_nat [simp]: "i < length xs \<Longrightarrow> set_byte (int i) v xs = Inr (xs[i := v])"
  by (simp add: set_byte_def)

lemma py_slice_nat: "py_slice xs (int i) (int j) = take (j - i) (drop i xs)"
  by (auto simp: py_slice_def slice_pos_def Let_def min_def)

lemma length_set_byte: "set_byte i v xs = Inr ys \<Longrightarrow> length ys = length xs"
  by (auto simp: set_byte_def bindE_Inr_iff)

text \<open>Filling a range that lies inside the list.\<close>

definition filled :: "nat \<Rightarrow> nat \<Rightarrow> 'a \<Rightarrow> 'a list \<Rightarrow> 'a list" where
  "filled lo hi v xs = map (\<lambda>k. if lo \<le> k \<and> k < hi then v else xs ! k) [0..<length xs]"

lemma length_filled [simp]: "length (filled lo hi v xs) = length xs"
  by (simp add: filled_def)

lemma nth_filled [simp]:
  "k < length xs \<Longrightarrow> filled lo hi v xs ! k = (if lo \<le> k \<and> k < hi then v else xs ! k)"
  by (simp add: filled_def)

lemma filled_empty [simp]: "hi \<le> lo \<Longrightarrow> filled lo hi v xs = xs"
  by (rule nth_equalityI) auto

lemma filled_Suc: "lo \<le> hi \<Longrightarrow> filled lo (Suc hi) v xs = (filled lo hi v xs)[hi := v]"
  by (intro nth_equalityI) (auto simp: nth_list_update less_Suc_eq)

lemma fill_bytes_inside:
  assumes "off + hi \<le> length xs"
  shows "fill_bytes (int off) lo hi v xs = Inr (filled (off + lo) (off + hi) v xs)"
  using assms
proof (induction hi)
  case (Suc hi)
  show ?case
  proof (cases "lo \<le> hi")
    case True
    have "set_byte (int off + int hi) v (filled (off + lo) (off + hi) v xs) =
        Inr ((filled (off + lo) (off + hi) v xs)[off + hi := v])"
      using Suc.prems set_byte_nat [of "off + hi" "filled (off + lo) (off + hi) v xs" v] by simp
    with True Suc show ?thesis
      by (simp add: fill_bytes_def foldE_append filled_Suc)
  qed (simp add: fill_bytes_def)
qed (simp add: fill_bytes_def)

end
