(* ===== verification/BzImage.thy ===== *)
theory BzImage
  imports PyBytes PyStr
begin

section \<open>Repacking the kernel image: repack_bzimage.py\<close>

text \<open>
  \<open>kernel_patch/repack_bzimage.py\<close> finds the compressed kernel inside a boot image, compresses the
  patched kernel the same way and writes it over the old one when it fits. The (de)compressors and
  \<open>dd\<close> are external programs and parameters here: \<open>unpack alg bs\<close> is what the decompressor of
  \<open>alg\<close> writes when it is fed \<open>bs\<close>, \<open>compress alg k\<close> the compressed kernel, and
  \<open>dd inp seek file\<close> the file after \<open>dd bs=1 conv=notrunc\<close> has copied \<open>inp\<close> to offset \<open>seek\<close>. What
  is relied on is that \<open>dd\<close> replaces exactly the bytes it copies (\<open>good_dd\<close>).
\<close>

definition comp_signature :: "(str \<times> bytes) list" where
  "comp_signature = [(''zst'', [0x28, 0xb5, 0x2f, 0xfd]), (''gz'', [0x1f, 0x8b, 0x08]),
     (''bz2'', [0x42, 0x5a, 0x68]), (''xz'', [0xfd, 0x37, 0x7a, 0x58, 0x5a, 0x00]),
     (''lzma'', [0x5d, 0x00, 0x00, 0x00]), (''lz4'', [0x02, 0x21, 0x4c, 0x18]), (''lzo'', [0x89, 0x4c, 0x5a])]"

text \<open>The algorithms in order; for each the first position with its signature that decompresses.\<close>

fun first_packed :: "(str \<Rightarrow> bytes \<Rightarrow> bytes) \<Rightarrow> bytes \<Rightarrow> (str \<times> bytes) list \<Rightarrow> (str \<times> nat) option" where
  "first_packed unpack data [] = None"
| "first_packed unpack data ((alg, sig) # algs) =
     (case find (\<lambda>i. take (length sig) (drop i data) = sig \<and> unpack alg (drop i data) \<noteq> []) [0..<length data] of
        Some i \<Rightarrow> Some (alg, i)
      | None \<Rightarrow> first_packed unpack data algs)"

definition identify_compression_algorithm :: "(str \<Rightarrow> bytes \<Rightarrow> bytes) \<Rightarrow> bytes \<Rightarrow> (str \<times> nat) option" where
  "identify_compression_algorithm unpack data = first_packed unpack data comp_signature"

definition piggy_signature :: bytes where
  "piggy_signature = [0x31, 0xc0, 0x48, 0x8d]"

text \<open>\<open>range(a, n, 16)\<close>\<close>

definition range16 :: "nat \<Rightarrow> nat \<Rightarrow> nat list" where
  "range16 a n = map (\<lambda>k. a + 16 * k) [0..<(n - a + 15) div 16]"

definition find_piggy :: "bytes \<Rightarrow> nat \<Rightarrow> nat option" where
  "find_piggy data start =
     (let start = (if start \<noteq> 0 then start - start mod 16 + 16 else start)
      in find (\<lambda>i. take 4 (drop i data) = piggy_signature) (range16 start (length data)))"

type_synonym dd = "bytes \<Rightarrow> nat \<Rightarrow> bytes \<Rightarrow> bytes"

definition good_dd :: "dd \<Rightarrow> bool" where
  "good_dd dd \<longleftrightarrow> (\<forall>inp seek file. seek + length inp \<le> length file \<longrightarrow>
     dd inp seek file = take seek file @ inp @ drop (seek + length inp) file)"

text \<open>The command of \<open>compress_kernel\<close>; it returns \<open>None\<close> for an algorithm it does not know.\<close>

definition compress_kernel :: "str \<Rightarrow> str \<Rightarrow> str \<Rightarrow> str option" where
  "compress_kernel kernel' alg outpath =
     (if alg = ''zst'' then Some (''zstd --ultra -22 -T0 -f '' @ kernel' @ '' -o '' @ outpath)
      else if alg = ''gz'' then Some (''gzip -n -9 -c '' @ kernel' @ '' > '' @ outpath)
      else if alg = ''bz2'' then Some (''bzip2 -9 -c '' @ kernel' @ '' > '' @ outpath)
      else if alg = ''lzma'' then Some (''lzma -9 -c '' @ kernel' @ '' > '' @ outpath)
      else if alg = ''lzo'' then Some (''lzop -9 -c '' @ kernel' @ '' > '' @ outpath)
      else if alg = ''lz4'' then Some (''lz4 -l -9 -c '' @ kernel' @ '' > '' @ outpath)
      else if alg = ''xz'' then Some (''xz --check=crc32 --x86 --lzma2=,dict=32MiB,nice=128 -c '' @ kernel' @ '' > '' @ outpath)
      else None)"

text \<open>The two \<open>dd\<close> commands: zeros over the old kernel, then the new one.\<close>

definition replace_comp_kernel :: "dd \<Rightarrow> bytes \<Rightarrow> bytes \<Rightarrow> nat \<Rightarrow> nat \<Rightarrow> bytes" where
  "replace_comp_kernel dd bzimage ck start end' =
     dd ck start (dd (replicate (end' - start) 0) start bzimage)"

text \<open>
  The files: the image and \<open><image>.patched\<close>. With \<open>inplace\<close> the patched copy replaces the image and
  is removed; the result says whether the image was repacked.
\<close>

record bzfiles =
  bzimage :: "bytes option"
  patched :: "bytes option"

definition repack_bzimage ::
    "(str \<Rightarrow> bytes \<Rightarrow> bytes) \<Rightarrow> (str \<Rightarrow> bytes \<Rightarrow> bytes) \<Rightarrow> dd \<Rightarrow> bytes option \<Rightarrow> bool \<Rightarrow> bzfiles \<Rightarrow> bool \<times> bzfiles" where
  "repack_bzimage unpack compress dd kernel' inplace fs = (case bzimage fs of
       None \<Rightarrow> (False, fs)
     | Some bz \<Rightarrow> (case kernel' of
         None \<Rightarrow> (False, fs)
       | Some kern \<Rightarrow> (case identify_compression_algorithm unpack bz of
           None \<Rightarrow> (False, fs)
         | Some (alg, idx) \<Rightarrow> (case find_piggy bz idx of
             None \<Rightarrow> (False, fs)
           | Some piggy_idx \<Rightarrow>
               let ck = compress alg kern in
               if int (length ck) > int piggy_idx - int idx then (False, fs)
               else let new = replace_comp_kernel dd bz ck idx piggy_idx in
                 if inplace then (True, fs\<lparr>bzimage := Some new, patched := None\<rparr>)
                 else (True, fs\<lparr>patched := Some new\<rparr>)))))"

text \<open>
  \<open>hwfilter.replace_kernel\<close>: the image in place, and when that is not possible a copy of the kernel
  in the directory \<open>patched\<close>.
\<close>

definition replace_kernel ::
    "(str \<Rightarrow> bytes \<Rightarrow> bytes) \<Rightarrow> (str \<Rightarrow> bytes \<Rightarrow> bytes) \<Rightarrow> dd \<Rightarrow> bytes \<Rightarrow> bzfiles \<Rightarrow> bytes option \<Rightarrow> bzfiles \<times> bytes option" where
  "replace_kernel unpack compress dd newkern fs patched_kern =
     (case repack_bzimage unpack compress dd (Some newkern) True fs of
        (True, fs') \<Rightarrow> (fs', patched_kern)
      | (False, fs') \<Rightarrow> (fs', Some newkern))"

subsection \<open>Positions\<close>

lemma piggy_start:
  fixes start :: nat
  defines "s \<equiv> if start \<noteq> 0 then start - start mod 16 + 16 else start"
  shows "start \<le> s" and "s mod 16 = 0"
proof -
  have s: "s = (if start \<noteq> 0 then 16 * (start div 16) + 16 else 0)"
    by (simp add: s_def minus_mod_eq_mult_div)
  have "start = 16 * (start div 16) + start mod 16" "start mod 16 < 16" by simp_all
  then have "start \<le> 16 * (start div 16) + 16" by linarith
  then show "start \<le> s" by (simp add: s)
  show "s mod 16 = 0" by (simp add: s)
qed

lemma find_range16:
  assumes "find_piggy data start = Some i"
  shows "start \<le> i \<and> i mod 16 = 0 \<and> i + 4 \<le> length data \<and> take 4 (drop i data) = piggy_signature"
proof -
  define s where "s = (if start \<noteq> 0 then start - start mod 16 + 16 else start)"
  from assms have "find (\<lambda>i. take 4 (drop i data) = piggy_signature) (range16 s (length data)) = Some i"
    by (simp add: find_piggy_def s_def Let_def)
  then have sig: "take 4 (drop i data) = piggy_signature" and "i \<in> set (range16 s (length data))"
    by (auto simp: find_Some_iff)
  then obtain m where i: "i = s + 16 * m" by (auto simp: range16_def)
  have "start \<le> i" using piggy_start(1) [of start, folded s_def] by (simp add: i)
  moreover have "i mod 16 = 0" using piggy_start(2) [of start, folded s_def] by (simp add: i)
  moreover have "length (take 4 (drop i data)) = 4" by (simp add: sig piggy_signature_def)
  then have "i + 4 \<le> length data" by simp
  ultimately show ?thesis using sig by blast
qed

lemma first_packed_sound:
  "first_packed unpack data algs = Some (alg, i) \<Longrightarrow> \<exists>sig. (alg, sig) \<in> set algs \<and>
     take (length sig) (drop i data) = sig \<and> unpack alg (drop i data) \<noteq> [] \<and> i < length data"
proof (induction algs)
  case (Cons a algs)
  obtain al sg where "a = (al, sg)" by (cases a)
  with Cons show ?case by (fastforce simp: find_Some_iff split: option.splits)
qed simp

text \<open>
  Every algorithm that is identified can be compressed with, so that \<open>repack_bzimage\<close> never asks for the
  size of a file \<open>None\<close>.
\<close>

lemma identified_compresses:
  assumes "identify_compression_algorithm unpack data = Some (alg, i)"
  shows "compress_kernel kernel' alg outpath \<noteq> None"
proof -
  have "alg \<in> fst ` set algs" if "first_packed unpack data algs = Some (alg, i)" for algs
    using that by (induction unpack data algs rule: first_packed.induct) (auto split: option.splits)
  then have "alg \<in> fst ` set comp_signature" using assms unfolding identify_compression_algorithm_def by blast
  then show ?thesis by (auto simp: comp_signature_def compress_kernel_def)
qed

lemma replaced_parts:
  assumes "good_dd dd" and "length ck \<le> e - s" and "s \<le> e" and "e \<le> length bz"
  shows "replace_comp_kernel dd bz ck s e =
    take s bz @ ck @ replicate (e - s - length ck) 0 @ drop e bz"
proof -
  have "dd (replicate (e - s) 0) s bz = take s bz @ replicate (e - s) 0 @ drop e bz"
    using assms by (simp add: good_dd_def)
  moreover have "dd ck s (take s bz @ replicate (e - s) 0 @ drop e bz) =
      take s bz @ ck @ replicate (e - s - length ck) 0 @ drop e bz"
  proof -
    let ?f = "take s bz @ replicate (e - s) 0 @ drop e bz"
    have "s + length ck \<le> length ?f" using assms by simp
    with assms(1) have "dd ck s ?f = take s ?f @ ck @ drop (s + length ck) ?f" unfolding good_dd_def by blast
    moreover have "take s ?f = take s bz" "drop (s + length ck) ?f = replicate (e - s - length ck) 0 @ drop e bz"
      using assms by simp_all
    ultimately show ?thesis by simp
  qed
  ultimately show ?thesis by (simp add: replace_comp_kernel_def)
qed

subsection \<open>Properties\<close>

lemma repack_result:
  assumes "repack_bzimage unpack compress dd (Some kern) inplace fs = (ok, fs')" and "good_dd dd"
    and "bzimage fs = Some bz"
  shows "if ok
    then \<exists>alg sig idx piggy. (alg, sig) \<in> set comp_signature \<and> take (length sig) (drop idx bz) = sig \<and>
      idx + length (compress alg kern) \<le> piggy \<and> take 4 (drop piggy bz) = piggy_signature \<and>
      (if inplace then bzimage fs' else patched fs') = Some (take idx bz @ compress alg kern @
         replicate (piggy - idx - length (compress alg kern)) 0 @ drop piggy bz)
    else fs' = fs"
proof (cases ok)
  case False
  with assms show ?thesis
    by (auto simp: repack_bzimage_def Let_def split: option.splits if_splits)
next
  case True
  with assms(1,3) obtain alg idx piggy where id: "identify_compression_algorithm unpack bz = Some (alg, idx)"
    and pg: "find_piggy bz idx = Some piggy" and fit: "\<not> int (length (compress alg kern)) > int piggy - int idx"
    and fs': "fs' = (let new = replace_comp_kernel dd bz (compress alg kern) idx piggy in
         if inplace then fs\<lparr>bzimage := Some new, patched := None\<rparr> else fs\<lparr>patched := Some new\<rparr>)"
    by (auto simp: repack_bzimage_def Let_def split: option.splits if_splits)
  from find_range16 [OF pg] have p: "idx \<le> piggy" "piggy + 4 \<le> length bz" "take 4 (drop piggy bz) = piggy_signature"
    by simp_all
  from first_packed_sound [OF id [unfolded identify_compression_algorithm_def]] obtain sig where
    "(alg, sig) \<in> set comp_signature" "take (length sig) (drop idx bz) = sig" by blast
  moreover have "idx + length (compress alg kern) \<le> piggy" using fit p(1) by linarith
  moreover have "(if inplace then bzimage fs' else patched fs') = Some (take idx bz @ compress alg kern @
         replicate (piggy - idx - length (compress alg kern)) 0 @ drop piggy bz)"
    using replaced_parts [OF assms(2), of "compress alg kern" piggy idx bz] fit p by (simp add: fs' Let_def)
  ultimately show ?thesis using True p(3) by auto
qed

text \<open>
  C15: a repacked image keeps its length and everything outside the old compressed kernel: the new
  compressed kernel stands where the old one began, at a position with the signature of its
  algorithm, zeros follow up to the code that comes after it, and the rest is as before. When
  repacking fails no file changes.
\<close>

theorem repack_keeps_rest:
  assumes "repack_bzimage unpack compress dd (Some kern) inplace fs = (ok, fs')" and "good_dd dd"
    and "bzimage fs = Some bz"
  shows "if ok
    then \<exists>alg sig idx piggy. (alg, sig) \<in> set comp_signature \<and> take (length sig) (drop idx bz) = sig \<and>
      idx + length (compress alg kern) \<le> piggy \<and> take 4 (drop piggy bz) = piggy_signature \<and>
      (if inplace then bzimage fs' else patched fs') = Some (take idx bz @ compress alg kern @
         replicate (piggy - idx - length (compress alg kern)) 0 @ drop piggy bz)
    else fs' = fs"
  using assms by (rule repack_result)

definition demo_dd :: dd where
  "demo_dd inp seek file = take seek file @ inp @ drop (seek + length inp) file"

lemma demo_dd_good: "good_dd demo_dd"
  by (simp add: good_dd_def demo_dd_def)

definition demo_bz :: bytes where
  "demo_bz = [0x28, 0xb5, 0x2f, 0xfd, 9, 9, 9, 9, 9, 9, 9, 9, 9, 9, 9, 9, 0x31, 0xc0, 0x48, 0x8d]"

theorem repack_keeps_rest_witness:
  "if True
    then \<exists>alg sig idx piggy. (alg, sig) \<in> set comp_signature \<and> take (length sig) (drop idx demo_bz) = sig \<and>
      idx + length [0x28, 0xb5, 0x2f, 0xfd, 1 :: byte] \<le> piggy \<and> take 4 (drop piggy demo_bz) = piggy_signature \<and>
      (if True then bzimage \<lparr>bzimage = Some [0x28, 0xb5, 0x2f, 0xfd, 1, 0, 0, 0, 0, 0, 0, 0, 0, 0, 0, 0,
            0x31, 0xc0, 0x48, 0x8d], patched = None\<rparr> else None) = Some (take idx demo_bz @ [0x28, 0xb5, 0x2f, 0xfd, 1] @
         replicate (piggy - idx - length [0x28, 0xb5, 0x2f, 0xfd, 1 :: byte]) 0 @ drop piggy demo_bz)
    else \<lparr>bzimage = Some [0x28, 0xb5, 0x2f, 0xfd, 1, 0, 0, 0, 0, 0, 0, 0, 0, 0, 0, 0,
            0x31, 0xc0, 0x48, 0x8d], patched = None\<rparr> = \<lparr>bzimage = Some demo_bz, patched = None\<rparr>"
proof -
  have "repack_bzimage (\<lambda>_ bs. bs) (\<lambda>_ _. [0x28, 0xb5, 0x2f, 0xfd, 1]) demo_dd (Some []) True
      \<lparr>bzimage = Some demo_bz, patched = None\<rparr> =
    (True, \<lparr>bzimage = Some [0x28, 0xb5, 0x2f, 0xfd, 1, 0, 0, 0, 0, 0, 0, 0, 0, 0, 0, 0,
            0x31, 0xc0, 0x48, 0x8d], patched = None\<rparr>)"
    by code_simp
  from repack_keeps_rest [OF this, of demo_bz] show ?thesis by (simp add: good_dd_def demo_dd_def)
qed

end
