(* ===== verification/Disasm.thy ===== *)
theory Disasm
  imports PyBytes PyStr
begin

section \<open>The instructions to overwrite: disasm.py\<close>

text \<open>
  \<open>kernel_patch/disasm.py\<close> decodes at most three instructions of a function, to find the bytes that a
  return and nops may replace. The decoder (capstone) is a parameter: \<open>decode bs va\<close> is the first
  instruction it yields for the bytes \<open>bs\<close> taken to lie at \<open>va\<close>, if any. What is relied on is that an
  instruction is not empty and lies within the bytes given (\<open>good_decoder\<close>).
\<close>

record insn =
  insn_size :: nat
  mnemonic :: str
  op_str :: str

type_synonym decoder = "bytes \<Rightarrow> int \<Rightarrow> insn option"

definition good_decoder :: "decoder \<Rightarrow> bool" where
  "good_decoder decode \<longleftrightarrow> (\<forall>bs va i. decode bs va = Some i \<longrightarrow> 0 < insn_size i \<and> insn_size i \<le> length bs)"

subsection \<open>get_text_rel\<close>

text \<open>
  The offset and the address of \<open>.text\<close> in the output of \<open>readelf -S\<close>, of which \<open>grep\<close> keeps the lines
  with a \<open>.text\<close> after a blank; \<open>(0, 0)\<close> when only longer names begin like that.
\<close>

definition text_fields :: "str \<Rightarrow> (int \<times> int) res" where
  "text_fields line =
     bindE (index (split_str ''.text'' line) 1) (\<lambda>d.
     let fs = split_ws (strip d) in
     bindE (bindE (index fs 1) int16) (\<lambda>va.
     bindE (bindE (index fs 2) int16) (\<lambda>off. Inr (off, va))))"

definition get_text_rel :: "str \<Rightarrow> (int \<times> int) res" where
  "get_text_rel out = bindE (grep_lines (occurs '' .text'') out) (\<lambda>ls.
     case find (\<lambda>l. ''.text'' \<in> set (split_ws l)) (map strip ls) of
       None \<Rightarrow> Inr (0, 0)
     | Some l \<Rightarrow> text_fields l)"

subsection \<open>The decoding loop\<close>

text \<open>
  The offsets decoded so far with their sizes (\<open>patch_range\<close>) and the targets of jumps not yet
  reached (\<open>expected_dis\<close>). The first argument counts the instructions that may still be decoded.
\<close>

type_synonym ranges = "(int \<times> nat) list"

fun disasm_loop :: "nat \<Rightarrow> decoder \<Rightarrow> bytes \<Rightarrow> int \<Rightarrow> int \<Rightarrow> int \<Rightarrow> int list \<Rightarrow> ranges \<Rightarrow> ranges res" where
  "disasm_loop 0 decode data text_off text_va off expected patch_range = Inr patch_range"
| "disasm_loop (Suc n) decode data text_off text_va off expected patch_range =
     (case decode (py_slice data off (off + 16)) text_va of
        None \<Rightarrow> Inr patch_range
      | Some i \<Rightarrow>
          let expected = removeAll off expected;
              patch_range = AList.update off (insn_size i) patch_range;
              off = off + int (insn_size i)
          in if startswith (mnemonic i) ''j'' \<and> \<not> str_isnumeric (op_str i) \<and> expected = [] then Inr patch_range
             else bindE (if startswith (mnemonic i) ''j''
                         then bindE (int16 (op_str i)) (\<lambda>jmpaddr.
                           Inr (if text_va < jmpaddr then List.insert (jmpaddr - text_va + text_off) expected
                                else expected))
                         else Inr expected) (\<lambda>expected.
               if startswith (mnemonic i) ''ret'' \<and> expected = [] then Inr patch_range
               else disasm_loop n decode data text_off text_va off expected patch_range))"

subsection \<open>Merging adjacent ranges\<close>

text \<open>
  \<open>merged_result\<close>, the start of the last range and its end; \<open>not nxt\<close> also holds of the end 0.
\<close>

type_synonym merging = "ranges \<times> int option \<times> int option"

definition merge_step :: "ranges \<Rightarrow> int \<Rightarrow> merging \<Rightarrow> merging" where
  "merge_step patch_range o' st = (case st of (merged, prev, nxt) \<Rightarrow>
     let l = the (map_of patch_range o') in
     if nxt = None \<or> nxt = Some 0 then (AList.update o' l merged, Some o', Some (o' + int l))
     else if Some o' = nxt
     then (AList.update (the prev) (the (map_of merged (the prev)) + l) merged, prev, Some (the nxt + int l))
     else (AList.update o' l merged, Some o', Some (o' + int l)))"

definition merge_ranges :: "ranges \<Rightarrow> ranges" where
  "merge_ranges patch_range =
     fst (fold (merge_step patch_range) (sort (map fst patch_range)) ([], None, None))"

text \<open>
  \<open>disasm\<close>: offsets are raw file offsets, or relative to the start of \<open>.text\<close>, which is given or read
  from \<open>readelf\<close>.
\<close>

definition disasm :: "decoder \<Rightarrow> str \<Rightarrow> bytes \<Rightarrow> int \<Rightarrow> bool \<Rightarrow> (int \<times> int) option \<Rightarrow> ranges res" where
  "disasm decode readelf data off raw_off text_rel =
     bindE (case text_rel of
        Some r \<Rightarrow> Inr r
      | None \<Rightarrow> if raw_off then Inr (0, 0) else get_text_rel readelf) (\<lambda>(text_off, text_va).
     bindE (disasm_loop 3 decode data text_off text_va (off + text_off) [] []) (\<lambda>pr.
       Inr (merge_ranges pr)))"

text \<open>The main of the script prints the ranges of one function of \<open>./vmlinix\<close>.\<close>

definition disasm_main :: "decoder \<Rightarrow> str \<Rightarrow> bytes \<Rightarrow> (str \<times> nat) list res" where
  "disasm_main decode readelf data =
     bindE (disasm decode readelf data 0x2b390 False None) (\<lambda>patch. Inr (map (\<lambda>(i, l). (hex i, l)) patch))"

subsection \<open>disasm_test\<close>

text \<open>
  The older function for debugging reads the output of \<open>objdump -D\<close> from the start address: fields
  separated by tabs, of which the second holds the bytes of the instruction. Here the targets of jumps
  are addresses, as the offsets are. \<open>run\<close> is \<open>subprocess.check_output\<close>.
\<close>

fun dump_lines :: "str list \<Rightarrow> bool \<Rightarrow> int \<Rightarrow> int list \<Rightarrow> ranges \<Rightarrow> ranges res" where
  "dump_lines [] start off expected patch_range = Inr patch_range"
| "dump_lines (l # ls) start off expected patch_range =
     (let line = strip l; start = (start \<or> line \<noteq> [] \<and> startswith line (drop 2 (hex off))) in
      if line = [] \<or> \<not> start then dump_lines ls start off expected patch_range
      else let expected = removeAll off expected; fields = split_char (CHR 0x09) line in
        if length fields < 3 then dump_lines ls True off expected patch_range
        else case fields of
          [_, by, insn] \<Rightarrow>
            let insn = strip insn; n = length (split_ws (strip by));
                patch_range = AList.update off n patch_range; off = off + int n in
            if startswith insn ''j'' then
              bindE (index (split_ws insn) 1) (\<lambda>op.
              if \<not> str_isnumeric (strip op) \<and> expected = [] then Inr patch_range
              else bindE (int16 (strip op)) (\<lambda>jmpaddr.
                dump_lines ls True off (if off < jmpaddr then List.insert jmpaddr expected else expected) patch_range))
            else if startswith insn ''ret'' \<and> expected = [] then Inr patch_range
            else dump_lines ls True off expected patch_range
        | _ \<Rightarrow> Inl ValueError)"

definition dump_cmd :: "str \<Rightarrow> int \<Rightarrow> str list" where
  "dump_cmd fn off = [''objdump'', ''-D'', ''--start-address='' @ hex off, fn]"

definition disasm_test :: "(str list \<Rightarrow> str res) \<Rightarrow> str \<Rightarrow> int \<Rightarrow> ranges res" where
  "disasm_test run fn off = bindE (run (dump_cmd fn off)) (\<lambda>out. dump_lines (lines_of out) False off [] [])"

subsection \<open>Consecutive instructions\<close>

text \<open>The offsets of instructions of the given sizes, one after the other.\<close>

fun run_of :: "int \<Rightarrow> nat list \<Rightarrow> ranges" where
  "run_of off [] = []"
| "run_of off (l # ls) = (off, l) # run_of (off + int l) ls"

lemma run_of_append: "run_of off (ls @ ms) = run_of off ls @ run_of (off + int (sum_list ls)) ms"
  by (induction ls arbitrary: off) (simp_all add: add.assoc)

lemma run_of_bounds: "(x, l) \<in> set (run_of off ls) \<Longrightarrow> off \<le> x \<and> x + int l \<le> off + int (sum_list ls)"
  by (induction ls arbitrary: off) force+

lemma run_of_fresh:
  assumes "0 \<notin> set ls"
  shows "off + int (sum_list ls) \<notin> fst ` set (run_of off ls)"
proof
  assume "off + int (sum_list ls) \<in> fst ` set (run_of off ls)"
  then obtain l where l: "(off + int (sum_list ls), l) \<in> set (run_of off ls)" by force
  then have "l = 0" using run_of_bounds [OF l] by simp
  moreover have "(x, l) \<in> set (run_of off ls) \<Longrightarrow> l \<in> set ls" for x off
    by (induction ls arbitrary: off) auto
  ultimately show False using l assms by blast
qed

lemma run_of_update:
  "0 \<notin> set ls \<Longrightarrow> AList.update (off + int (sum_list ls)) l (run_of off ls) = run_of off (ls @ [l])"
  by (simp add: update_fresh run_of_fresh run_of_append)

lemma sorted_run: "0 \<notin> set ls \<Longrightarrow> sorted (map fst (run_of off ls)) \<and> distinct (map fst (run_of off ls))"
proof (induction ls arbitrary: off)
  case (Cons l ls)
  have "off < x" if "x \<in> fst ` set (run_of (off + int l) ls)" for x
  proof -
    from that obtain m where "(x, m) \<in> set (run_of (off + int l) ls)" by force
    from run_of_bounds [OF this] Cons.prems show ?thesis by simp
  qed
  with Cons show ?case by force
qed simp

lemma sum_list_pos: "0 \<notin> set ls \<Longrightarrow> ls \<noteq> [] \<Longrightarrow> 0 < sum_list (ls :: nat list)"
  by (cases ls) auto

lemma merge_run:
  assumes "0 \<notin> set ls" and "0 \<le> off"
  shows "merge_ranges (run_of off ls) = (if ls = [] then [] else [(off, sum_list ls)])"
proof -
  have run: "fold (merge_step (run_of off (as @ bs))) (map fst (run_of off as)) ([], None, None) =
      (if as = [] then ([], None, None) else ([(off, sum_list as)], Some off, Some (off + int (sum_list as))))"
    if "0 \<notin> set (as @ bs)" for as bs
    using that
  proof (induction as arbitrary: bs rule: rev_induct)
    case (snoc l as)
    let ?o = "off + int (sum_list as)"
    define pr where "pr = run_of off (as @ l # bs)"
    have "distinct (map fst pr)" using snoc.prems sorted_run [of "as @ l # bs"] by (simp add: pr_def)
    then have m: "map_of pr ?o = Some l" by (intro map_of_is_SomeI) (simp_all add: run_of_append pr_def)
    have IH: "fold (merge_step pr) (map fst (run_of off as)) ([], None, None) =
        (if as = [] then ([], None, None) else ([(off, sum_list as)], Some off, Some ?o))"
      using snoc.IH [of "l # bs"] snoc.prems unfolding pr_def by simp
    have "map fst (run_of off (as @ [l])) = map fst (run_of off as) @ [?o]" by (simp add: run_of_append)
    then have "fold (merge_step pr) (map fst (run_of off (as @ [l]))) ([], None, None) =
        merge_step pr ?o (if as = [] then ([], None, None) else ([(off, sum_list as)], Some off, Some ?o))"
      by (simp only: fold_append comp_apply IH fold_simps)
    also have "\<dots> = ([(off, sum_list (as @ [l]))], Some off, Some (off + int (sum_list (as @ [l]))))"
      using m sum_list_pos [of as] snoc.prems assms(2) by (auto simp: merge_step_def add.assoc)
    finally show ?case by (simp add: pr_def)
  qed simp
  have "sort (map fst (run_of off ls)) = map fst (run_of off ls)"
    using sorted_run [OF assms(1)] by (simp add: sorted_sort_id)
  then show ?thesis using run [of ls "[]"] assms by (auto simp: merge_ranges_def)
qed

lemma length_py_slice_16:
  assumes "0 \<le> off"
  shows "length (py_slice data off (off + 16)) \<le> 16 \<and>
    (py_slice data off (off + 16) \<noteq> [] \<longrightarrow> off + int (length (py_slice data off (off + 16))) \<le> int (length data))"
proof -
  from assms obtain n where n: "off = int n" by (rule nonneg_int_cases)
  have "py_slice data off (off + 16) = take 16 (drop n data)"
    using py_slice_nat [of data n "n + 16"] by (simp add: n)
  then show ?thesis by (auto simp: n min_def)
qed

lemma disasm_loop_run:
  assumes "disasm_loop n decode data text_off text_va (off + int (sum_list ls)) expected (run_of off ls) = Inr pr"
    and "good_decoder decode" and "0 \<notin> set ls" and "0 \<le> off"
    and "ls = [] \<or> off + int (sum_list ls) \<le> int (length data)"
  shows "\<exists>ms. pr = run_of off (ls @ ms) \<and> 0 \<notin> set (ls @ ms) \<and> length ms \<le> n \<and> (\<forall>l \<in> set ms. l \<le> 16) \<and>
    (ls @ ms = [] \<or> off + int (sum_list (ls @ ms)) \<le> int (length data))"
  using assms
proof (induction n arbitrary: ls expected)
  case 0
  then show ?case by (intro exI [of _ "[]"]) auto
next
  case (Suc n)
  let ?o = "off + int (sum_list ls)"
  show ?case
  proof (cases "decode (py_slice data ?o (?o + 16)) text_va")
    case None
    with Suc.prems show ?thesis by (intro exI [of _ "[]"]) auto
  next
    case (Some i)
    let ?l = "insn_size i" and ?s = "py_slice data ?o (?o + 16)"
    from Some Suc.prems(2) have l: "0 < ?l" "?l \<le> length ?s" by (auto simp: good_decoder_def)
    then have "?s \<noteq> []" by auto
    with l length_py_slice_16 [of ?o data] Suc.prems(4) have b: "?l \<le> 16" "?o + int ?l \<le> int (length data)"
      by auto
    have upd: "AList.update ?o ?l (run_of off ls) = run_of off (ls @ [?l])"
      using Suc.prems(3) by (rule run_of_update)
    have stop: "?thesis" if "pr = run_of off (ls @ [?l])"
      using that l b Suc.prems(3) by (intro exI [of _ "[?l]"]) (auto simp: add.assoc)
    have rec: "?thesis"
      if "disasm_loop n decode data text_off text_va (off + int (sum_list (ls @ [?l]))) ex (run_of off (ls @ [?l])) = Inr pr" for ex
    proof -
      from Suc.IH [OF that Suc.prems(2)] l b Suc.prems(3,4) obtain ms where
        "pr = run_of off ((ls @ [?l]) @ ms)" "0 \<notin> set ((ls @ [?l]) @ ms)" "length ms \<le> n" "\<forall>l \<in> set ms. l \<le> 16"
        "off + int (sum_list ((ls @ [?l]) @ ms)) \<le> int (length data)"
        by (auto simp: add.assoc)
      with b show ?thesis by (intro exI [of _ "?l # ms"]) auto
    qed
    from Suc.prems(1) Some upd stop rec show ?thesis
      by (auto simp: Let_def bindE_Inr_iff add.assoc split: if_splits)
  qed
qed

subsection \<open>Properties\<close>

lemma disasm_range:
  assumes "disasm_loop 3 decode data text_off text_va off [] [] = Inr pr" and "good_decoder decode" and "0 \<le> off"
  shows "merge_ranges pr = [] \<or> (\<exists>l. merge_ranges pr = [(off, l)] \<and> 0 < l \<and> l \<le> 48 \<and> off + int l \<le> int (length data))"
proof -
  from disasm_loop_run [of 3 decode data text_off text_va off "[]" "[]" pr] assms obtain ms where
    ms: "pr = run_of off ms" "0 \<notin> set ms" "length ms \<le> 3" "\<forall>l \<in> set ms. l \<le> 16"
      "ms = [] \<or> off + int (sum_list ms) \<le> int (length data)"
    by auto
  have "sum_list ms \<le> length ms * 16" using ms(4) by (induction ms) auto
  with ms(3) have "sum_list ms \<le> 48" by simp
  with ms merge_run [OF ms(2) assms(3)] sum_list_pos [OF ms(2)] show ?thesis by auto
qed

lemma disasm_within:
  assumes "disasm decode readelf data off raw_off rel = Inr rs" and "good_decoder decode"
    and "rel = None \<and> raw_off \<and> base = 0 \<or> rel = Some (base, va)" and "0 \<le> off + base"
  shows "rs = [] \<or> (\<exists>l. rs = [(off + base, l)] \<and> 0 < l \<and> l \<le> 48 \<and> off + base + int l \<le> int (length data))"
proof -
  from assms(1,3) obtain text_va pr where "disasm_loop 3 decode data base text_va (off + base) [] [] = Inr pr"
    and rs: "rs = merge_ranges pr"
    by (auto simp: disasm_def bindE_Inr_iff)
  from disasm_range [OF this(1) assms(2,4)] show ?thesis by (simp add: rs)
qed

text \<open>
  \<open>disasm_test\<close> on code without jumps: all instructions up to the first return, one after the other, and
  nothing behind it.
\<close>

definition dump_insn :: "str \<Rightarrow> nat \<Rightarrow> str \<Rightarrow> bool" where
  "dump_insn l n i \<longleftrightarrow> (\<exists>a by t. split_char (CHR 0x09) (strip l) = [a, by, t] \<and> strip l \<noteq> [] \<and>
     n = length (split_ws (strip by)) \<and> i = strip t \<and> 0 < n)"

lemma dump_straight:
  assumes "list_all2 (\<lambda>l n. \<exists>i. dump_insn l n i \<and> \<not> startswith i ''j'' \<and> \<not> startswith i ''ret'') ls ns"
    and "dump_insn r n i" and "startswith i ''ret''" and "\<forall>x \<in> fst ` set pr. x < off"
  shows "dump_lines (ls @ r # rest) True off [] pr = Inr (pr @ run_of off (ns @ [n]))"
  using assms(1,4)
proof (induction ls ns arbitrary: off pr rule: list_all2_induct)
  case Nil
  have "AList.update off n pr = pr @ [(off, n)]" using Nil by (intro update_fresh) auto
  moreover have "\<not> startswith i ''j''" using assms(3) by (auto simp: startswith_prefix prefix_def)
  ultimately show ?case using assms(2,3) by (auto simp: dump_insn_def Let_def)
next
  case (Cons l ls m ns)
  from Cons.hyps(1) obtain j where j: "dump_insn l m j" "\<not> startswith j ''j''" "\<not> startswith j ''ret''" by blast
  have "AList.update off m pr = pr @ [(off, m)]" using Cons.prems by (intro update_fresh) auto
  moreover have "\<forall>x \<in> fst ` set (pr @ [(off, m)]). x < off + int m"
    using Cons.prems j(1) by (auto simp: dump_insn_def)
  note Cons.IH [OF this]
  ultimately show ?case using j by (auto simp: dump_insn_def Let_def)
qed

text \<open>
  C14: what \<open>disasm\<close> returns is nothing or one range that starts at the function: it is not empty, is at
  most three instructions of 16 bytes long and ends within the file. So a patch stays inside the
  bytes decoded from the function's first byte.
\<close>

theorem disasm_one_range:
  assumes "disasm decode readelf data off raw_off rel = Inr rs" and "good_decoder decode"
    and "rel = None \<and> raw_off \<and> base = 0 \<or> rel = Some (base, va)" and "0 \<le> off + base"
  shows "rs = [] \<or> (\<exists>l. rs = [(off + base, l)] \<and> 0 < l \<and> l \<le> 48 \<and> off + base + int l \<le> int (length data))"
  using assms by (rule disasm_within)

text \<open>
  A decoder that knows three instructions: \<open>push rbp\<close>, \<open>ret\<close> and \<open>jmp\<close> to the next instruction.
\<close>

definition demo_decoder :: decoder where
  "demo_decoder bs va = (case bs of
       b # _ \<Rightarrow> (if b = 0x55 then Some \<lparr>insn_size = 1, mnemonic = ''push'', op_str = ''rbp''\<rparr>
         else if b = 0xc3 then Some \<lparr>insn_size = 1, mnemonic = ''ret'', op_str = []\<rparr>
         else if b = 0xeb \<and> 2 \<le> length bs then Some \<lparr>insn_size = 2, mnemonic = ''jmp'', op_str = ''0x1002''\<rparr>
         else None)
     | [] \<Rightarrow> None)"

lemma demo_decoder_good: "good_decoder demo_decoder"
  by (auto simp: good_decoder_def demo_decoder_def split: list.splits if_splits)

theorem disasm_one_range_witness:
  "[(2 :: int, 3 :: nat)] = [] \<or> (\<exists>l. [(2, 3 :: nat)] = [(1 + 1 :: int, l)] \<and> 0 < l \<and> l \<le> 48 \<and>
     1 + 1 + int l \<le> int (length [0x90, 0x90, 0x55, 0x55, 0xc3, 0x55 :: byte]))"
proof (rule disasm_one_range [OF _ demo_decoder_good])
  show "disasm demo_decoder [] [0x90, 0x90, 0x55, 0x55, 0xc3, 0x55] 1 False (Some (1, 0x1000)) = Inr [(2, 3)]"
    by code_simp
qed simp_all

text \<open>
  A return or a direct jump, whose operand capstone prints in hexadecimal, ends the range: an
  address that starts with \<open>0x\<close> is not \<open>isnumeric\<close>, so the target of the jump is never followed and
  nothing behind it is overwritten.
\<close>

theorem disasm_stops:
  assumes "decode (py_slice data off (off + 16)) 0 = Some i" and "startswith (mnemonic i) ''ret'' \<or>
      startswith (mnemonic i) ''j'' \<and> startswith (op_str i) ''0x''"
    and "0 < insn_size i" and "0 \<le> off"
  shows "disasm decode readelf data off True None = Inr [(off, insn_size i)]"
proof -
  have x: "\<not> str_isnumeric (op_str i)" if "startswith (op_str i) ''0x''"
    using that by (auto simp: startswith_prefix prefix_def str_isnumeric_def is_numeric_def is_digit_def)
  have r: "\<not> startswith (mnemonic i) ''j''" if "startswith (mnemonic i) ''ret''"
    using that by (auto simp: startswith_prefix prefix_def)
  have "disasm_loop 3 decode data 0 0 off [] [] = Inr [(off, insn_size i)]"
    using assms(1,2) x r by (auto simp: numeral_3_eq_3 Let_def)
  moreover have "merge_ranges [(off, insn_size i)] = [(off, insn_size i)]"
    using merge_run [of "[insn_size i]" off] assms(3,4) by simp
  ultimately show ?thesis by (simp add: disasm_def)
qed

theorem disasm_stops_witness: "disasm demo_decoder [] [0xeb, 0, 0x55, 0x55] 0 True None = Inr [(0, 2)]"
proof -
  define i where "i = \<lparr>insn_size = 2, mnemonic = ''jmp'', op_str = ''0x1002''\<rparr>"
  have "disasm demo_decoder [] [0xeb, 0, 0x55, 0x55] 0 True None = Inr [(0, insn_size i)]"
    by (rule disasm_stops) (simp_all add: i_def demo_decoder_def py_slice_def slice_pos_def)
  then show ?thesis by (simp add: i_def)
qed

end
