(* ===== verification/KernelPatch.thy ===== *)
theory KernelPatch
  imports Target InitCall Disasm
begin

section \<open>Overwriting functions: patch_kernel and patch_module\<close>

text \<open>
  \<open>kernel_patch/hwfilter.py\<close>: both functions replace the first instructions of a function by a return
  and nops, in the kernel image and in module files. The loop over the ranges of \<open>disasm\<close> is written
  twice in the source, with two ways to test for \<open>endbr64\<close>; the locale \<open>endbr_test\<close> is what the loop
  needs of the test. Decoder, \<open>readelf\<close>, \<open>objdump\<close> and the compressors are parameters.
\<close>

subsection \<open>The loop over the ranges\<close>

type_synonym endbr_check = "bytes \<Rightarrow> int \<Rightarrow> bool res"

definition endbr_kernel :: endbr_check where
  "endbr_kernel data poff =
     bindE (byte_at data poff) (\<lambda>a. if a \<noteq> 0xf3 then Inr False else
     bindE (byte_at data (poff + 1)) (\<lambda>b. if b \<noteq> 0x0f then Inr False else
     bindE (byte_at data (poff + 2)) (\<lambda>c. if c \<noteq> 0x1e then Inr False else
     bindE (byte_at data (poff + 3)) (\<lambda>d. if d = 0xfa then Inr True else
     bindE (byte_at data (poff + 3)) (\<lambda>d. Inr (d = 0xfb))))))"

definition endbr_module :: endbr_check where
  "endbr_module data poff = Inr (py_slice data poff (poff + 4) = [0xf3, 0x0f, 0x1e, 0xfa] \<or>
     py_slice data poff (poff + 4) = [0xf3, 0x0f, 0x1e, 0xfb])"

text \<open>Skipping \<open>endbr64\<close> and the call of the tracer moves the start and shortens the range.\<close>

definition skip_prefix :: "endbr_check \<Rightarrow> bytes \<Rightarrow> int \<Rightarrow> int \<Rightarrow> (int \<times> int) res" where
  "skip_prefix endbr data poff plen =
     bindE (endbr data poff) (\<lambda>e.
     let poff = (if e then poff + 4 else poff); plen = (if e then plen - 4 else plen) in
     bindE (byte_at data poff) (\<lambda>b.
       Inr (if b = 0xe8 then (poff + 5, plen - 5) else (poff, plen))))"

definition patch_step :: "endbr_check \<Rightarrow> int \<times> nat \<Rightarrow> bytes \<times> bool \<Rightarrow> (bytes \<times> bool) res" where
  "patch_step endbr r st = (case (r, st) of ((poff, plen), data, ret_patched) \<Rightarrow>
     if \<not> ret_patched then
       bindE (skip_prefix endbr data poff (int plen)) (\<lambda>(poff, plen).
         if plen > 0 then
           bindE (set_byte poff 0xc3 data) (\<lambda>data.
           bindE (fill_bytes poff 1 (nat plen) 0x90 data) (\<lambda>data. Inr (data, True)))
         else Inr (data, ret_patched))
     else bindE (fill_bytes poff 0 plen 0x90 data) (\<lambda>data. Inr (data, ret_patched)))"

definition patch_func :: "endbr_check \<Rightarrow> ranges \<Rightarrow> bytes \<Rightarrow> (bytes \<times> bool) res" where
  "patch_func endbr rs data = foldE (patch_step endbr) rs (data, False)"

subsection \<open>patch_kernel\<close>

text \<open>The address of each function symbol; a global one overrides.\<close>

definition sym_row :: "int \<times> str \<times> str \<Rightarrow> int dict \<Rightarrow> int dict" where
  "sym_row row m = (case row of (addr, ty, name) \<Rightarrow>
     if ty \<notin> set func_types then m
     else if \<not> has_key m name then AList.update name addr m
     else if ty = ''T'' then AList.update name addr m else m)"

definition kernel_sym_map :: "(int \<times> str \<times> str) list \<Rightarrow> int dict" where
  "kernel_sym_map symtab = fold sym_row symtab []"

text \<open>An entry of the patch list is a symbol, or a pair of a module and a symbol.\<close>

type_synonym xsym = "str + str \<times> str"

definition xsym_name :: "xsym \<Rightarrow> str" where
  "xsym_name x = (case x of Inl s \<Rightarrow> s | Inr p \<Rightarrow> snd p)"

definition patch_name :: "str list \<Rightarrow> bool \<Rightarrow> xsym \<Rightarrow> str option res" where
  "patch_name filter_key initonly x =
     (let name = xsym_name x in
      if startswith name ''__initcall_'' then initcall_sym2init name
      else if \<not> initonly then
        (if filter_key \<noteq> [] \<and> list_ex (\<lambda>t. occurs t name) filter_key then Inr None else Inr (Some name))
      else Inr None)"

definition add_patch :: "str list \<Rightarrow> bool \<Rightarrow> int dict \<Rightarrow> xsym \<Rightarrow> int dict \<Rightarrow> int dict res" where
  "add_patch filter_key initonly sym_map x ps =
     bindE (patch_name filter_key initonly x) (\<lambda>osym. case osym of
         None \<Rightarrow> Inr ps
       | Some s \<Rightarrow>
           if s = [] \<or> \<not> has_key sym_map s then Inr ps
           else bindE (dict_get sym_map s) (\<lambda>a. bindE (dict_get sym_map ''_text'') (\<lambda>t.
             Inr (AList.update s (a - t) ps))))"

text \<open>All functions are disassembled in the unpatched image before the first one is overwritten.\<close>

definition patch_kernel ::
    "decoder \<Rightarrow> str \<Rightarrow> bytes \<Rightarrow> (int \<times> str \<times> str) list \<Rightarrow> xsym list \<Rightarrow> str list \<Rightarrow> bool \<Rightarrow> bytes res" where
  "patch_kernel decode readelf vmlinux symtab patch_list filter_key initonly =
     bindE (foldE (add_patch filter_key initonly (kernel_sym_map symtab)) patch_list []) (\<lambda>patch_set.
     bindE (get_text_rel readelf) (\<lambda>rel.
     bindE (mapE (\<lambda>(s, off). disasm decode readelf vmlinux off False (Some rel)) patch_set) (\<lambda>patch_ranges.
       foldE (\<lambda>rs data. if rs = [] then Inr data
                else bindE (patch_func endbr_kernel rs data) (\<lambda>(data, _). Inr data)) patch_ranges vmlinux)))"

subsection \<open>patch_module\<close>

definition mod_patch :: "(str \<times> str) list \<Rightarrow> pyset dict" where
  "mod_patch patch_list = fold (\<lambda>(s, md). dd_add (stem_of (basename md)) s) patch_list []"

text \<open>
  A line \<open>address <name> (File Offset: 0x..):\<close> of \<open>objdump -dF\<close>; the greedy pattern takes the last
  separator and the last \<open><\<close> before it.
\<close>

fun rsplit :: "str \<Rightarrow> str \<Rightarrow> (str \<times> str) option" where
  "rsplit sep [] = None"
| "rsplit sep (c # cs) = (case rsplit sep cs of
       Some (a, b) \<Rightarrow> Some (c # a, b)
     | None \<Rightarrow> if startswith (c # cs) sep then Some ([], drop (length sep) (c # cs)) else None)"

definition offset_line :: "str \<Rightarrow> (str \<times> int) res" where
  "offset_line line =
     (if \<not> endswith line [CHR '')'', CHR '':''] then Inl AttributeError
      else case rsplit ''> (File Offset: '' (chop 2 line) of
        None \<Rightarrow> Inl AttributeError
      | Some (a, off) \<Rightarrow>
          if CHR ''<'' \<notin> set a then Inl AttributeError
          else bindE (int16 off) (\<lambda>n. Inr (rev (takeWhile (\<lambda>c. c \<noteq> CHR ''<'') (rev a)), n)))"

definition offset_map :: "str \<Rightarrow> int dict res" where
  "offset_map out = bindE (grep_lines (\<lambda>l. endswith l [CHR '')'', CHR '':'']) out) (\<lambda>ls.
     foldE (\<lambda>line m.
       let line = strip line in
       if line = [] then Inr m
       else bindE (offset_line line) (\<lambda>(s, off). Inr (AList.update s off m))) ls [])"

text \<open>The functions of one module; every one is disassembled in the module as it was read.\<close>

definition patch_ko_sym :: "decoder \<Rightarrow> bytes \<Rightarrow> int dict \<Rightarrow> str \<Rightarrow> bytes \<Rightarrow> bytes res" where
  "patch_ko_sym decode orig off_map s kodata = (case map_of off_map s of
       None \<Rightarrow> Inr kodata
     | Some off \<Rightarrow>
         bindE (disasm decode [] orig off True None) (\<lambda>rs.
         bindE (patch_func endbr_module rs kodata) (\<lambda>(kodata, ret_patched).
         bindE (guardE ret_patched AssertionError) (\<lambda>_. Inr kodata))))"

definition patch_ko :: "decoder \<Rightarrow> (bytes \<Rightarrow> str) \<Rightarrow> pyset \<Rightarrow> bytes \<Rightarrow> bytes res" where
  "patch_ko decode objdump syms orig =
     bindE (offset_map (objdump orig)) (\<lambda>om. foldE (patch_ko_sym decode orig om) syms orig)"

definition helper_exts :: "str list" where
  "helper_exts = [''zst'', ''gz'', ''bz2'', ''xz'', ''lzma'', ''lz4'', ''lzo'']"

text \<open>
  The files of the module directory: \<open>files p\<close> is the content of \<open>p\<close>, \<open>unpack\<close> and \<open>pack\<close> the
  commands of an extension.
\<close>

definition patch_module_file ::
    "decoder \<Rightarrow> (bytes \<Rightarrow> str) \<Rightarrow> (str \<Rightarrow> bytes \<Rightarrow> bytes) \<Rightarrow> (str \<Rightarrow> bytes \<Rightarrow> bytes) \<Rightarrow> pyset dict \<Rightarrow>
     str \<times> str \<Rightarrow> (str \<Rightarrow> bytes) \<Rightarrow> (str \<Rightarrow> bytes) res" where
  "patch_module_file decode objdump unpack pack mp x files = (case x of (root, f) \<Rightarrow>
     let m = stem_of f; ext = ext_of f; p = path_join root f in
     if \<not> has_key mp m then Inr files
     else if ext = ''ko'' then
       bindE (patch_ko decode objdump (dd_get mp m) (files p)) (\<lambda>ko. Inr (files(p := ko)))
     else bindE (guardE (ext \<in> set helper_exts) KeyError) (\<lambda>_.
       bindE (patch_ko decode objdump (dd_get mp m) (unpack ext (files p))) (\<lambda>ko.
         Inr (files(p := pack ext ko)))))"

definition patch_module ::
    "decoder \<Rightarrow> (bytes \<Rightarrow> str) \<Rightarrow> (str \<Rightarrow> bytes \<Rightarrow> bytes) \<Rightarrow> (str \<Rightarrow> bytes \<Rightarrow> bytes) \<Rightarrow> (str \<times> str) list \<Rightarrow>
     walk \<Rightarrow> (str \<Rightarrow> bytes) \<Rightarrow> (str \<Rightarrow> bytes) res" where
  "patch_module decode objdump unpack pack patch_list w files =
     foldE (patch_module_file decode objdump unpack pack (mod_patch patch_list)) (walk_files w) files"

subsection \<open>The two loops agree\<close>

definition is_endbr :: "bytes \<Rightarrow> bool" where
  "is_endbr bs \<longleftrightarrow> bs = [0xf3, 0x0f, 0x1e, 0xfa] \<or> bs = [0xf3, 0x0f, 0x1e, 0xfb]"

text \<open>How many bytes are skipped at a position.\<close>

definition endbr_len :: "bytes \<Rightarrow> nat \<Rightarrow> nat" where
  "endbr_len data p = (if is_endbr (take 4 (drop p data)) then 4 else 0)"

definition prefix_len :: "bytes \<Rightarrow> nat \<Rightarrow> nat" where
  "prefix_len data p =
     endbr_len data p + (if data ! (p + endbr_len data p) = 0xe8 then 5 else 0)"

text \<open>A function overwritten in its range: the prefix stays, then the return, then nops.\<close>

definition returned :: "nat \<Rightarrow> nat \<Rightarrow> bytes \<Rightarrow> bytes" where
  "returned p l data =
     (let k = p + prefix_len data p in
      if prefix_len data p < l then filled (k + 1) (p + l) 0x90 (data[k := 0xc3]) else data)"

locale endbr_test =
  fixes endbr :: endbr_check
  assumes endbr_inside: "p + 4 \<le> length data \<Longrightarrow> endbr data (int p) = Inr (is_endbr (take 4 (drop p data)))"
begin

lemma skip_inside:
  assumes "p + 4 < length data"
  shows "skip_prefix endbr data (int p) (int l) =
    Inr (int (p + prefix_len data p), int l - int (prefix_len data p))"
proof -
  have "(if is_endbr (take 4 (drop p data)) then int p + 4 else int p) = int (p + endbr_len data p)"
    "(if is_endbr (take 4 (drop p data)) then int l - 4 else int l) = int l - int (endbr_len data p)"
    by (simp_all add: endbr_len_def)
  moreover have "p + endbr_len data p < length data" using assms by (simp add: endbr_len_def)
  ultimately show ?thesis
    using assms by (simp only: skip_prefix_def endbr_inside [OF less_imp_le [OF assms]] bindE.simps Let_def byte_at_nat)
      (simp add: prefix_len_def)
qed

lemma patch_one_range:
  assumes "p + 4 < length data" and "p + l \<le> length data"
  shows "patch_func endbr [(int p, l)] data = Inr (returned p l data, prefix_len data p < l)"
proof (cases "prefix_len data p < l")
  case True
  let ?k = "p + prefix_len data p"
  have n: "nat (int l - int (prefix_len data p)) = l - prefix_len data p" using True by simp
  have "set_byte (int ?k) 0xc3 data = Inr (data[?k := 0xc3])" using True assms by (intro set_byte_nat) simp
  moreover have "fill_bytes (int ?k) 1 (l - prefix_len data p) 0x90 (data[?k := 0xc3]) =
      Inr (filled (?k + 1) (p + l) 0x90 (data[?k := 0xc3]))"
    using True assms by (subst fill_bytes_inside) auto
  moreover have "int l - int (prefix_len data p) > 0" using True by simp
  ultimately have "patch_step endbr (int p, l) (data, False) = Inr (returned p l data, True)"
    using True by (simp only: patch_step_def skip_inside [OF assms(1)] n prod.case not_False_eq_True if_True bindE.simps returned_def Let_def)
  with True show ?thesis by (simp add: patch_func_def)
next
  case False
  then have "patch_step endbr (int p, l) (data, False) = Inr (returned p l data, False)"
    by (simp only: patch_step_def skip_inside [OF assms(1)] prod.case not_False_eq_True if_True bindE.simps) (simp add: returned_def)
  with False show ?thesis by (simp add: patch_func_def)
qed

end

lemma take_4_drop:
  assumes "p + 4 \<le> length data"
  shows "take 4 (drop p data) = [data ! p, data ! (p + 1), data ! (p + 2), data ! (p + 3)]"
  using assms by (intro nth_equalityI) (auto simp: less_Suc_eq numeral_eq_Suc)

interpretation kernel_loop: endbr_test endbr_kernel
proof
  fix p and data :: bytes assume p: "p + 4 \<le> length data"
  have at: "byte_at data (int p) = Inr (data ! p)" "byte_at data (int p + 1) = Inr (data ! (p + 1))"
    "byte_at data (int p + 2) = Inr (data ! (p + 2))" "byte_at data (int p + 3) = Inr (data ! (p + 3))"
    using p byte_at_nat [of p data] byte_at_nat [of "p + 1" data] byte_at_nat [of "p + 2" data]
      byte_at_nat [of "p + 3" data] by (simp_all add: add.commute)
  show "endbr_kernel data (int p) = Inr (is_endbr (take 4 (drop p data)))"
    unfolding endbr_kernel_def at bindE.simps take_4_drop [OF p] is_endbr_def by auto
qed

interpretation module_loop: endbr_test endbr_module
proof
  fix p and data :: bytes
  have "py_slice data (int p) (int p + 4) = take 4 (drop p data)"
    using py_slice_nat [of data p "p + 4"] by simp
  then show "endbr_module data (int p) = Inr (is_endbr (take 4 (drop p data)))"
    by (simp add: endbr_module_def is_endbr_def)
qed

subsection \<open>Nothing outside the ranges changes\<close>

text \<open>Two lists of bytes that differ in a set of positions only.\<close>

definition differ_in :: "nat set \<Rightarrow> bytes \<Rightarrow> bytes \<Rightarrow> bool" where
  "differ_in S xs ys \<longleftrightarrow> length ys = length xs \<and> (\<forall>k < length xs. ys ! k \<noteq> xs ! k \<longrightarrow> k \<in> S)"

lemma differ_refl: "differ_in S xs xs"
  by (simp add: differ_in_def)

lemma differ_trans: "differ_in S xs ys \<Longrightarrow> differ_in S ys zs \<Longrightarrow> differ_in S xs zs"
  unfolding differ_in_def by metis

lemma differ_mono: "differ_in S xs ys \<Longrightarrow> S \<subseteq> T \<Longrightarrow> differ_in T xs ys"
  by (auto simp: differ_in_def)

lemma differ_filled: "{lo..<hi} \<subseteq> S \<Longrightarrow> differ_in S xs (filled lo hi v xs)"
  by (auto simp: differ_in_def)

lemma differ_update: "k \<in> S \<Longrightarrow> differ_in S xs (xs[k := v])"
  unfolding differ_in_def by (metis length_list_update nth_list_update_neq)

lemma skip_prefix_shift:
  assumes "skip_prefix endbr data poff plen = Inr (poff', plen')"
  shows "poff' - poff = plen - plen' \<and> 0 \<le> plen - plen'"
  using assms by (auto simp: skip_prefix_def bindE_Inr_iff Let_def split: if_splits)

lemma patch_func_differ:
  assumes "patch_func endbr [(int p, l)] data = Inr (data', b)" and "p + l \<le> length data"
  shows "differ_in {p..<p + l} data data'"
proof -
  from assms(1) obtain poff plen where sk: "skip_prefix endbr data (int p) (int l) = Inr (poff, plen)"
    and body: "(if plen > 0 then
         bindE (set_byte poff 0xc3 data) (\<lambda>data.
         bindE (fill_bytes poff 1 (nat plen) 0x90 data) (\<lambda>data. Inr (data, True)))
       else Inr (data, False)) = Inr (data', b)"
    by (auto simp: patch_func_def patch_step_def bindE_Inr_iff)
  define d where "d = nat (int l - plen)"
  from skip_prefix_shift [OF sk] have d: "poff = int (p + d)" "plen = int l - int d" by (auto simp: d_def)
  show ?thesis
  proof (cases "plen > 0")
    case True
    then have dl: "d < l" "nat plen = l - d" using d(2) by auto
    have "set_byte (int (p + d)) 0xc3 data = Inr (data[p + d := 0xc3])"
      using dl assms(2) by (intro set_byte_nat) simp
    moreover have "fill_bytes (int (p + d)) 1 (l - d) 0x90 (data[p + d := 0xc3]) =
        Inr (filled (p + d + 1) (p + d + (l - d)) 0x90 (data[p + d := 0xc3]))"
      using dl assms(2) by (intro fill_bytes_inside) simp
    ultimately have "data' = filled (p + d + 1) (p + d + (l - d)) 0x90 (data[p + d := 0xc3])"
      using body True by (simp add: d(1) dl(2))
    then show ?thesis
      using dl by (auto intro!: differ_trans [OF differ_update differ_filled])
  qed (use body in \<open>simp add: differ_refl\<close>)
qed

definition rows_of :: "str \<Rightarrow> (int \<times> str \<times> str) list \<Rightarrow> (int \<times> str \<times> str) list" where
  "rows_of s symtab = filter (\<lambda>(a, ty, n). n = s \<and> ty \<in> set func_types) symtab"

definition globals_of :: "str \<Rightarrow> (int \<times> str \<times> str) list \<Rightarrow> (int \<times> str \<times> str) list" where
  "globals_of s symtab = filter (\<lambda>(a, ty, n). n = s \<and> ty = ''T'') symtab"

lemma kernel_sym_map_rows:
  "map_of (kernel_sym_map symtab) s =
     (if rows_of s symtab = [] then None
      else if globals_of s symtab \<noteq> [] then Some (fst (last (globals_of s symtab)))
      else Some (fst (hd (rows_of s symtab))))"
proof (induction symtab rule: rev_induct)
  case (snoc row symtab)
  obtain a ty n where row: "row = (a, ty, n)" by (cases row)
  have step: "kernel_sym_map (symtab @ [(a, ty, n)]) = sym_row (a, ty, n) (kernel_sym_map symtab)"
    by (simp add: kernel_sym_map_def)
  have rows: "rows_of s (symtab @ [(a, ty, n)]) = rows_of s symtab @ (if n = s \<and> ty \<in> set func_types then [(a, ty, n)] else [])"
    "globals_of s (symtab @ [(a, ty, n)]) = globals_of s symtab @ (if n = s \<and> ty = ''T'' then [(a, ty, n)] else [])"
    by (simp_all add: rows_of_def globals_of_def)
  have T: "''T'' \<in> set func_types" by (simp add: func_types_def)
  have none: "globals_of s symtab = []" if "rows_of s symtab = []"
    using that T by (auto simp: rows_of_def globals_of_def filter_empty_conv)
  show ?case
  proof (cases "ty \<in> set func_types \<and> n = s")
    case True
    then show ?thesis
      unfolding row step rows using snoc T none
      by (cases "rows_of s symtab = []"; cases "ty = ''T''") (simp_all add: sym_row_def has_key_def update_conv')
  next
    case False
    then show ?thesis
      unfolding row step rows using snoc T by (auto simp: sym_row_def update_conv')
  qed
qed (simp add: kernel_sym_map_def rows_of_def)

text \<open>The window of a patched symbol: the bytes that \<open>disasm\<close> may return for it.\<close>

definition window :: "str list \<Rightarrow> bool \<Rightarrow> int dict \<Rightarrow> int \<Rightarrow> xsym \<Rightarrow> nat set" where
  "window filter_key initonly sym_map base x = {k. \<exists>s a t. patch_name filter_key initonly x = Inr (Some s) \<and>
     map_of sym_map s = Some a \<and> map_of sym_map ''_text'' = Some t \<and>
     a - t + base \<le> int k \<and> int k < a - t + base + 48}"

definition patch_entry :: "str list \<Rightarrow> bool \<Rightarrow> int dict \<Rightarrow> xsym list \<Rightarrow> str \<times> int \<Rightarrow> bool" where
  "patch_entry filter_key initonly sym_map xs e \<longleftrightarrow> (\<exists>x a t. x \<in> set xs \<and>
     patch_name filter_key initonly x = Inr (Some (fst e)) \<and> map_of sym_map (fst e) = Some a \<and>
     map_of sym_map ''_text'' = Some t \<and> snd e = a - t)"

lemma add_patch_entries:
  assumes "foldE (add_patch fk io sm) xs [] = Inr ps" and "e \<in> set ps"
  shows "patch_entry fk io sm xs e"
proof -
  have "\<forall>e \<in> set ps. patch_entry fk io sm xs e"
    using assms(1)
  proof (rule foldE_invariant)
    fix x u v assume x: "x \<in> set xs" and u: "\<forall>e \<in> set u. patch_entry fk io sm xs e"
      and v: "add_patch fk io sm x u = Inr v"
    from v consider "v = u" | s a t where "patch_name fk io x = Inr (Some s)" "map_of sm s = Some a"
        "map_of sm ''_text'' = Some t" "v = AList.update s (a - t) u"
      by (auto simp: add_patch_def bindE_Inr_iff dict_get_Inr split: option.splits if_splits)
    then show "\<forall>e \<in> set v. patch_entry fk io sm xs e"
    proof cases
      case 2
      then have "patch_entry fk io sm xs (s, a - t)" using x by (auto simp: patch_entry_def)
      with u 2(4) show ?thesis by (auto dest: in_update)
    qed (use u in simp)
  qed simp
  with assms(2) show ?thesis by blast
qed

lemma nth_returned:
  assumes "prefix_len data p < l" and "p + l \<le> length data" and "k < length data"
  shows "returned p l data ! k =
    (if k = p + prefix_len data p then 0xc3
     else if p + prefix_len data p < k \<and> k < p + l then 0x90 else data ! k)"
  using assms by (auto simp: returned_def Let_def nth_list_update)

lemma patch_kernel_differs:
  assumes "patch_kernel decode readelf vm symtab xs filter_key initonly = Inr vm'" and "good_decoder decode"
    and "get_text_rel readelf = Inr (base, va)" and "0 \<le> base"
    and "\<And>s a t. map_of (kernel_sym_map symtab) s = Some a \<Longrightarrow> map_of (kernel_sym_map symtab) ''_text'' = Some t \<Longrightarrow> t \<le> a"
  shows "differ_in (\<Union>x \<in> set xs. window filter_key initonly (kernel_sym_map symtab) base x) vm vm'"
proof -
  let ?sm = "kernel_sym_map symtab"
  let ?W = "\<Union>x \<in> set xs. window filter_key initonly ?sm base x"
  from assms(1,3) obtain ps rss where ps: "foldE (add_patch filter_key initonly ?sm) xs [] = Inr ps"
    and rss: "mapE (\<lambda>(s, off). disasm decode readelf vm off False (Some (base, va))) ps = Inr rss"
    and run: "foldE (\<lambda>rs data. if rs = [] then Inr data
        else bindE (patch_func endbr_kernel rs data) (\<lambda>(data, _). Inr data)) rss vm = Inr vm'"
    by (auto simp: patch_kernel_def bindE_Inr_iff)
  have range: "\<exists>p l. rs = [(int p, l)] \<and> p + l \<le> length vm \<and> {p..<p + l} \<subseteq> ?W" if rs: "rs \<in> set rss" "rs \<noteq> []" for rs
  proof -
    from mapE_set [OF rss] rs(1) obtain e where e: "e \<in> set ps"
      and d: "disasm decode readelf vm (snd e) False (Some (base, va)) = Inr rs" by auto
    from add_patch_entries [OF ps e] obtain x a t where x: "x \<in> set xs" "patch_name filter_key initonly x = Inr (Some (fst e))"
      and a: "map_of ?sm (fst e) = Some a" "map_of ?sm ''_text'' = Some t" "snd e = a - t"
      by (auto simp: patch_entry_def)
    have "0 \<le> snd e + base" using assms(4) assms(5) [OF a(1,2)] a(3) by simp
    from disasm_within [OF d assms(2) _ this] rs(2) obtain l where
      l: "rs = [(snd e + base, l)]" "l \<le> 48" "snd e + base + int l \<le> int (length vm)" by auto
    define p where "p = nat (snd e + base)"
    have p: "int p = snd e + base" using \<open>0 \<le> snd e + base\<close> by (simp add: p_def)
    have "{p..<p + l} \<subseteq> window filter_key initonly ?sm base x"
      using x(2) a p l(2) by (auto simp: window_def)
    with x(1) l p show ?thesis by (intro exI [of _ p] exI [of _ l]) auto
  qed
  from run show ?thesis
  proof (rule foldE_invariant)
    fix rs u v assume rs: "rs \<in> set rss" and u: "differ_in ?W vm u"
      and v: "(if rs = [] then Inr u else bindE (patch_func endbr_kernel rs u) (\<lambda>(data, _). Inr data)) = Inr v"
    show "differ_in ?W vm v"
    proof (cases "rs = []")
      case False
      with range [OF rs] obtain p l where r: "rs = [(int p, l)]" "p + l \<le> length vm" "{p..<p + l} \<subseteq> ?W" by blast
      from False v obtain b where "patch_func endbr_kernel [(int p, l)] u = Inr (v, b)"
        by (auto simp: r(1) bindE_Inr_iff)
      moreover have "length u = length vm" using u by (simp add: differ_in_def)
      ultimately have "differ_in {p..<p + l} u v" using r(2) by (intro patch_func_differ) auto
      with u r(3) show ?thesis by (blast intro: differ_trans differ_mono)
    qed (use u v in simp)
  qed (rule differ_refl)
qed

subsection \<open>Properties\<close>

text \<open>
  C12: a function whose range lies in the file returns at once: after an \<open>endbr64\<close> and a call of the
  tracer, which stay, comes a return, nops fill the rest of the range, and no other byte changes.
  When the two take up the whole range nothing is changed and no return is reported.
\<close>

theorem function_returns:
  assumes "p + 4 < length data" and "p + l \<le> length data"
  shows "\<exists>data'. patch_func endbr_kernel [(int p, l)] data = Inr (data', prefix_len data p < l) \<and>
    length data' = length data \<and>
    (\<forall>k < length data. data' ! k =
       (if prefix_len data p < l \<and> k = p + prefix_len data p then 0xc3
        else if p + prefix_len data p < k \<and> k < p + l then 0x90 else data ! k))"
proof (intro exI conjI)
  show "patch_func endbr_kernel [(int p, l)] data = Inr (returned p l data, prefix_len data p < l)"
    using assms by (rule kernel_loop.patch_one_range)
  show "length (returned p l data) = length data" by (simp add: returned_def Let_def)
  show "\<forall>k < length data. returned p l data ! k =
       (if prefix_len data p < l \<and> k = p + prefix_len data p then 0xc3
        else if p + prefix_len data p < k \<and> k < p + l then 0x90 else data ! k)"
    using assms(2) nth_returned [of data p l] by (cases "prefix_len data p < l") (auto simp: returned_def Let_def)
qed

theorem function_returns_witness:
  "\<exists>data'. patch_func endbr_kernel [(int 1, 6)] [0x90, 0xf3, 0x0f, 0x1e, 0xfa, 0x55, 0x53, 0x50] =
     Inr (data', prefix_len [0x90, 0xf3, 0x0f, 0x1e, 0xfa, 0x55, 0x53, 0x50] 1 < 6) \<and>
    length data' = length [0x90, 0xf3, 0x0f, 0x1e, 0xfa, 0x55, 0x53, 0x50 :: byte] \<and>
    (\<forall>k < length [0x90, 0xf3, 0x0f, 0x1e, 0xfa, 0x55, 0x53, 0x50 :: byte]. data' ! k =
       (if prefix_len [0x90, 0xf3, 0x0f, 0x1e, 0xfa, 0x55, 0x53, 0x50] 1 < 6 \<and>
           k = 1 + prefix_len [0x90, 0xf3, 0x0f, 0x1e, 0xfa, 0x55, 0x53, 0x50] 1 then 0xc3
        else if 1 + prefix_len [0x90, 0xf3, 0x0f, 0x1e, 0xfa, 0x55, 0x53, 0x50] 1 < k \<and> k < 1 + 6 then 0x90
        else [0x90, 0xf3, 0x0f, 0x1e, 0xfa, 0x55, 0x53, 0x50] ! k))"
  by (rule function_returns) simp_all

text \<open>
  C13: the loop of \<open>patch_kernel\<close> and the copy of it in \<open>patch_module\<close> do the same to a range in the
  file, although they test for \<open>endbr64\<close> in different ways.
\<close>

theorem patch_loops_agree:
  assumes "p + 4 < length data" and "p + l \<le> length data"
  shows "patch_func endbr_module [(int p, l)] data = patch_func endbr_kernel [(int p, l)] data"
  using kernel_loop.patch_one_range [OF assms] module_loop.patch_one_range [OF assms] by simp

theorem patch_loops_agree_witness:
  "patch_func endbr_module [(int 1, 5)] [0x90, 0xe8, 0, 0, 0, 0, 0x55] =
   patch_func endbr_kernel [(int 1, 5)] [0x90, 0xe8, 0, 0, 0, 0, 0x55]"
  by (rule patch_loops_agree) simp_all

text \<open>
  \<open>patch_kernel\<close> changes no byte of the image outside the 48 bytes from the address of a symbol on
  the patch list (for an initcall, of its function), and keeps the image's size.
\<close>

theorem patch_kernel_local:
  assumes "patch_kernel decode readelf vm symtab xs filter_key initonly = Inr vm'" and "good_decoder decode"
    and "get_text_rel readelf = Inr (base, va)" and "0 \<le> base"
    and "\<And>s a t. map_of (kernel_sym_map symtab) s = Some a \<Longrightarrow> map_of (kernel_sym_map symtab) ''_text'' = Some t \<Longrightarrow> t \<le> a"
  shows "differ_in (\<Union>x \<in> set xs. window filter_key initonly (kernel_sym_map symtab) base x) vm vm'"
  using assms by (rule patch_kernel_differs)

lemma demo_patch_kernel:
  "patch_kernel demo_decoder ''[1] .text PROGBITS 1000 0'' [0x55, 0x55, 0x55, 0xc3, 0x90, 0x90, 0x90, 0x90]
     [(0x1000, ''T'', ''_text''), (0x1002, ''t'', ''f'')] [Inr (''m'', ''f'')] [] False =
   Inr [0x55, 0x55, 0xc3, 0x90, 0x90, 0x90, 0x90, 0x90]"
  by code_simp

theorem patch_kernel_local_witness:
  "differ_in (\<Union>x \<in> set [Inr (''m'', ''f'')]. window [] False
       (kernel_sym_map [(0x1000, ''T'', ''_text''), (0x1002, ''t'', ''f'')]) 0 x)
     [0x55, 0x55, 0x55, 0xc3, 0x90, 0x90, 0x90, 0x90] [0x55, 0x55, 0xc3, 0x90, 0x90, 0x90, 0x90, 0x90]"
proof (rule patch_kernel_local [OF demo_patch_kernel demo_decoder_good])
  show "get_text_rel ''[1] .text PROGBITS 1000 0'' = Inr (0, 0x1000)" by code_simp
qed (auto simp: kernel_sym_map_def sym_row_def func_types_def has_key_def split: if_splits)

text \<open>
  The address of a symbol the kernel is patched at is that of its last global definition in the
  symbol table, and without one of its first function definition.
\<close>

theorem kernel_sym_map_exact:
  "map_of (kernel_sym_map symtab) s =
     (if rows_of s symtab = [] then None
      else if globals_of s symtab \<noteq> [] then Some (fst (last (globals_of s symtab)))
      else Some (fst (hd (rows_of s symtab))))"
  by (rule kernel_sym_map_rows)

text \<open>
  The offsets of a module's functions are read back from the lines of \<open>objdump -dF\<close>: a line for a
  function name without \<open><\<close> and without the separator gives that name and its offset.
\<close>

theorem offset_line_roundtrip:
  assumes "CHR ''<'' \<notin> set name" and "CHR '' '' \<notin> set name" and "int16 off = Inr n" and "CHR '' '' \<notin> set off"
  shows "offset_line (addr @ '' <'' @ name @ ''> (File Offset: '' @ off @ [CHR '')'', CHR '':'']) = Inr (name, n)"
proof -
  define sep where "sep = ''> (File Offset: ''"
  have none: "rsplit sep s = None" if "CHR '' '' \<notin> set s" for s
    using that
  proof (induction s)
    case (Cons c s)
    have "\<not> startswith (c # s) sep"
    proof
      assume "startswith (c # s) sep"
      then have "set sep \<subseteq> set (c # s)" unfolding startswith_prefix by (rule set_mono_prefix)
      with Cons.prems show False by (auto simp: sep_def)
    qed
    with Cons show ?case by simp
  qed simp
  have tail: "rsplit sep (sep @ off) = Some ([], off)"
    using assms(4) none [of off] by (auto simp: startswith_def sep_def)
  have app: "rsplit sep (u @ sep @ off) = Some (u, off)" for u
    by (induction u) (simp_all add: tail)
  have "offset_line ((addr @ '' <'' @ name @ sep @ off) @ [CHR '')'', CHR '':'']) = Inr (name, n)"
    using app [of "addr @ '' <'' @ name"] assms(1,3)
    by (simp add: offset_line_def endswith_rev chop_def sep_def [symmetric])
  then show ?thesis by (simp add: sep_def)
qed

theorem offset_line_roundtrip_witness:
  "offset_line (''0000000000000010'' @ '' <'' @ ''e1000_init'' @ ''> (File Offset: '' @ ''0x50'' @ [CHR '')'', CHR '':'']) =
     Inr (''e1000_init'', 80)"
  by (rule offset_line_roundtrip) code_simp+

end
