(* ===== verification/Initrd.thy ===== *)
theory Initrd
  imports Target KernelPatch
begin

section \<open>Rebuilding the initial ramdisk: hwfilter.patch_initrd\<close>

text \<open>
  \<open>kernel_patch/hwfilter.py\<close>, \<open>patch_initrd\<close>: the script \<open>unpack-initramfs.sh\<close> leaves the parts of the
  ramdisk in the directory \<open>out\<close>, named \<open><name>-<i>.cpio\<close> with the extension of a compressor when the
  part is compressed. The first compressed part is unpacked, the modules are removed from it, and
  the parts are put together again. The packers and \<open>depmod\<close> are external programs and parameters;
  a file tree is the list of its directories and the contents of its files.
\<close>

subsection \<open>The order of the parts\<close>

text \<open>\<open>xs[i] = v\<close> of a list; a negative index counts from the end.\<close>

definition list_set :: "'a list \<Rightarrow> int \<Rightarrow> 'a \<Rightarrow> 'a list res" where
  "list_set xs i v = (let j = (if i < 0 then i + int (length xs) else i) in
     if 0 \<le> j \<and> j < int (length xs) then Inr (xs[nat j := v]) else Inl IndexError)"

text \<open>The number of a part, from its name.\<close>

definition part_index :: "str \<Rightarrow> int res" where
  "part_index f = (let ext = ext_of f; newf = (if ext \<in> set helper_exts then chop (length ext + 1) f else f) in
     bindE (guardE (endswith newf ''.cpio'') AssertionError) (\<lambda>_.
     bindE (int10 (last (split_char (CHR ''-'') (chop 5 newf)))) (\<lambda>n. Inr (n - 1))))"

type_synonym parts = "str option list"

definition part_file :: "str \<Rightarrow> str option \<times> parts \<Rightarrow> (str option \<times> parts) res" where
  "part_file f st = (case st of (fspart, parts) \<Rightarrow>
     bindE (part_index f) (\<lambda>idx. bindE (list_set parts idx (Some f)) (\<lambda>parts.
       Inr (if ext_of f \<in> set helper_exts \<and> fspart = None then Some f else fspart, parts))))"

definition part_dir :: "str \<times> str list \<Rightarrow> str option \<times> parts option \<Rightarrow> (str option \<times> parts option) res" where
  "part_dir d st = bindE (foldE part_file (snd d) (fst st, replicate (length (snd d)) None))
     (\<lambda>(fspart, parts). Inr (fspart, Some parts))"

text \<open>Without a compressed part the last one is taken.\<close>

definition pick_fspart :: "str option \<times> parts option \<Rightarrow> str res" where
  "pick_fspart st = (case fst st of
       Some f \<Rightarrow> Inr f
     | None \<Rightarrow> (case snd st of
         None \<Rightarrow> Inl TypeError
       | Some parts \<Rightarrow> bindE (from_end 1 parts) (\<lambda>p. case p of None \<Rightarrow> Inl AttributeError | Some f \<Rightarrow> Inr f)))"

subsection \<open>The file tree\<close>

record tree =
  tree_dirs :: "str list"
  tree_files :: "((str \<times> str) \<times> bytes) list"

record packers =
  unpack_tree :: "str \<Rightarrow> bytes \<Rightarrow> tree"
  pack_tree :: "str \<Rightarrow> tree \<Rightarrow> bytes"
  depmod :: "tree \<Rightarrow> tree"

text \<open>The walk of the module directory, as files of the tree.\<close>

definition below :: "str \<Rightarrow> str \<Rightarrow> bool" where
  "below d root \<longleftrightarrow> root = d \<or> startswith root (d @ ''/'')"

definition tree_walk :: "str \<Rightarrow> tree \<Rightarrow> walk" where
  "tree_walk d t = map (\<lambda>(root, f). (root, [f])) (filter (\<lambda>(root, f). below d root) (map fst (tree_files t)))"

definition remove_files :: "str \<Rightarrow> pyset \<Rightarrow> tree \<Rightarrow> tree" where
  "remove_files d rmmods t = t\<lparr>tree_files :=
     filter (\<lambda>((root, f), _). \<not> (below d root \<and> is_removed rmmods f)) (tree_files t)\<rparr>"

definition ascii :: "str \<Rightarrow> bytes" where
  "ascii s = map of_char s"

text \<open>The file system table for openSUSE images.\<close>

definition set_fstab :: "tree \<Rightarrow> tree res" where
  "set_fstab t = bindE (guardE (''./etc'' \<in> set (tree_dirs t)) FileNotFoundError) (\<lambda>_.
     Inr (t\<lparr>tree_files := AList.update (''./etc'', ''fstab'')
       (ascii (''LABEL=ROOT /sysroot xfs defaults 0 1'' @ [CHR 0x0A] @ ''LABEL=EFI /boot/efi vfat defaults 0 0'' @ [CHR 0x0A]))
       (tree_files t)\<rparr>))"

subsection \<open>The new ramdisk\<close>

definition part_bytes :: "(str \<Rightarrow> bytes) \<Rightarrow> str \<Rightarrow> bytes \<Rightarrow> str option \<Rightarrow> bytes res" where
  "part_bytes content fspart newrd p = (case p of
       None \<Rightarrow> Inl TypeError | Some f \<Rightarrow> Inr (if f = fspart then newrd else content f))"

definition new_rd :: "packers \<Rightarrow> str \<Rightarrow> pyset \<Rightarrow> bool \<Rightarrow> str \<Rightarrow> bytes \<Rightarrow> ((nat \<times> nat) \<times> bytes) res" where
  "new_rd pk ker_ver rmmods opensuse ext rd =
     (let t = unpack_tree pk ext rd; d = mod_dir_of ''.'' ker_ver;
          stat_res = calc_module_count rmmods (tree_walk d t);
          t = depmod pk (remove_files d rmmods t)
      in bindE (if opensuse then set_fstab t else Inr t) (\<lambda>t. Inr (stat_res, pack_tree pk ext t)))"

definition rebuild_initrd ::
    "packers \<Rightarrow> walk \<Rightarrow> (str \<Rightarrow> bytes) \<Rightarrow> str \<Rightarrow> pyset \<Rightarrow> bool \<Rightarrow> ((nat \<times> nat) \<times> bytes) res" where
  "rebuild_initrd pk out content ker_ver rmmods opensuse =
     bindE (foldE part_dir out (None, None)) (\<lambda>st.
     bindE (pick_fspart st) (\<lambda>fspart.
     bindE (guardE (ext_of fspart \<in> set helper_exts) KeyError) (\<lambda>_.
     bindE (new_rd pk ker_ver rmmods opensuse (ext_of fspart) (content fspart)) (\<lambda>(stat_res, newrd).
     bindE (mapE (part_bytes content fspart newrd) (case snd st of None \<Rightarrow> [] | Some ps \<Rightarrow> ps)) (\<lambda>ps.
       Inr (stat_res, concat ps))))))"

text \<open>
  \<open>patch_initrd\<close>: nothing is done without a ramdisk; \<open>split rd\<close> is the directory \<open>out\<close> the unpacking
  script makes of it, with the contents of its files.
\<close>

definition patch_initrd ::
    "packers \<Rightarrow> (bytes \<Rightarrow> walk \<times> (str \<Rightarrow> bytes)) \<Rightarrow> str \<Rightarrow> pyset \<Rightarrow> str list \<Rightarrow> bool \<Rightarrow> bytes option \<Rightarrow>
     ((nat \<times> nat) option \<times> bytes option) res" where
  "patch_initrd pk split ker_ver rmmods filter_key opensuse initrd = (case initrd of
       None \<Rightarrow> Inr (None, None)
     | Some rd \<Rightarrow> bindE (rebuild_initrd pk (fst (split rd)) (snd (split rd)) ker_ver
           (filter_rmmods filter_key rmmods) opensuse) (\<lambda>(stat_res, data). Inr (Some stat_res, Some data)))"

subsection \<open>Properties\<close>

lemma split_char_app: "split_char d (a @ d # b) = split_char d a @ split_char d b"
  by (induction a) (auto split: list.split)

lemma last_split: "d \<notin> set b \<Longrightarrow> last (split_char d (a @ d # b)) = b"
  by (simp add: split_char_app split_char_no_sep)

text \<open>The name of a part: \<open>ex\<close> is empty or the extension of a compressor.\<close>

definition part_name :: "str \<Rightarrow> (nat \<Rightarrow> str) \<Rightarrow> (nat \<Rightarrow> str) \<Rightarrow> nat \<Rightarrow> str" where
  "part_name base num ex i =
     base @ ''-'' @ num i @ ''.cpio'' @ (if ex i = [] then [] else ''.'' @ ex i)"

definition part_names_ok :: "(nat \<Rightarrow> str) \<Rightarrow> (nat \<Rightarrow> str) \<Rightarrow> nat \<Rightarrow> nat \<Rightarrow> bool" where
  "part_names_ok num ex n c \<longleftrightarrow> c < n \<and>
     list_all (\<lambda>i. CHR ''-'' \<notin> set (num i) \<and> int10 (num i) = Inr (int i + 1) \<and>
       (if i = c then ex i \<in> set helper_exts else ex i = [])) [0..<n]"

lemma helper_ext_chars: "e \<in> set helper_exts \<Longrightarrow> CHR ''.'' \<notin> set e \<and> e \<noteq> []"
  by (auto simp: helper_exts_def)

lemma cpio_no_helper: "''cpio'' \<notin> set helper_exts"
  by (simp add: helper_exts_def)

lemma part_name_ext:
  assumes "part_names_ok num ex n c" and "i < n"
  shows "ext_of (part_name base num ex i) = (if i = c then ex c else ''cpio'')"
proof -
  have ex: "if i = c then ex i \<in> set helper_exts else ex i = []"
    using assms by (auto simp: part_names_ok_def list_all_iff)
  show ?thesis
  proof (cases "i = c")
    case True
    with ex have "CHR ''.'' \<notin> set (ex c)" "ex c \<noteq> []" using helper_ext_chars by auto
    then show ?thesis using last_split [of "CHR ''.''" "ex c" "base @ ''-'' @ num c @ ''.cpio''"] True
      by (simp add: ext_of_def part_name_def)
  next
    case False
    then show ?thesis using last_split [of "CHR ''.''" "''cpio''" "base @ ''-'' @ num i"] ex
      by (simp add: ext_of_def part_name_def)
  qed
qed

lemma part_index_name:
  assumes "part_names_ok num ex n c" and "i < n"
  shows "part_index (part_name base num ex i) = Inr (int i)"
proof -
  let ?f = "part_name base num ex i" and ?new = "base @ ''-'' @ num i @ ''.cpio''"
  have num: "CHR ''-'' \<notin> set (num i)" "int10 (num i) = Inr (int i + 1)"
    and ex: "if i = c then ex i \<in> set helper_exts else ex i = []"
    using assms by (auto simp: part_names_ok_def list_all_iff)
  have "(if ext_of ?f \<in> set helper_exts then chop (length (ext_of ?f) + 1) ?f else ?f) = ?new"
  proof (cases "i = c")
    case True
    with ex helper_ext_chars have "ex c \<noteq> []" by auto
    then have f: "?f = ?new @ ''.'' @ ex c" using True by (simp add: part_name_def)
    have e: "ext_of ?f = ex c" "ex c \<in> set helper_exts" using ex True part_name_ext [OF assms, of base] by auto
    have "chop (length (ex c) + 1) (?new @ ''.'' @ ex c) = ?new" by (rule chop_append) simp
    then show ?thesis unfolding e(1) using e(2) f by (simp only: if_True)
  next
    case False
    then show ?thesis using ex part_name_ext [OF assms] cpio_no_helper by (simp add: part_name_def)
  qed
  moreover have "endswith ?new ''.cpio''" using endswith_append [of "base @ ''-'' @ num i" "''.cpio''"] by simp
  moreover have "last (split_char (CHR ''-'') (chop 5 ?new)) = num i"
    using last_split [OF num(1), of base] by (simp add: chop_def)
  ultimately show ?thesis unfolding part_index_def Let_def by (simp add: num(2))
qed

lemma from_end_mem: "from_end 1 xs = Inr x \<Longrightarrow> x \<in> set xs"
  by (cases xs rule: rev_cases) (auto simp: from_end_def)

lemma list_set_nat: "i < length xs \<Longrightarrow> list_set xs (int i) v = Inr (xs[i := v])"
  by (simp add: list_set_def)

lemma part_files:
  assumes ok: "part_names_ok num ex n c"
    and "length ps = n" and "set is \<subseteq> {..<n}" and "fs = None \<or> fs = Some (part_name base num ex c)"
  shows "foldE part_file (map (part_name base num ex) is) (fs, ps) =
    Inr (if c \<in> set is then Some (part_name base num ex c) else fs,
      map (\<lambda>i. if i \<in> set is then Some (part_name base num ex i) else ps ! i) [0..<n])"
  using assms(2-)
proof (induction "is" arbitrary: fs ps)
  case Nil
  then show ?case by (simp add: map_nth [symmetric] del: map_nth) (metis map_nth)
next
  case (Cons i "is")
  let ?nm = "part_name base num ex"
  have i: "i < n" "set is \<subseteq> {..<n}" using Cons.prems(2) by auto
  let ?fs = "if i = c then Some (?nm c) else fs" and ?ps = "ps[i := Some (?nm i)]"
  have "ext_of (?nm i) \<in> set helper_exts \<longleftrightarrow> i = c"
    using part_name_ext [OF ok i(1)] ok cpio_no_helper i(1) by (auto simp: part_names_ok_def list_all_iff)
  then have "part_file (?nm i) (fs, ps) = Inr (?fs, ?ps)"
    using part_index_name [OF ok i(1)] i(1) Cons.prems(1,3) by (auto simp: part_file_def list_set_nat)
  moreover have "foldE part_file (map ?nm is) (?fs, ?ps) =
      Inr (if c \<in> set is then Some (?nm c) else ?fs, map (\<lambda>j. if j \<in> set is then Some (?nm j) else ?ps ! j) [0..<n])"
    using Cons.prems i by (intro Cons.IH) auto
  moreover have "map (\<lambda>j. if j \<in> set is then Some (?nm j) else ?ps ! j) [0..<n] =
      map (\<lambda>j. if j \<in> set (i # is) then Some (?nm j) else ps ! j) [0..<n]"
    using Cons.prems(1) by (auto simp: nth_list_update)
  ultimately show ?case by auto
qed

text \<open>
  C30: the ramdisk is put together in the order of its parts, whatever the order in which the directory
  lists them: when one of the numbered parts is compressed, the result is the concatenation of the
  parts from the first to the last, with the compressed one rebuilt.
\<close>

theorem initrd_in_order:
  assumes "part_names_ok num ex n c" and "distinct is" and "set is = {..<n}"
  shows "rebuild_initrd pk [(root, map (part_name base num ex) is)] content ker_ver rmmods opensuse =
    bindE (new_rd pk ker_ver rmmods opensuse (ex c) (content (part_name base num ex c))) (\<lambda>(stat_res, newrd).
      Inr (stat_res, concat (map (\<lambda>i. if i = c then newrd else content (part_name base num ex i)) [0..<n])))"
proof -
  let ?nm = "part_name base num ex"
  have c: "c < n" "ex c \<in> set helper_exts" using assms(1) by (auto simp: part_names_ok_def list_all_iff)
  have "length is = n" using assms(2,3) distinct_card [of "is"] by simp
  then have "foldE part_file (map ?nm is) (None, replicate n None) =
      Inr (if c \<in> set is then Some (?nm c) else None,
        map (\<lambda>i. if i \<in> set is then Some (?nm i) else replicate n None ! i) [0..<n])"
    by (intro part_files [OF assms(1)]) (simp_all add: assms(3))
  moreover have "map (\<lambda>i. if i \<in> set is then Some (?nm i) else replicate n None ! i) [0..<n] =
      map (\<lambda>i. Some (?nm i)) [0..<n]" unfolding assms(3) by simp
  ultimately have "foldE part_file (map ?nm is) (None, replicate (length (map ?nm is)) None) =
      Inr (Some (?nm c), map (\<lambda>i. Some (?nm i)) [0..<n])"
    using \<open>length is = n\<close> c(1) unfolding assms(3) by simp
  then have dir: "foldE part_dir [(root, map ?nm is)] (None, None) =
      Inr (Some (?nm c), Some (map (\<lambda>i. Some (?nm i)) [0..<n]))"
    by (simp add: part_dir_def)
  have ext: "ext_of (?nm c) = ex c" using part_name_ext [OF assms(1) c(1)] by simp
  have inj: "?nm i = ?nm c \<longleftrightarrow> i = c" if "i < n" for i
  proof
    assume "?nm i = ?nm c"
    then have "part_index (?nm i) = part_index (?nm c)" by (simp only:)
    then show "i = c" unfolding part_index_name [OF assms(1) that] part_index_name [OF assms(1) c(1)] by simp
  qed simp
  have "mapE (part_bytes content (?nm c) newrd) (map (\<lambda>i. Some (?nm i)) [0..<n]) =
      Inr (map (\<lambda>i. if i = c then newrd else content (?nm i)) [0..<n])" for newrd
  proof -
    have "mapE (part_bytes content (?nm c) newrd) (map (\<lambda>i. Some (?nm i)) is') =
      Inr (map (\<lambda>i. if i = c then newrd else content (?nm i)) is')" if "set is' \<subseteq> {..<n}" for is'
      using that by (induction is') (auto simp: part_bytes_def inj)
    from this [of "[0..<n]"] show ?thesis by (simp add: lessThan_atLeast0)
  qed
  then show ?thesis
    by (simp add: rebuild_initrd_def dir pick_fspart_def ext c(2) del: foldE.simps)
qed

text \<open>
  C31: a ramdisk without a compressed part is not rebuilt: the last part is taken for unpacking, no helper
  is known for its extension \<open>cpio\<close>, and the script fails.
\<close>

theorem initrd_uncompressed_fails:
  assumes "list_all (\<lambda>f. ext_of f = ''cpio'') files"
  shows "\<exists>e. rebuild_initrd pk [(root, files)] content ker_ver rmmods opensuse = Inl e"
proof -
  let ?P = "\<lambda>st :: str option \<times> parts. fst st = None \<and> list_all (\<lambda>p. p = None \<or> (\<exists>f. p = Some f \<and> ext_of f = ''cpio'')) (snd st)"
  have upd: "list_all Q (xs[i := v])" if "list_all Q xs" "Q v" for Q i v and xs :: "parts"
    using that set_update_subset_insert [of xs i v] by (auto simp: list_all_iff)
  have step: "?P v" if "f \<in> set files" and "?P u" and r: "part_file f u = Inr v" for f u v
  proof -
    have f: "ext_of f = ''cpio''" using assms that(1) by (simp add: list_all_iff)
    from r obtain j where "v = (fst u, (snd u)[j := Some f])"
      using cpio_no_helper by (cases u) (auto simp: part_file_def f bindE_Inr_iff list_set_def Let_def split: if_split_asm)
    with that(2) f show ?thesis by (auto intro!: upd)
  qed
  have "ext_of f \<notin> set helper_exts" if "foldE part_dir [(root, files)] (None, None) = Inr st" and "pick_fspart st = Inr f" for st f
  proof -
    from that(1) obtain q where q: "foldE part_file files (None, replicate (length files) None) = Inr q"
      "st = (fst q, Some (snd q))"
      by (auto simp: part_dir_def bindE_Inr_iff)
    have "?P (None, replicate (length files) None)" by (simp add: list_all_iff)
    then have "?P q" by (rule foldE_invariant [OF q(1), where P = ?P]) (rule step)
    moreover from this that(2) q(2) have "from_end 1 (snd q) = Inr (Some f)"
      by (auto simp: pick_fspart_def bindE_Inr_iff split: option.split_asm)
    then have "Some f \<in> set (snd q)" by (rule from_end_mem)
    ultimately have "ext_of f = ''cpio''" by (auto simp: list_all_iff)
    then show ?thesis using cpio_no_helper by simp
  qed
  then have "rebuild_initrd pk [(root, files)] content ker_ver rmmods opensuse \<noteq> Inr r" for r
    unfolding rebuild_initrd_def by (auto simp: bindE_Inr_iff simp del: foldE.simps)
  then show ?thesis by (cases "rebuild_initrd pk [(root, files)] content ker_ver rmmods opensuse") auto
qed

definition demo_packers :: packers where
  "demo_packers = \<lparr>unpack_tree = \<lambda>_ bs. \<lparr>tree_dirs = [], tree_files =
       [((''./lib/modules/5.4/net'', ''e1000.ko''), bs), ((''./bin'', ''init''), [7])]\<rparr>,
     pack_tree = \<lambda>_ t. concat (map snd (tree_files t)), depmod = \<lambda>t. t\<rparr>"

definition demo_num :: "nat \<Rightarrow> str" where
  "demo_num i = (if i = 0 then ''1'' else ''2'')"

definition demo_ex :: "nat \<Rightarrow> str" where
  "demo_ex i = (if i = 1 then ''zst'' else [])"

definition demo_content :: "str \<Rightarrow> bytes" where
  "demo_content p = (if p = ''initrd-1.cpio'' then [1, 2] else [3])"

theorem initrd_in_order_witness:
  "rebuild_initrd demo_packers [(''./out'', map (part_name ''initrd'' demo_num demo_ex) [1, 0])]
      demo_content ''5.4'' [''e1000''] False = Inr ((1, 1), [1, 2, 7])"
proof -
  have "part_names_ok demo_num demo_ex 2 1" by code_simp
  moreover have "distinct [1, 0 :: nat]" "set [1, 0 :: nat] = {..<2}" by auto
  ultimately have "rebuild_initrd demo_packers [(''./out'', map (part_name ''initrd'' demo_num demo_ex) [1, 0])]
      demo_content ''5.4'' [''e1000''] False =
    bindE (new_rd demo_packers ''5.4'' [''e1000''] False (demo_ex 1) (demo_content (part_name ''initrd'' demo_num demo_ex 1)))
      (\<lambda>(stat_res, newrd). Inr (stat_res, concat (map (\<lambda>i. if i = 1 then newrd
        else demo_content (part_name ''initrd'' demo_num demo_ex i)) [0..<2])))"
    by (rule initrd_in_order)
  also have "\<dots> = Inr ((1, 1), [1, 2, 7])" by code_simp
  finally show ?thesis .
qed

theorem initrd_uncompressed_fails_witness:
  "\<exists>e. rebuild_initrd demo_packers [(''./out'', [''initrd-1.cpio''])] (\<lambda>_. [1]) ''5.4'' [] False = Inl e"
  by (rule initrd_uncompressed_fails) code_simp

end
