(* ===== verification/PatchImage.thy ===== *)
theory PatchImage
  imports Drivers BzImage Initrd
begin

section \<open>Patching a disk image: patch-disk-image.py\<close>

text \<open>
  \<open>kernel_patch/patch-disk-image.py\<close> checks its arguments, runs the analysis of \<open>hwfilter.check_drivers\<close>
  on the image and applies the result: the kernel is patched and replaced, the module files are
  removed, functions of other modules are patched and the initial ramdisk is rebuilt
  (\<open>patch_image\<close>). An image is what these steps read and write of it; the external programs are the
  fields of \<open>tools\<close>. Theory \<open>Mount\<close> adds the mounting of an image file.
\<close>

record image =
  i_bz :: bzfiles                   \<comment> \<open>the boot image\<close>
  i_copy :: "bytes option"          \<comment> \<open>\<open>boot/patched/<kernel>\<close>\<close>
  i_walk :: walk                    \<comment> \<open>the files of \<open>lib/modules/<version>\<close>\<close>
  i_files :: "str \<Rightarrow> bytes"         \<comment> \<open>their contents\<close>
  i_initrd :: bytes                 \<comment> \<open>the ramdisk that \<open>get_initrd\<close> finds\<close>

record tools =
  t_decode :: decoder
  t_readelf :: "bytes \<Rightarrow> str"
  t_objdump :: "bytes \<Rightarrow> str"
  t_unpack :: "str \<Rightarrow> bytes \<Rightarrow> bytes"
  t_pack :: "str \<Rightarrow> bytes \<Rightarrow> bytes"
  t_compress :: "str \<Rightarrow> bytes \<Rightarrow> bytes"
  t_dd :: dd
  t_extract :: "bytes \<Rightarrow> bytes"     \<comment> \<open>\<open>extract-vmlinux\<close>\<close>
  t_packers :: packers
  t_split :: "bytes \<Rightarrow> walk \<times> (str \<Rightarrow> bytes)"
  t_depmod :: "walk \<times> (str \<Rightarrow> bytes) \<Rightarrow> walk \<times> (str \<Rightarrow> bytes)"   \<comment> \<open>\<open>depmod -a\<close>, in \<open>remove_module\<close>\<close>

definition removed_mods :: "verdict \<Rightarrow> pyset" where
  "removed_mods v = v_remove v @ v_mod_dep v @ v_mod_builtin_dep v @ v_noentry v"

definition patched_syms :: "verdict \<Rightarrow> xsym list" where
  "patched_syms v = map Inr (v_patch v @ v_builtin_dep v) @ map Inl (v_rmfunc v)"

text \<open>
  \<open>patch_image\<close>: every step asks for the version of the kernel again; none of them changes a file name
  in \<open>boot\<close>, so that the answer stays the same. \<open>remove_module\<close> ends with \<open>depmod\<close>, which writes its
  index files beside the modules that are left.
\<close>

definition patch_image ::
    "tools \<Rightarrow> fsys \<Rightarrow> (str \<Rightarrow> str option) \<Rightarrow> (str \<Rightarrow> str list) \<Rightarrow> str \<Rightarrow> str option \<Rightarrow> verdict \<Rightarrow> image \<Rightarrow> image res" where
  "patch_image t fs link globs img_mounted sysmap v img =
     (let vmlinux = t_extract t (case bzimage (i_bz img) of None \<Rightarrow> [] | Some bz \<Rightarrow> bz);
          rmmods = removed_mods v
      in bindE (get_kernel_ver fs link globs img_mounted) (\<lambda>ker_ver.
         bindE (get_target_info fs link globs img_mounted sysmap) (\<lambda>(mods, symtab).
         bindE (patch_kernel (t_decode t) (t_readelf t vmlinux) vmlinux symtab (patched_syms v) [] False) (\<lambda>newkern.
         let bz_copy = replace_kernel (t_unpack t) (t_compress t) (t_dd t) newkern (i_bz img) (i_copy img);
             left = t_depmod t (remove_module rmmods (i_walk img), i_files img)
         in bindE (patch_module (t_decode t) (t_objdump t) (t_unpack t) (t_pack t) (v_rmko v) (fst left) (snd left)) (\<lambda>files.
            bindE (get_initrd fs link globs img_mounted) (\<lambda>initrd.
            bindE (patch_initrd (t_packers t) (t_split t) ker_ver rmmods [] False
                (case initrd of None \<Rightarrow> None | Some _ \<Rightarrow> Some (i_initrd img))) (\<lambda>(stat_res, rd).
              Inr \<lparr>i_bz = fst bz_copy, i_copy = snd bz_copy, i_walk = fst left, i_files = files,
                i_initrd = (case rd of None \<Rightarrow> i_initrd img | Some d \<Rightarrow> d)\<rparr>)))))))"

text \<open>The first argument that does not exist ends the script with exit code 1.\<close>

definition missing :: "fsys \<Rightarrow> str list \<Rightarrow> str option" where
  "missing fs ps = find (\<lambda>p. \<not> fs_exists fs p) ps"

definition busreg_lists :: "str \<Rightarrow> str list" where
  "busreg_lists db_path = map (path_join db_path) [''bus-regfuns.db'', ''class-regfuns.db'']"

text \<open>The arguments as \<open>argparse\<close> leaves them; the output path is read by nothing.\<close>

record pd_args =
  p_kernel_path :: str
  p_kernel_build :: str
  p_disk_image :: str
  p_hw_profile :: str
  p_db_path :: str
  p_output_path :: str
  p_system_map :: "str option"
  p_guestmount :: bool

definition disk_inputs :: "fsys \<Rightarrow> pd_args \<Rightarrow> (pyset dict \<times> pyset) option res" where
  "disk_inputs fs a =
     (let objdeplist = path_join (p_db_path a) ''builtin-objs.dep'';
          smap = (case p_system_map a of None \<Rightarrow> [] | Some s \<Rightarrow> if s = [] then [] else [s])
      in if missing fs ([p_kernel_path a, p_kernel_build a, p_hw_profile a, p_disk_image a] @ smap @ [objdeplist]) \<noteq> None
         then Inr None
         else bindE (load_btobj_deps fs (p_kernel_build a) objdeplist) (\<lambda>btobj_deps.
           if missing fs (busreg_lists (p_db_path a)) \<noteq> None then Inr None
           else bindE (load_busreg_apis fs (busreg_lists (p_db_path a))) (\<lambda>busreg_apis.
             if missing fs [path_join (p_db_path a) ''hw.db''] \<noteq> None then Inr None
             else Inr (Some (btobj_deps, busreg_apis)))))"

text \<open>
  \<open>analyze_image\<close> copies the sets of the analysis; the fields of the verdict are the places of the
  tuple that \<open>check_drivers\<close> returns.
\<close>

definition analyze_image ::
    "fsys \<Rightarrow> (str \<Rightarrow> str option) \<Rightarrow> (str \<Rightarrow> str list) \<Rightarrow> (str \<Rightarrow> str) \<Rightarrow> (str \<Rightarrow> str list) \<Rightarrow>
     str \<Rightarrow> pyset \<Rightarrow> pyset dict \<Rightarrow> str \<Rightarrow> str \<Rightarrow> str \<Rightarrow> str \<Rightarrow> str option \<Rightarrow> verdict res" where
  "analyze_image fs link globs nm elf img_mounted busreg_apis btobj_deps linux_src linux_build dev db sysmap =
     check_drivers fs link globs nm elf dev db img_mounted busreg_apis btobj_deps linux_src linux_build sysmap"

text \<open>The two steps on an image that is mounted at \<open>img_mounted\<close>; theory \<open>Mount\<close> has the whole script.\<close>

definition patch_mounted ::
    "tools \<Rightarrow> fsys \<Rightarrow> (str \<Rightarrow> str option) \<Rightarrow> (str \<Rightarrow> str list) \<Rightarrow> (str \<Rightarrow> str) \<Rightarrow> (str \<Rightarrow> str list) \<Rightarrow>
     pd_args \<Rightarrow> str \<Rightarrow> pyset dict \<times> pyset \<Rightarrow> image \<Rightarrow> image res" where
  "patch_mounted t fs link globs nm elf a img_mounted dbs img =
     bindE (analyze_image fs link globs nm elf img_mounted (snd dbs) (fst dbs) (p_kernel_path a) (p_kernel_build a)
              (p_hw_profile a) (path_join (p_db_path a) ''hw.db'') (p_system_map a)) (\<lambda>v.
       patch_image t fs link globs img_mounted (p_system_map a) v img)"

text \<open>
  \<open>hwfilter.run_kernel_cmd\<close>: the commands of a \<open>.cmd\<close> file that were run, and how the function ended; a
  line \<open>cmd_...\<close> without \<open>:=\<close> stops it behind the commands before.
\<close>

fun run_cmds :: "str list \<Rightarrow> str list \<times> unit res" where
  "run_cmds [] = ([], Inr ())"
| "run_cmds (l # ls) =
     (if \<not> startswith (strip l) ''cmd_'' then run_cmds ls
      else case index (split_str '':='' (strip l)) 1 of
        Inl e \<Rightarrow> ([], Inl e)
      | Inr c \<Rightarrow> (case run_cmds ls of (cs, r) \<Rightarrow> (strip c # cs, r)))"

definition run_kernel_cmd :: "fsys \<Rightarrow> str \<Rightarrow> str \<Rightarrow> str list \<times> unit res" where
  "run_kernel_cmd fs cmdfile cwd = (case read_text fs (path_join cwd cmdfile) of
       Inl e \<Rightarrow> ([], Inl e)
     | Inr data \<Rightarrow> run_cmds (lines_of (strip data)))"

subsection \<open>The modules of a patched image\<close>

text \<open>The modules some of whose functions are to be patched.\<close>

definition patched_stems :: "(str \<times> str) list \<Rightarrow> str set" where
  "patched_stems ko = (\<lambda>p. stem_of (basename (snd p))) ` set ko"

lemma mod_patch_keys: "has_key (mod_patch ko) m \<longleftrightarrow> m \<in> patched_stems ko"
proof -
  have "has_key (fold (\<lambda>(s, md). dd_add (stem_of (basename md)) s) ko d) m \<longleftrightarrow> has_key d m \<or> m \<in> patched_stems ko" for d
    by (induction ko arbitrary: d) (auto simp: patched_stems_def)
  then show ?thesis by (simp add: mod_patch_def has_key_iff)
qed

lemma patch_module_file_frame:
  assumes "patch_module_file decode objdump unpack pack mp (root, f) files = Inr files'"
    and "\<not> (p = path_join root f \<and> has_key mp (stem_of f))"
  shows "files' p = files p"
  using assms by (auto simp: patch_module_file_def Let_def bindE_Inr_iff split: if_split_asm)

lemma patch_module_frame:
  assumes "patch_module decode objdump unpack pack ko w files = Inr files'"
    and "\<And>root f. (root, f) \<in> set (walk_files w) \<Longrightarrow> \<not> (p = path_join root f \<and> stem_of f \<in> patched_stems ko)"
  shows "files' p = files p"
proof (rule foldE_invariant [where P = "\<lambda>g. g p = files p"])
  show "foldE (patch_module_file decode objdump unpack pack (mod_patch ko)) (walk_files w) files = Inr files'"
    using assms(1) by (simp add: patch_module_def)
next
  fix x u v
  assume x: "x \<in> set (walk_files w)" "u p = files p" "patch_module_file decode objdump unpack pack (mod_patch ko) x u = Inr v"
  then show "v p = files p"
    using patch_module_file_frame [of decode objdump unpack pack "mod_patch ko" "fst x" "snd x" u v p]
      assms(2) [of "fst x" "snd x"] by (simp add: mod_patch_keys)
qed simp

text \<open>
  What is relied on of \<open>depmod\<close>: it leaves the module files and their contents as they are; what it
  writes are files with other names.
\<close>

definition module_files :: "walk \<Rightarrow> (str \<times> str) list" where
  "module_files w = filter (\<lambda>(_, f). is_module_file f) (walk_files w)"

definition index_paths :: "walk \<Rightarrow> str set" where
  "index_paths w = {path_join root f | root f. (root, f) \<in> set (walk_files w) \<and> \<not> is_module_file f}"

definition good_depmod :: "(walk \<times> (str \<Rightarrow> bytes) \<Rightarrow> walk \<times> (str \<Rightarrow> bytes)) \<Rightarrow> bool" where
  "good_depmod dm \<longleftrightarrow> (\<forall>w files. module_files (fst (dm (w, files))) = module_files w \<and>
     {p. snd (dm (w, files)) p \<noteq> files p} \<subseteq> index_paths (fst (dm (w, files))))"

text \<open>
  C32: after \<open>patch_image\<close> the module files of the image are exactly those that were not to be removed, and
  the content of a file differs from before only where its module has functions to be patched or it
  is an index that \<open>depmod\<close> writes: removal never touches what is kept and patching never revives
  what is removed.
\<close>

theorem patch_image_modules:
  assumes "patch_image t fs link globs img_mounted sysmap v img = Inr img'" and "good_depmod (t_depmod t)"
  shows "module_files (i_walk img') = filter (\<lambda>(_, f). \<not> is_removed (removed_mods v) f) (module_files (i_walk img)) \<and>
    {p. i_files img' p \<noteq> i_files img p} \<subseteq> index_paths (i_walk img') \<union>
      {path_join root f | root f. (root, f) \<in> set (walk_files (i_walk img')) \<and> stem_of f \<in> patched_stems (v_rmko v)}"
proof -
  let ?kept = "remove_module (removed_mods v) (i_walk img)"
  let ?left = "t_depmod t (?kept, i_files img)"
  from assms(1) have walk: "i_walk img' = fst ?left"
    and files: "patch_module (t_decode t) (t_objdump t) (t_unpack t) (t_pack t) (v_rmko v) (fst ?left) (snd ?left) = Inr (i_files img')"
    by (auto simp: patch_image_def Let_def bindE_Inr_iff split: prod.splits)
  from assms(2) have dm: "module_files (fst ?left) = module_files ?kept"
    "{p. snd ?left p \<noteq> i_files img p} \<subseteq> index_paths (fst ?left)" unfolding good_depmod_def by blast+
  have "p \<in> index_paths (fst ?left) \<union>
      {path_join root f | root f. (root, f) \<in> set (walk_files (fst ?left)) \<and> stem_of f \<in> patched_stems (v_rmko v)}"
    if "i_files img' p \<noteq> i_files img p" for p
  proof (cases "snd ?left p = i_files img p")
    case True
    with that patch_module_frame [OF files, of p] show ?thesis by auto
  next
    case False
    with dm(2) show ?thesis by blast
  qed
  moreover have "module_files ?kept = filter (\<lambda>(_, f). \<not> is_removed (removed_mods v) f) (module_files (i_walk img))"
    by (simp add: module_files_def walk_files_remove case_prod_unfold conj_commute)
  ultimately show ?thesis unfolding walk dm(1) by blast
qed

definition demo_depmod :: "walk \<times> (str \<Rightarrow> bytes) \<Rightarrow> walk \<times> (str \<Rightarrow> bytes)" where
  "demo_depmod left = ((''/m'', [''modules.dep'']) # fst left, (snd left)(''/m/modules.dep'' := [1]))"

lemma good_demo_depmod: "good_depmod demo_depmod"
proof -
  have "\<not> is_module_file ''modules.dep''" "path_join ''/m'' ''modules.dep'' = ''/m/modules.dep''" by code_simp+
  then have "''/m/modules.dep'' \<in> index_paths (fst (demo_depmod (w, files)))" for w files
    unfolding index_paths_def demo_depmod_def by (force simp: walk_files_def)
  moreover have "{p. snd (demo_depmod (w, files)) p \<noteq> files p} \<subseteq> {''/m/modules.dep''}" for w files
    by (auto simp: demo_depmod_def)
  moreover have "module_files (fst (demo_depmod (w, files))) = module_files w" for w files
    using \<open>\<not> is_module_file ''modules.dep''\<close> by (simp add: demo_depmod_def module_files_def walk_files_def)
  ultimately show ?thesis unfolding good_depmod_def by blast
qed

definition demo_tools :: tools where
  "demo_tools = \<lparr>t_decode = demo_decoder, t_readelf = \<lambda>_. ''[1] .text PROGBITS 1000 0'',
     t_objdump = \<lambda>_. ''0000 <g> (File Offset: 0x1):'', t_unpack = \<lambda>_ bs. bs, t_pack = \<lambda>_ bs. bs,
     t_compress = \<lambda>_ bs. bs, t_dd = demo_dd, t_extract = \<lambda>_. [0x55, 0x55, 0x55, 0xc3, 0x90, 0x90, 0x90, 0x90],
     t_packers = demo_packers, t_split = \<lambda>_. ([], \<lambda>_. []), t_depmod = demo_depmod\<rparr>"

definition demo_verdict :: verdict where
  "demo_verdict = \<lparr>v_exists = [], v_remove = [''e1000''], v_unknown = [], v_patch = [(''m'', ''f'')], v_allmod = [],
     v_allbuiltin = [], v_initcalls = [], v_mod_dep = [], v_builtin_dep = [], v_mod_builtin_dep = [], v_noentry = [],
     v_rmfunc = [], v_rmko = [(''g'', ''/b/net/tun.ko'')], v_kernfunc = [], v_builtin_exists = [], v_builtin_remove = []\<rparr>"

definition demo_image :: image where
  "demo_image = \<lparr>i_bz = \<lparr>bzimage = None, patched = None\<rparr>, i_copy = None,
     i_walk = [(''/m/net'', [''e1000.ko'', ''tun.ko.xz''])], i_files = \<lambda>_. [0x90, 0x55, 0xc3, 0x90], i_initrd = []\<rparr>"

text \<open>The mounted image: a link to the kernel, no ramdisk.\<close>

definition demo_boot :: fsys where
  "demo_boot = \<lparr>fs_walk = \<lambda>_. [], fs_exists = \<lambda>p. p = ''/i/boot/vmlinuz-5.4.0-1'',
     fs_text = \<lambda>p. if p = ''/i/boot/System.map-5.4.0-1'' then Some (''1000 T _text'' @ [CHR 0x0A] @ ''1002 t f'') else None\<rparr>"

definition demo_link :: "str \<Rightarrow> str option" where
  "demo_link p = (if p = ''/i/boot/vmlinuz'' then Some ''/i/boot/vmlinuz-5.4.0-1'' else None)"

definition demo_patched :: "image res" where
  "demo_patched = patch_image demo_tools demo_boot demo_link (\<lambda>_. []) ''/i'' None demo_verdict demo_image"

theorem patch_image_modules_witness:
  "\<exists>img'. demo_patched = Inr img' \<and> i_files img' ''/m/net/tun.ko.xz'' = [0x90, 0xc3, 0x90, 0x90] \<and>
    module_files (i_walk img') = filter (\<lambda>(_, f). \<not> is_removed (removed_mods demo_verdict) f) (module_files (i_walk demo_image)) \<and>
    {p. i_files img' p \<noteq> i_files demo_image p} \<subseteq> index_paths (i_walk img') \<union>
      {path_join root f | root f. (root, f) \<in> set (walk_files (i_walk img')) \<and> stem_of f \<in> patched_stems (v_rmko demo_verdict)}"
proof -
  have "case demo_patched of Inl e \<Rightarrow> False | Inr img' \<Rightarrow> i_files img' ''/m/net/tun.ko.xz'' = [0x90, 0xc3, 0x90, 0x90]"
    by code_simp
  then obtain img' where img': "demo_patched = Inr img'" "i_files img' ''/m/net/tun.ko.xz'' = [0x90, 0xc3, 0x90, 0x90]"
    by (auto split: sum.splits)
  have "good_depmod (t_depmod demo_tools)" using good_demo_depmod by (simp add: demo_tools_def)
  from patch_image_modules [OF img'(1) [unfolded demo_patched_def] this] img' show ?thesis by blast
qed

subsection \<open>The kernel of a patched image\<close>

text \<open>
  C11: what the image boots after \<open>patch_image\<close>: the extracted kernel is changed only in the 48 bytes from
  the addresses of the symbols of the verdict. Compressed, it stands in the boot image where the old
  one began, with everything outside the old one as before, or, when that is not possible, the boot
  image is unchanged and the kernel lies beside it.
\<close>

theorem patch_image_kernel:
  assumes "patch_image t fs link globs img_mounted sysmap v img = Inr img'"
    and "good_decoder (t_decode t)" and "good_dd (t_dd t)" and "bzimage (i_bz img) = Some bz"
    and "get_target_info fs link globs img_mounted sysmap = Inr (mods, symtab)"
    and "get_text_rel (t_readelf t (t_extract t bz)) = Inr (base, va)" and "0 \<le> base"
    and "\<And>s a b. map_of (kernel_sym_map symtab) s = Some a \<Longrightarrow> map_of (kernel_sym_map symtab) ''_text'' = Some b \<Longrightarrow> b \<le> a"
  shows "\<exists>newkern.
    differ_in (\<Union>x \<in> set (patched_syms v). window [] False (kernel_sym_map symtab) base x) (t_extract t bz) newkern \<and>
    ((\<exists>alg sig idx piggy. (alg, sig) \<in> set comp_signature \<and> take (length sig) (drop idx bz) = sig \<and>
        idx + length (t_compress t alg newkern) \<le> piggy \<and> i_copy img' = i_copy img \<and>
        bzimage (i_bz img') = Some (take idx bz @ t_compress t alg newkern @
          replicate (piggy - idx - length (t_compress t alg newkern)) 0 @ drop piggy bz)) \<or>
     i_bz img' = i_bz img \<and> i_copy img' = Some newkern)"
proof -
  let ?vm = "t_extract t bz"
  from assms(1,4,5) obtain newkern where
    kern: "patch_kernel (t_decode t) (t_readelf t ?vm) ?vm symtab (patched_syms v) [] False = Inr newkern"
    and bz: "i_bz img' = fst (replace_kernel (t_unpack t) (t_compress t) (t_dd t) newkern (i_bz img) (i_copy img))"
    and copy: "i_copy img' = snd (replace_kernel (t_unpack t) (t_compress t) (t_dd t) newkern (i_bz img) (i_copy img))"
    by (auto simp: patch_image_def Let_def bindE_Inr_iff split: prod.splits)
  obtain ok bzf where rp: "repack_bzimage (t_unpack t) (t_compress t) (t_dd t) (Some newkern) True (i_bz img) = (ok, bzf)"
    by fastforce
  note res = repack_result [OF rp assms(3,4)]
  have "differ_in (\<Union>x \<in> set (patched_syms v). window [] False (kernel_sym_map symtab) base x) ?vm newkern"
    by (rule patch_kernel_differs [OF kern assms(2,6,7)]) (rule assms(8))
  moreover have "(\<exists>alg sig idx piggy. (alg, sig) \<in> set comp_signature \<and> take (length sig) (drop idx bz) = sig \<and>
        idx + length (t_compress t alg newkern) \<le> piggy \<and> i_copy img' = i_copy img \<and>
        bzimage (i_bz img') = Some (take idx bz @ t_compress t alg newkern @
          replicate (piggy - idx - length (t_compress t alg newkern)) 0 @ drop piggy bz)) \<or>
     i_bz img' = i_bz img \<and> i_copy img' = Some newkern"
  proof (cases ok)
    case True
    with rp bz copy have "i_bz img' = bzf" "i_copy img' = i_copy img" by (simp_all add: replace_kernel_def)
    with res True show ?thesis by auto
  next
    case False
    with rp bz copy res show ?thesis by (simp add: replace_kernel_def)
  qed
  ultimately show ?thesis by blast
qed

definition demo_boot_image :: image where
  "demo_boot_image = demo_image\<lparr>i_bz := \<lparr>bzimage = Some demo_bz, patched = None\<rparr>\<rparr>"

theorem patch_image_kernel_witness:
  "\<exists>img' newkern. patch_image demo_tools demo_boot demo_link (\<lambda>_. []) ''/i'' None demo_verdict demo_boot_image = Inr img' \<and>
    bzimage (i_bz img') = Some [0x55, 0x55, 0xc3, 0x90, 0x90, 0x90, 0x90, 0x90, 0, 0, 0, 0, 0, 0, 0, 0, 0x31, 0xc0, 0x48, 0x8d] \<and>
    differ_in (\<Union>x \<in> set (patched_syms demo_verdict). window [] False
       (kernel_sym_map [(0x1000, ''T'', ''_text''), (0x1002, ''t'', ''f'')]) 0 x)
      [0x55, 0x55, 0x55, 0xc3, 0x90, 0x90, 0x90, 0x90] newkern"
proof -
  have "case patch_image demo_tools demo_boot demo_link (\<lambda>_. []) ''/i'' None demo_verdict demo_boot_image of
      Inl e \<Rightarrow> False
    | Inr img' \<Rightarrow> bzimage (i_bz img') = Some [0x55, 0x55, 0xc3, 0x90, 0x90, 0x90, 0x90, 0x90,
        0, 0, 0, 0, 0, 0, 0, 0, 0x31, 0xc0, 0x48, 0x8d]" by code_simp
  then obtain img' where img': "patch_image demo_tools demo_boot demo_link (\<lambda>_. []) ''/i'' None demo_verdict demo_boot_image = Inr img'"
    "bzimage (i_bz img') = Some [0x55, 0x55, 0xc3, 0x90, 0x90, 0x90, 0x90, 0x90, 0, 0, 0, 0, 0, 0, 0, 0, 0x31, 0xc0, 0x48, 0x8d]"
    by (auto split: sum.splits)
  have info: "get_target_info demo_boot demo_link (\<lambda>_. []) ''/i'' None = Inr ([], [(0x1000, ''T'', ''_text''), (0x1002, ''t'', ''f'')])"
    "get_text_rel (t_readelf demo_tools (t_extract demo_tools demo_bz)) = Inr (0, 0x1000)" by code_simp+
  have "good_decoder (t_decode demo_tools)" "good_dd (t_dd demo_tools)"
    using demo_decoder_good demo_dd_good by (simp_all add: demo_tools_def)
  moreover have "bzimage (i_bz demo_boot_image) = Some demo_bz" by (simp add: demo_boot_image_def)
  ultimately have "\<exists>newkern. differ_in (\<Union>x \<in> set (patched_syms demo_verdict). window [] False
       (kernel_sym_map [(0x1000, ''T'', ''_text''), (0x1002, ''t'', ''f'')]) 0 x) (t_extract demo_tools demo_bz) newkern"
    by (rule patch_image_kernel [OF img'(1) _ _ _ info, THEN ex_forward])
       (auto simp: kernel_sym_map_def sym_row_def func_types_def has_key_def split: if_splits)
  with img' show ?thesis by (auto simp: demo_tools_def)
qed

end
