(* ===== verification/Mount.thy ===== *)
theory Mount
  imports PatchImage
begin

section \<open>Mounting a disk image: patch-disk-image.py\<close>

text \<open>
  With \<open>--guestmount\<close> the script mounts the image file, patches what is mounted and unmounts it.
  \<open>guestunmount\<close> returns before the process that serves the mount has written everything back, so
  \<open>unmount_image\<close> polls until that process is gone. What the script does to its surroundings is a list
  of events; what the surroundings answer is a record: the exit code of \<open>guestunmount\<close>, the content of
  the pid file, the answers of the calls of \<open>psutil.pid_exists\<close> in order, and whether \<open>os.rmdir\<close> works.
\<close>

datatype event =
    Guestunmount str
  | Guestmount str      \<comment> \<open>the shell command\<close>
  | Sleep
  | Unlink str
  | Rmdir str
  | Patch               \<comment> \<open>analysis and patching of what is mounted\<close>

record answers =
  unmounts :: bool
  pid_text :: "str option"
  pid_exists :: "int \<Rightarrow> nat \<Rightarrow> bool"
  rmdir_works :: bool

text \<open>The number of the first call that answers \<open>False\<close>, counted from \<open>k\<close>.\<close>

partial_function (option) wait_gone :: "(nat \<Rightarrow> bool) \<Rightarrow> nat \<Rightarrow> nat option" where
  "wait_gone alive k = (if alive k then wait_gone alive (Suc k) else Some k)"

definition pidfile :: "str \<Rightarrow> str" where
  "pidfile img_mounted = basename img_mounted @ ''.pid''"

definition unmount_image :: "answers \<Rightarrow> str \<Rightarrow> (event list \<times> bool res) option" where
  "unmount_image w img_mounted =
     (if \<not> unmounts w then Some ([Guestunmount img_mounted], Inr False)
      else case bindE (case pid_text w of None \<Rightarrow> Inl FileNotFoundError | Some t \<Rightarrow> Inr t) int10 of
        Inl e \<Rightarrow> Some ([Guestunmount img_mounted], Inl e)
      | Inr pid \<Rightarrow> (case wait_gone (pid_exists w pid) 0 of
          None \<Rightarrow> None
        | Some k \<Rightarrow> Some (Guestunmount img_mounted # replicate k Sleep @ [Unlink (pidfile img_mounted), Rmdir img_mounted],
            if rmdir_works w then Inr True else Inl OSError)))"

definition mount_cmd :: "str \<Rightarrow> str \<Rightarrow> str" where
  "mount_cmd diskimg mntpoint =
     (if basename diskimg = ''suse.raw''
      then ''guestmount -a '' @ diskimg @ '' --rw -m /dev/sda2 --pid-file '' @ pidfile mntpoint @ '' '' @ mntpoint
      else ''guestmount -a '' @ diskimg @ '' --rw -i --pid-file '' @ pidfile mntpoint @ '' '' @ mntpoint)"

text \<open>\<open>mntpoint\<close> is the directory \<open>tempfile.mkdtemp()\<close> made.\<close>

definition mount_image :: "answers \<Rightarrow> str \<Rightarrow> str \<Rightarrow> (event list \<times> str res) option" where
  "mount_image w diskimg mntpoint = (case unmount_image w mntpoint of
       None \<Rightarrow> None
     | Some (ev, Inl e) \<Rightarrow> Some (ev, Inl e)
     | Some (ev, Inr ok) \<Rightarrow> Some (ev @ [Guestmount (mount_cmd diskimg mntpoint)], Inr mntpoint))"

text \<open>
  The script behind its checks: \<open>work\<close> is the analysis and the patching of the image at a path. An
  exception leaves the script at once; the result of \<open>unmount_image\<close> is not used.
\<close>

definition run_mounted ::
    "answers \<Rightarrow> answers \<Rightarrow> bool \<Rightarrow> str \<Rightarrow> str \<Rightarrow> (str \<Rightarrow> 'i res) \<Rightarrow> (event list \<times> (nat \<times> 'i) res) option" where
  "run_mounted w w' guestmount diskimg mntpoint work =
     (if \<not> guestmount then Some ([Patch], bindE (work diskimg) (\<lambda>img. Inr (0, img)))
      else case mount_image w diskimg mntpoint of
        None \<Rightarrow> None
      | Some (ev, Inl e) \<Rightarrow> Some (ev, Inl e)
      | Some (ev, Inr img_mounted) \<Rightarrow> (case work img_mounted of
          Inl e \<Rightarrow> Some (ev @ [Patch], Inl e)
        | Inr img \<Rightarrow> (case unmount_image w' img_mounted of
            None \<Rightarrow> None
          | Some (ev', Inl e) \<Rightarrow> Some (ev @ [Patch] @ ev', Inl e)
          | Some (ev', Inr ok) \<Rightarrow> Some (ev @ [Patch] @ ev', Inr (0, img)))))"

definition patch_guest ::
    "answers \<Rightarrow> answers \<Rightarrow> str \<Rightarrow>
     tools \<Rightarrow> fsys \<Rightarrow> (str \<Rightarrow> str option) \<Rightarrow> (str \<Rightarrow> str list) \<Rightarrow> (str \<Rightarrow> str) \<Rightarrow> (str \<Rightarrow> str list) \<Rightarrow>
     pd_args \<Rightarrow> image \<Rightarrow> (event list \<times> (nat \<times> image) res) option" where
  "patch_guest w w' mntpoint t fs link globs nm elf a img =
     (case disk_inputs fs a of
        Inl e \<Rightarrow> Some ([], Inl e)
      | Inr None \<Rightarrow> Some ([], Inr (1, img))
      | Inr (Some dbs) \<Rightarrow> run_mounted w w' (p_guestmount a) (p_disk_image a) mntpoint
          (\<lambda>at. patch_mounted t fs link globs nm elf a at dbs img))"

subsection \<open>Lemmas\<close>

lemma wait_gone_at: "(\<forall>i. j \<le> i \<and> i < j + n \<longrightarrow> alive i) \<Longrightarrow> \<not> alive (j + n) \<Longrightarrow> wait_gone alive j = Some (j + n)"
proof (induction n arbitrary: j)
  case (Suc n)
  then have "wait_gone alive (Suc j) = Some (Suc j + n)" by (intro Suc.IH) auto
  then show ?case using Suc.prems(1) by (subst wait_gone.simps) simp
qed (subst wait_gone.simps, simp)

lemma wait_gone_sound:
  assumes "wait_gone alive j = Some k"
  shows "\<not> alive k \<and> (\<forall>i. j \<le> i \<and> i < k \<longrightarrow> alive i)"
  using assms
  by (rule wait_gone.raw_induct [where P = "\<lambda>alive j k. \<not> alive k \<and> (\<forall>i. j \<le> i \<and> i < k \<longrightarrow> alive i)", rotated])
    (auto split: if_split_asm, metis Suc_leI le_neq_implies_less)

lemma wait_gone_iff: "wait_gone alive 0 = Some k \<longleftrightarrow> \<not> alive k \<and> (\<forall>i < k. alive i)"
  using wait_gone_at [of 0 k alive] wait_gone_sound [of alive 0 k] by auto

lemma wait_gone_None: "wait_gone alive 0 = None \<longleftrightarrow> (\<forall>k. alive k)"
proof
  assume n: "wait_gone alive 0 = None"
  show "\<forall>k. alive k"
  proof (rule ccontr)
    assume "\<not> (\<forall>k. alive k)"
    then obtain k where "\<not> alive k" by blast
    then have "\<not> alive (LEAST k. \<not> alive k)" "\<forall>i < (LEAST k. \<not> alive k). alive i"
      using LeastI [of "\<lambda>k. \<not> alive k"] not_less_Least [of _ "\<lambda>k. \<not> alive k"] by blast+
    with n wait_gone_iff show False by (metis option.distinct(1))
  qed
next
  assume "\<forall>k. alive k"
  then show "wait_gone alive 0 = None" using wait_gone_iff by (metis not_Some_eq)
qed

subsection \<open>Unmounting\<close>

text \<open>
  C39: once \<open>guestunmount\<close> has succeeded and named its process, \<open>unmount_image\<close> returns exactly when that
  process ends at some time, it polls until the first time it is gone, and only then removes the pid
  file and the directory.
\<close>

theorem unmount_waits:
  assumes "unmounts w" and "pid_text w = Some t" and "int10 t = Inr pid"
  shows "(unmount_image w m = None \<longleftrightarrow> (\<forall>k. pid_exists w pid k)) \<and>
    (\<forall>ev r. unmount_image w m = Some (ev, r) \<longleftrightarrow> r = (if rmdir_works w then Inr True else Inl OSError) \<and>
      (\<exists>k. \<not> pid_exists w pid k \<and> (\<forall>i < k. pid_exists w pid i) \<and>
        ev = Guestunmount m # replicate k Sleep @ [Unlink (pidfile m), Rmdir m]))"
proof -
  have un: "unmount_image w m = (case wait_gone (pid_exists w pid) 0 of None \<Rightarrow> None
      | Some k \<Rightarrow> Some (Guestunmount m # replicate k Sleep @ [Unlink (pidfile m), Rmdir m],
          if rmdir_works w then Inr True else Inl OSError))"
    using assms by (simp add: unmount_image_def)
  show ?thesis
  proof (cases "wait_gone (pid_exists w pid) 0")
    case None
    then have "\<forall>k. pid_exists w pid k" by (simp add: wait_gone_None)
    with None un show ?thesis by simp
  next
    case (Some k)
    then have k: "\<not> pid_exists w pid k" "\<forall>i < k. pid_exists w pid i" by (simp_all add: wait_gone_iff)
    have uniq: "k' = k" if "\<not> pid_exists w pid k'" "\<forall>i < k'. pid_exists w pid i" for k'
      using that k by (metis nat_neq_iff)
    have first: "(\<exists>k'. \<not> pid_exists w pid k' \<and> (\<forall>i < k'. pid_exists w pid i) \<and> ev = h k') \<longleftrightarrow> ev = h k"
      for ev :: "event list" and h
      using k uniq by blast
    have "\<not> (\<forall>k. pid_exists w pid k)" using k(1) by blast
    then show ?thesis unfolding un Some first option.case by blast
  qed
qed

text \<open>
  When the analysis or the patching raises, nothing unmounts the image: the mount is the last thing the
  script did to its surroundings before the patching.
\<close>

lemma left_mounted:
  assumes "mount_image w diskimg mntpoint = Some (ev, Inr m)" and "work m = Inl e"
  shows "run_mounted w w' True diskimg mntpoint work = Some (ev @ [Patch], Inl e) \<and>
    (\<exists>u. ev = u @ [Guestmount (mount_cmd diskimg mntpoint)])"
  using assms by (auto simp: run_mounted_def mount_image_def split: option.splits sum.splits)

text \<open>A failed \<open>guestunmount\<close> does not change the exit code.\<close>

lemma failed_unmount_ignored:
  assumes "mount_image w diskimg mntpoint = Some (ev, Inr m)" and "work m = Inr img" and "\<not> unmounts w'"
  shows "run_mounted w w' True diskimg mntpoint work = Some (ev @ [Patch, Guestunmount m], Inr (0, img))"
  using assms by (simp add: run_mounted_def unmount_image_def)

definition demo_answers :: answers where
  "demo_answers = \<lparr>unmounts = True, pid_text = Some (''4711'' @ [CHR 0x0A]), pid_exists = \<lambda>pid k. pid = 4711 \<and> k < 2,
     rmdir_works = True\<rparr>"

theorem unmount_waits_witness:
  "unmount_image demo_answers ''/tmp/mnt'' =
    Some ([Guestunmount ''/tmp/mnt'', Sleep, Sleep, Unlink ''mnt.pid'', Rmdir ''/tmp/mnt''], Inr True)"
proof -
  have "unmounts demo_answers" "pid_text demo_answers = Some (''4711'' @ [CHR 0x0A])" by (simp_all add: demo_answers_def)
  moreover have "int10 (''4711'' @ [CHR 0x0A]) = Inr 4711" by code_simp
  ultimately have "unmount_image demo_answers ''/tmp/mnt'' = Some (ev, r) \<longleftrightarrow>
      r = (if rmdir_works demo_answers then Inr True else Inl OSError) \<and>
      (\<exists>k. \<not> pid_exists demo_answers 4711 k \<and> (\<forall>i < k. pid_exists demo_answers 4711 i) \<and>
        ev = Guestunmount ''/tmp/mnt'' # replicate k Sleep @ [Unlink (pidfile ''/tmp/mnt''), Rmdir ''/tmp/mnt''])" for ev r
    using unmount_waits by blast
  moreover have "pidfile ''/tmp/mnt'' = ''mnt.pid''" by code_simp
  ultimately show ?thesis
    by (simp add: demo_answers_def) (intro exI [of _ "2 :: nat"], simp add: numeral_2_eq_2)
qed

end
