(* ===== verification/MpPool.thy ===== *)
theory MpPool
  imports PyPrelude "HOL-Library.Multiset"
begin

section \<open>Maps over worker processes: multiprocessing.Pool.map\<close>

text \<open>
  \<open>get-build-deps.py\<close> gives its work to \<open>multiprocessing.Pool.map\<close>. This theory models that part of
  the standard library, not code of the repository; \<open>build_runs\<close> of \<open>BuildDeps\<close> calls it where the
  script does. The list is cut into chunks, which
  lie in a queue; a free process takes the next chunk, computes it and puts the result into a second
  queue; the parent takes results from it, in the order they arrive, and stores them at the place of
  their chunk. Of failed chunks it keeps the first exception to arrive; it waits for all chunks in
  every case. The steps of the processes may be interleaved in any way.
\<close>

text \<open>The size of a chunk for \<open>len\<close> elements and \<open>n\<close> processes: \<open>divmod(len, 4 * n)\<close>, rounded up.\<close>

definition chunk_size :: "nat \<Rightarrow> nat \<Rightarrow> nat" where
  "chunk_size len n = len div (4 * n) + (if len mod (4 * n) = 0 then 0 else 1)"

fun chunks :: "nat \<Rightarrow> 'a list \<Rightarrow> 'a list list" where
  "chunks k xs = (if k = 0 \<or> xs = [] then [] else take k xs # chunks k (drop k xs))"

declare chunks.simps [simp del]

type_synonym 'a task = "nat \<times> 'a list"

record ('a, 'b) mp_state =
  tasks :: "'a task list"
  procs :: "'a task option list"
  outbox :: "(nat \<times> 'b list res) list"
  num_left :: nat
  vals :: "'b list option list"
  failed :: "py_exc option"

definition mp_init :: "'a list \<Rightarrow> nat \<Rightarrow> ('a, 'b) mp_state" where
  "mp_init xs n = (let cs = chunks (chunk_size (length xs) n) xs in
     \<lparr>tasks = enumerate 0 cs, procs = replicate n None, outbox = [], num_left = length cs,
      vals = replicate (length cs) None, failed = None\<rparr>)"

text \<open>A result arrives at the parent.\<close>

definition set_result :: "nat \<Rightarrow> 'b list res \<Rightarrow> ('a, 'b) mp_state \<Rightarrow> ('a, 'b) mp_state" where
  "set_result k r s = (let s = s\<lparr>num_left := num_left s - 1\<rparr> in
     if failed s \<noteq> None then s
     else case r of
       Inl e \<Rightarrow> s\<lparr>failed := Some e\<rparr>
     | Inr ys \<Rightarrow> s\<lparr>vals := (vals s)[k := Some ys]\<rparr>)"

inductive mp_step :: "('a \<Rightarrow> 'b res) \<Rightarrow> ('a, 'b) mp_state \<Rightarrow> ('a, 'b) mp_state \<Rightarrow> bool" for f where
  get: "tasks s = t # ts \<Longrightarrow> i < length (procs s) \<Longrightarrow> procs s ! i = None \<Longrightarrow>
    mp_step f s (s\<lparr>tasks := ts, procs := (procs s)[i := Some t]\<rparr>)"
| put: "i < length (procs s) \<Longrightarrow> procs s ! i = Some (k, ch) \<Longrightarrow>
    mp_step f s (s\<lparr>procs := (procs s)[i := None], outbox := outbox s @ [(k, mapE f ch)]\<rparr>)"
| arrive: "outbox s = (k, r) # out \<Longrightarrow> mp_step f s (set_result k r (s\<lparr>outbox := out\<rparr>))"

text \<open>What \<open>map\<close> returns or raises once nothing is left to wait for.\<close>

definition mp_get :: "('a, 'b) mp_state \<Rightarrow> 'b list res" where
  "mp_get s = (case failed s of Some e \<Rightarrow> Inl e | None \<Rightarrow> Inr (concat (map the (vals s))))"

definition pool_result :: "('a \<Rightarrow> 'b res) \<Rightarrow> 'a list \<Rightarrow> nat \<Rightarrow> 'b list res \<Rightarrow> bool" where
  "pool_result f xs n r \<longleftrightarrow> (\<exists>s. (mp_step f)\<^sup>*\<^sup>* (mp_init xs n) s \<and> num_left s = 0 \<and> r = mp_get s)"

subsection \<open>Chunks\<close>

lemma concat_chunks: "0 < k \<Longrightarrow> concat (chunks k xs) = xs"
  by (induction k xs rule: chunks.induct) (subst chunks.simps, simp)

lemma length_chunks: "length (chunks k xs) \<le> length xs"
proof (induction k xs rule: chunks.induct)
  case (1 k xs)
  then show ?case
  proof (cases "k = 0 \<or> xs = []")
    case False
    have "length (chunks k xs) = Suc (length (chunks k (drop k xs)))" using False by (subst chunks.simps) simp
    moreover have "length (chunks k (drop k xs)) \<le> length xs - k" using 1 [OF False] by simp
    moreover have "0 < k" "0 < length xs" using False by simp_all
    ultimately show ?thesis by linarith
  qed (subst chunks.simps, simp)
qed

lemma chunk_size_pos: "xs \<noteq> [] \<Longrightarrow> 1 \<le> n \<Longrightarrow> 0 < chunk_size (length xs) n"
  using div_mult_mod_eq [of "length xs" "4 * n"] by (cases "length xs mod (4 * n) = 0") (auto simp: chunk_size_def intro!: Nat.gr0I)

lemma concat_pool_chunks: "1 \<le> n \<Longrightarrow> concat (chunks (chunk_size (length xs) n) xs) = xs"
  by (cases "xs = []") (simp add: chunks.simps, simp add: concat_chunks chunk_size_pos)

subsection \<open>The invariant\<close>

text \<open>The chunks on their way, by their place; each is on its way once.\<close>

definition at_work :: "'a task option list \<Rightarrow> 'a task multiset" where
  "at_work ps = mset (List.map_filter id ps)"

lemma at_work_update:
  assumes "i < length ps"
  shows "ps ! i = None \<Longrightarrow> at_work (ps[i := Some t]) = add_mset t (at_work ps)"
    and "ps ! i = Some t \<Longrightarrow> at_work ps = add_mset t (at_work (ps[i := None]))"
  using assms
  by (induction ps arbitrary: i) (auto simp: at_work_def map_filter_simps nth_Cons split: nat.splits option.splits)

lemma at_work_idle [simp]: "at_work (replicate n None) = {#}"
  by (induction n) (simp_all add: at_work_def map_filter_simps)

lemma at_work_empty: "at_work ps = {#} \<longleftrightarrow> (\<forall>i < length ps. ps ! i = None)"
proof -
  have "at_work ps = {#} \<longleftrightarrow> (\<forall>p \<in> set ps. p = None)"
    by (induction ps) (auto simp: at_work_def map_filter_simps split: option.splits)
  then show ?thesis by (simp only: all_set_conv_all_nth)
qed

definition on_way :: "('a, 'b) mp_state \<Rightarrow> nat multiset" where
  "on_way s = image_mset fst (mset (tasks s)) + image_mset fst (at_work (procs s)) + image_mset fst (mset (outbox s))"

definition chunk_done :: "('a \<Rightarrow> 'b res) \<Rightarrow> 'a list list \<Rightarrow> ('a, 'b) mp_state \<Rightarrow> nat \<Rightarrow> bool" where
  "chunk_done f cs s k \<longleftrightarrow> (\<exists>ys. mapE f (cs ! k) = Inr ys \<and> vals s ! k = Some ys)"

definition mp_inv :: "('a \<Rightarrow> 'b res) \<Rightarrow> 'a list list \<Rightarrow> ('a, 'b) mp_state \<Rightarrow> bool" where
  "mp_inv f cs s \<longleftrightarrow>
     on_way s \<subseteq># mset_set {..<length cs} \<and> num_left s = size (on_way s) \<and> length (vals s) = length cs \<and>
     (\<forall>(k, ch) \<in># mset (tasks s) + at_work (procs s). ch = cs ! k) \<and>
     (\<forall>(k, r) \<in> set (outbox s). r = mapE f (cs ! k)) \<and>
     (failed s = None \<longrightarrow> (\<forall>k < length cs. k \<notin># on_way s \<longrightarrow> chunk_done f cs s k)) \<and>
     (\<forall>e. failed s = Some e \<longrightarrow> (\<exists>k < length cs. mapE f (cs ! k) = Inl e))"

text \<open>A chunk that moves on keeps the facts about its place.\<close>

lemma mp_inv_init: "mp_inv f (chunks (chunk_size (length xs) n) xs) (mp_init xs n)"
proof -
  let ?cs = "chunks (chunk_size (length xs) n) xs"
  have "image_mset fst (mset (enumerate 0 ?cs)) = mset_set {..<length ?cs}"
    by (simp add: mset_map [symmetric] mset_upt lessThan_atLeast0 del: mset_map)
  then have way: "on_way (mp_init xs n) = mset_set {..<length ?cs}"
    by (simp add: on_way_def mp_init_def Let_def)
  have "ch = ?cs ! k" if "(k, ch) \<in> set (enumerate 0 ?cs)" for k ch
    using that by (auto simp: in_set_enumerate_eq)
  then show ?thesis unfolding mp_inv_def way by (auto simp: mp_init_def Let_def)
qed

lemma mp_step_inv:
  assumes "mp_step f s t" and "mp_inv f cs s"
  shows "mp_inv f cs t"
  using assms
proof cases
  case (get t' ts i)
  then have "at_work ((procs s)[i := Some t']) = add_mset t' (at_work (procs s))" by (intro at_work_update(1))
  then have "on_way t = on_way s" using get by (simp add: on_way_def)
  with assms(2) get \<open>at_work _ = _\<close> show ?thesis by (auto simp: mp_inv_def chunk_done_def)
next
  case (put i k ch)
  then have work: "at_work (procs s) = add_mset (k, ch) (at_work ((procs s)[i := None]))" by (intro at_work_update(2))
  then have "on_way t = on_way s" using put by (simp add: on_way_def)
  moreover have "ch = cs ! k" using assms(2) work by (auto simp: mp_inv_def)
  ultimately show ?thesis using assms(2) put work by (auto simp: mp_inv_def chunk_done_def)
next
  case (arrive k r out)
  let ?u = "s\<lparr>outbox := out, num_left := num_left s - 1\<rparr>"
  have r: "r = mapE f (cs ! k)" using assms(2) arrive by (auto simp: mp_inv_def)
  have way: "on_way s = add_mset k (on_way ?u)" using arrive by (simp add: on_way_def)
  from assms(2) have sub: "on_way s \<subseteq># mset_set {..<length cs}" by (simp add: mp_inv_def)
  then have k: "k < length cs" using way by (auto dest: mset_subset_eqD)
  have t: "t = (if failed s \<noteq> None then ?u else case r of Inl e \<Rightarrow> ?u\<lparr>failed := Some e\<rparr>
      | Inr ys \<Rightarrow> ?u\<lparr>vals := (vals s)[k := Some ys]\<rparr>)"
    using arrive(1) by (cases r) (simp_all add: set_result_def Let_def)
  then have tway: "on_way t = on_way ?u" by (auto simp: on_way_def split: sum.splits)
  have "on_way ?u \<subseteq># on_way s" unfolding way by simp
  then have "on_way t \<subseteq># mset_set {..<length cs}" using sub unfolding tway by (rule subset_mset.order_trans)
  moreover have "num_left t = size (on_way t)"
    using way assms(2) unfolding tway by (auto simp: mp_inv_def t split: sum.splits)
  moreover have "\<forall>(k, ch) \<in># mset (tasks t) + at_work (procs t). ch = cs ! k"
    "\<forall>(k, r) \<in> set (outbox t). r = mapE f (cs ! k)" "length (vals t) = length cs"
    using assms(2) arrive(2) by (auto simp: mp_inv_def t split: sum.splits)
  moreover have "chunk_done f cs t j" if "failed t = None" "j < length cs" "j \<notin># on_way t" for j
  proof (cases "j = k")
    case True
    with that(1) r k assms(2) show ?thesis by (auto simp: t chunk_done_def mp_inv_def split: if_splits sum.splits)
  next
    case False
    with that(3) have "j \<notin># on_way s" unfolding tway way by simp
    with that assms(2) False show ?thesis by (auto simp: t chunk_done_def mp_inv_def split: if_splits sum.splits)
  qed
  moreover have "\<exists>k < length cs. mapE f (cs ! k) = Inl e" if "failed t = Some e" for e
    using that assms(2) r k by (auto simp: t mp_inv_def split: if_splits sum.splits)
  ultimately show ?thesis by (auto simp: mp_inv_def)
qed

lemma mp_reach_inv: "(mp_step f)\<^sup>*\<^sup>* s t \<Longrightarrow> mp_inv f cs s \<Longrightarrow> mp_inv f cs t"
  by (induction rule: rtranclp_induct) (auto intro: mp_step_inv)

subsection \<open>Every run ends, with the result of map\<close>

inductive_cases mp_stepE: "mp_step f s t"

definition mp_work :: "('a, 'b) mp_state \<Rightarrow> nat" where
  "mp_work s = 3 * length (tasks s) + 2 * size (at_work (procs s)) + length (outbox s)"

lemma mp_step_work: "mp_step f s t \<Longrightarrow> mp_work s = Suc (mp_work t) \<and> length (procs t) = length (procs s)"
proof (erule mp_stepE)
  fix t' ts i assume "t = s\<lparr>tasks := ts, procs := (procs s)[i := Some t']\<rparr>" "tasks s = t' # ts"
    "i < length (procs s)" "procs s ! i = None"
  with at_work_update(1) [of i "procs s" t'] show ?thesis by (simp add: mp_work_def)
next
  fix i k ch assume "t = s\<lparr>procs := (procs s)[i := None], outbox := outbox s @ [(k, mapE f ch)]\<rparr>"
    "i < length (procs s)" "procs s ! i = Some (k, ch)"
  with at_work_update(2) [of i "procs s" "(k, ch)"] show ?thesis by (simp add: mp_work_def)
next
  fix k r out assume "t = set_result k r (s\<lparr>outbox := out\<rparr>)" "outbox s = (k, r) # out"
  then show ?thesis by (cases r) (simp_all add: mp_work_def set_result_def Let_def)
qed

lemma mp_steps_work: "(mp_step f ^^ m) s t \<Longrightarrow> mp_work s = m + mp_work t \<and> length (procs t) = length (procs s)"
  by (induction m arbitrary: t) (auto dest!: mp_step_work)

lemma mp_work_init: "mp_work (mp_init xs n) \<le> 3 * length xs"
  using length_chunks [of "chunk_size (length xs) n" xs] by (simp add: mp_work_def mp_init_def Let_def)

lemma mp_progress:
  assumes "mp_inv f cs s" and "0 < num_left s" and "0 < length (procs s)"
  shows "\<exists>t. mp_step f s t"
proof (cases "outbox s")
  case (Cons kr out)
  then show ?thesis by (cases kr) (auto intro: mp_step.arrive)
next
  case Nil
  show ?thesis
  proof (cases "at_work (procs s) = {#}")
    case True
    with Nil assms(1,2) have "tasks s \<noteq> []" by (auto simp: mp_inv_def on_way_def)
    then obtain t ts where "tasks s = t # ts" by (cases "tasks s") auto
    then show ?thesis using True assms(3) mp_step.get [of s t ts 0 f] by (auto simp: at_work_empty)
  next
    case False
    then obtain i k ch where "i < length (procs s)" "procs s ! i = Some (k, ch)" by (auto simp: at_work_empty)
    then show ?thesis by (intro exI) (rule mp_step.put)
  qed
qed

lemma mp_get_correct:
  assumes "mp_inv f cs s" and "num_left s = 0"
  shows "case mapE f (concat cs) of
      Inr ys \<Rightarrow> mp_get s = Inr ys
    | Inl e \<Rightarrow> (\<exists>x \<in> set (concat cs). \<exists>e. f x = Inl e \<and> mp_get s = Inl e)"
proof (cases "failed s")
  case None
  with assms have all: "\<forall>k < length cs. chunk_done f cs s k" and len: "length (vals s) = length cs"
    by (auto simp: mp_inv_def)
  then have "mapE f (cs ! k) = Inr (map the (vals s) ! k)" if "k < length cs" for k
    using that by (auto simp: chunk_done_def)
  then have "map (mapE f) cs = map Inr (map the (vals s))" using len by (intro nth_equalityI) simp_all
  moreover have "mapE g xs = Inr ys" if "map g xs = map Inr ys" for g :: "'a list \<Rightarrow> 'b list res" and xs ys
    using that by (induction xs arbitrary: ys) (auto simp: map_eq_Cons_conv Cons_eq_map_conv)
  ultimately have "mapE (mapE f) cs = Inr (map the (vals s))" by blast
  then show ?thesis using None by (simp add: mapE_concat mp_get_def)
next
  case (Some e)
  with assms(1) obtain k where k: "k < length cs" "mapE f (cs ! k) = Inl e" by (auto simp: mp_inv_def)
  then obtain x where x: "x \<in> set (concat cs)" "f x = Inl e" by (auto dest!: mapE_Inl intro: nth_mem)
  have "mapE f xs \<noteq> Inr ys" if "x \<in> set xs" for xs ys
    using that x(2) by (auto dest!: mapE_Inr_map simp: map_eq_conv) (metis Inl_Inr_False image_eqI image_iff list.set_map)
  with x(1) have "mapE f (concat cs) = Inr ys \<Longrightarrow> False" for ys by blast
  then show ?thesis using Some x by (cases "mapE f (concat cs)") (auto simp: mp_get_def)
qed

lemma pool_result_map:
  assumes "1 \<le> n" and "pool_result f xs n r"
  shows "case mapE f xs of Inr ys \<Rightarrow> r = Inr ys | Inl e \<Rightarrow> (\<exists>x \<in> set xs. \<exists>e. f x = Inl e \<and> r = Inl e)"
proof -
  from assms(2) obtain s where s: "(mp_step f)\<^sup>*\<^sup>* (mp_init xs n) s" "num_left s = 0" "r = mp_get s"
    by (auto simp: pool_result_def)
  from mp_get_correct [OF mp_reach_inv [OF s(1) mp_inv_init] s(2)] show ?thesis
    unfolding concat_pool_chunks [OF assms(1)] s(3) .
qed

lemma run_to_end:
  assumes "(mp_step f)\<^sup>*\<^sup>* (mp_init xs n) s" and "1 \<le> n"
  shows "\<exists>t. (mp_step f)\<^sup>*\<^sup>* s t \<and> num_left t = 0"
  using assms(1)
proof (induction "mp_work s" arbitrary: s rule: less_induct)
  case less
  show ?case
  proof (cases "num_left s = 0")
    case False
    have "mp_inv f (chunks (chunk_size (length xs) n) xs) s" using mp_reach_inv [OF less.prems mp_inv_init] .
    moreover from less.prems have "length (procs s) = n"
      by (induction rule: rtranclp_induct) (auto simp: mp_init_def Let_def dest: mp_step_work)
    ultimately obtain t where t: "mp_step f s t" using mp_progress [of f _ s] False assms(2) by auto
    then have "mp_work t < mp_work s" by (auto dest: mp_step_work)
    from less.hyps [OF this rtranclp.rtrancl_into_rtrancl [OF less.prems t]] t
    show ?thesis by (meson converse_rtranclp_into_rtranclp)
  qed auto
qed

lemma pool_result_exists: "1 \<le> n \<Longrightarrow> \<exists>r. pool_result f xs n r"
  using run_to_end [of f xs n "mp_init xs n"] by (auto simp: pool_result_def)

subsection \<open>Programs with maps over workers\<close>

text \<open>A run that goes on with a value, or ends with an exception.\<close>

definition then_run :: "('a res \<Rightarrow> bool) \<Rightarrow> ('a \<Rightarrow> 'b res \<Rightarrow> bool) \<Rightarrow> 'b res \<Rightarrow> bool" where
  "then_run m k out \<longleftrightarrow> (\<exists>r. m r \<and> (case r of Inl e \<Rightarrow> out = Inl e | Inr x \<Rightarrow> k x out))"

text \<open>
  What a program with workers has in common with the same program without: it can end, it ends with
  the same value, and with an exception exactly when the other one does. Which of several exceptions
  is raised depends on the order of the workers.
\<close>

definition runs_as :: "('a res \<Rightarrow> bool) \<Rightarrow> 'a res \<Rightarrow> bool" where
  "runs_as run x \<longleftrightarrow> (\<exists>r. run r) \<and>
     (\<forall>r. run r \<longrightarrow> (case x of Inr y \<Rightarrow> r = Inr y | Inl e \<Rightarrow> (\<exists>e'. r = Inl e')))"

lemma runs_as_value: "runs_as ((=) (Inr v)) (Inr v)"
  by (auto simp: runs_as_def)

lemma pool_runs_as:
  assumes "1 \<le> n"
  shows "runs_as (pool_result f xs n) (mapE f xs)"
  unfolding runs_as_def using pool_result_exists [OF assms] pool_result_map [OF assms, of f xs]
  by (auto split: sum.splits) blast+

lemma runs_as_then:
  assumes "runs_as m x" and "\<And>y. runs_as (k y) (g y)"
  shows "runs_as (then_run m k) (bindE x g)"
proof (cases x)
  case (Inl e)
  with assms(1) have raises: "\<exists>e'. r = Inl e'" if "m r" for r using that by (simp add: runs_as_def)
  from assms(1) obtain r where r: "m r" by (auto simp: runs_as_def)
  from raises [OF r] obtain e' where "r = Inl e'" ..
  with r have "then_run m k (Inl e')" unfolding then_run_def by (intro exI [of _ r]) simp
  moreover have "\<exists>e'. out = Inl e'" if "then_run m k out" for out
  proof -
    from that obtain r' where r': "m r'" "case r' of Inl e \<Rightarrow> out = Inl e | Inr x \<Rightarrow> k x out" by (auto simp: then_run_def)
    from raises [OF r'(1)] r'(2) show ?thesis by auto
  qed
  ultimately show ?thesis using Inl by (auto simp: runs_as_def)
next
  case (Inr y)
  with assms(1) have "m r \<longleftrightarrow> r = Inr y" for r by (auto simp: runs_as_def)
  then have "then_run m k = k y" by (simp add: then_run_def fun_eq_iff)
  with Inr assms(2) show ?thesis by simp
qed

subsection \<open>Every run, step by step\<close>

lemma relpowp_reach: "(mp_step f ^^ m) s t \<Longrightarrow> (mp_step f)\<^sup>*\<^sup>* s t"
  by (meson rtranclp_power)

text \<open>
  A map over at least one worker process comes to its end, whatever the order of the steps: no run
  has more than three steps for each element, a run can go on as long as a chunk is left, and when
  none is left the result is that of the map in one process, or, when some element raises, an
  exception that one of the elements raised.
\<close>

lemma pool_map_ends:
  fixes s :: "('a, 'b) mp_state"
  assumes "1 \<le> n" and "(mp_step f ^^ m) (mp_init xs n) s"
  shows "m \<le> 3 * length xs \<and>
    (if num_left s > 0 then \<exists>t. mp_step f s t
     else case mapE f xs of
         Inr ys \<Rightarrow> mp_get s = Inr ys
       | Inl e \<Rightarrow> (\<exists>x \<in> set xs. \<exists>e'. f x = Inl e' \<and> mp_get s = Inl e'))"
proof (intro conjI)
  have "m \<le> mp_work (mp_init xs n :: ('a, 'b) mp_state)" using mp_steps_work [OF assms(2)] by simp
  also have "\<dots> \<le> 3 * length xs" by (rule mp_work_init)
  finally show "m \<le> 3 * length xs" .
  have inv: "mp_inv f (chunks (chunk_size (length xs) n) xs) s"
    using mp_reach_inv [OF relpowp_reach [OF assms(2)] mp_inv_init] .
  have "length (procs s) = n" using mp_steps_work [OF assms(2)] by (simp add: mp_init_def Let_def)
  then have "\<exists>t. mp_step f s t" if "num_left s > 0" using mp_progress [OF inv that] assms(1) by simp
  moreover have "case mapE f xs of Inr ys \<Rightarrow> mp_get s = Inr ys
       | Inl e \<Rightarrow> (\<exists>x \<in> set xs. \<exists>e'. f x = Inl e' \<and> mp_get s = Inl e')" if "num_left s = 0"
    using mp_get_correct [OF inv that] unfolding concat_pool_chunks [OF assms(1)] .
  ultimately show "if num_left s > 0 then \<exists>t. mp_step f s t
     else case mapE f xs of Inr ys \<Rightarrow> mp_get s = Inr ys
       | Inl e \<Rightarrow> (\<exists>x \<in> set xs. \<exists>e'. f x = Inl e' \<and> mp_get s = Inl e')" by simp
qed

end
