(* ===== verification/BuildDeps.thy ===== *)
theory BuildDeps
  imports PyDict PyPath MpPool "HOL-Library.Char_ord" "HOL-Library.List_Lexorder"
begin

section \<open>Build dependencies between objects: get-build-deps.py\<close>

text \<open>
  \<open>comp_unit/get-build-deps.py\<close> reads the configuration expression of each object, keeps the objects
  whose expression holds in the kernel's configuration, and prints the pairs of objects of which the
  second is built whenever the first is, as far as the solver can tell. The solver (z3) is a
  parameter: \<open>sat e asg\<close> says whether the expression \<open>e\<close> is satisfiable with the variables of
  \<open>asg\<close> fixed as given, or raises, as \<open>eval\<close> does on a text that is no expression.
\<close>

type_synonym solver = "str \<Rightarrow> (str \<times> bool) list \<Rightarrow> bool res"

subsection \<open>Regular expressions\<close>

definition is_word :: "char \<Rightarrow> bool" where
  "is_word c \<longleftrightarrow> is_digit c \<or> (CHR ''A'' \<le> c \<and> c \<le> CHR ''Z'') \<or> (CHR ''a'' \<le> c \<and> c \<le> CHR ''z'') \<or> c = CHR ''_''"

text \<open>A match of \<open>CONFIG_[A-Za-z0-9_]+\<close> at the front: its length, 0 when there is none.\<close>

definition config_len :: "str \<Rightarrow> nat" where
  "config_len s = (if startswith s ''CONFIG_'' \<and> takeWhile is_word (drop 7 s) \<noteq> []
     then 7 + length (takeWhile is_word (drop 7 s)) else 0)"

text \<open>A match of \<open>Bool\('[^\']+'\)\<close> at the front.\<close>

definition bool_len :: "str \<Rightarrow> nat" where
  "bool_len s = (let name = takeWhile (\<lambda>c. c \<noteq> CHR 0x27) (drop 6 s) in
     if startswith s (''Bool('' @ [CHR 0x27]) \<and> name \<noteq> [] \<and> startswith (drop (6 + length name) s) [CHR 0x27, CHR '')'']
     then 8 + length name else 0)"

text \<open>
  \<open>re.findall\<close> and \<open>re.sub\<close> of a pattern given by the length of its match at the front; the first
  argument bounds the number of steps and is the length of the text.
\<close>

fun find_all :: "(str \<Rightarrow> nat) \<Rightarrow> nat \<Rightarrow> str \<Rightarrow> str list" where
  "find_all m 0 s = []"
| "find_all m (Suc n) s =
     (if s = [] then []
      else if m s = 0 then find_all m n (drop 1 s)
      else take (m s) s # find_all m n (drop (m s) s))"

fun sub_all :: "(str \<Rightarrow> nat) \<Rightarrow> (str \<Rightarrow> str) \<Rightarrow> nat \<Rightarrow> str \<Rightarrow> str" where
  "sub_all m f 0 s = []"
| "sub_all m f (Suc n) s =
     (if s = [] then []
      else if m s = 0 then take 1 s @ sub_all m f n (drop 1 s)
      else f (take (m s) s) @ sub_all m f n (drop (m s) s))"

definition config_names :: "str \<Rightarrow> str list" where
  "config_names s = remdups (find_all config_len (length s) s)"

definition bool_of :: "str \<Rightarrow> str" where
  "bool_of name = ''Bool('' @ [CHR 0x27] @ name @ [CHR 0x27, CHR '')'']"

definition config_bools :: "str \<Rightarrow> str" where
  "config_bools s = sub_all config_len bool_of (length s) s"

definition bool_vars :: "str \<Rightarrow> str list" where
  "bool_vars s = remdups (find_all bool_len (length s) s)"

subsection \<open>Loading\<close>

text \<open>\<open>.config\<close>: the options that are built in or modules, as variables.\<close>

definition dotconfig_line :: "str \<Rightarrow> pyset \<Rightarrow> pyset" where
  "dotconfig_line line dotconfigs =
     (let l = rstrip line in
      if l = [] \<or> startswith l ''#'' then dotconfigs
      else case split_char (CHR ''='') l of
        [name, v] \<Rightarrow> if v = ''y'' \<or> v = ''m'' then List.insert (bool_of name) dotconfigs else dotconfigs
      | _ \<Rightarrow> dotconfigs)"

record kconf =
  obj_z3 :: "str dict"
  obj_kcvars :: "pyset dict"

definition expr_line :: "pyset \<Rightarrow> str \<Rightarrow> kconf \<Rightarrow> kconf" where
  "expr_line builtin_objs line kc = (case split_ws (rstrip line) of
       o' # c # cs \<Rightarrow>
         let obj = join_with ''64'' (split_str ''$(BITS)'' o'); conf = join_with '' '' (c # cs)
         in if CHR ''$'' \<in> set obj then kc
            else if builtin_objs \<noteq> [] \<and> obj \<notin> set builtin_objs then kc
            else kc\<lparr>obj_z3 := AList.update obj (config_bools conf) (obj_z3 kc),
                    obj_kcvars := AList.update obj (config_names conf) (obj_kcvars kc)\<rparr>
     | _ \<Rightarrow> kc)"

definition load_exprs :: "pyset \<Rightarrow> str list \<Rightarrow> kconf" where
  "load_exprs builtin_objs ls = fold (expr_line builtin_objs) ls \<lparr>obj_z3 = [], obj_kcvars = []\<rparr>"

text \<open>\<open>obj_z3\<close> and \<open>obj_kcvars\<close> are defaultdicts.\<close>

definition z3_of :: "kconf \<Rightarrow> str \<Rightarrow> str" where
  "z3_of kc obj = (case map_of (obj_z3 kc) obj of None \<Rightarrow> [] | Some e \<Rightarrow> e)"

subsection \<open>The checks\<close>

definition fix_vars :: "pyset \<Rightarrow> str list \<Rightarrow> (str \<times> bool) list" where
  "fix_vars dotconfigs vs = map (\<lambda>v. (v, v \<in> set dotconfigs)) vs"

text \<open>\<open>execute_check_sat\<close>: the number of the object, or -1 when its expression does not hold.\<close>

definition check_sat :: "solver \<Rightarrow> kconf \<Rightarrow> pyset \<Rightarrow> str \<Rightarrow> bool res" where
  "check_sat sat kc dotconfigs obj =
     sat (z3_of kc obj) (fix_vars dotconfigs (bool_vars (z3_of kc obj)))"

definition execute_check_sat :: "solver \<Rightarrow> kconf \<Rightarrow> pyset \<Rightarrow> str list \<Rightarrow> nat \<Rightarrow> int res" where
  "execute_check_sat sat kc dotconfigs objs obj_id =
     bindE (check_sat sat kc dotconfigs (objs ! obj_id)) (\<lambda>b. Inr (if b then int obj_id else -1))"

text \<open>All objects, and those whose numbers came back.\<close>

definition all_objs :: "kconf \<Rightarrow> str list" where
  "all_objs kc = sort (map fst (obj_kcvars kc))"

definition pick_sat :: "str list \<Rightarrow> int list \<Rightarrow> str list" where
  "pick_sat objs results = sort (map (\<lambda>i. objs ! nat i) (removeAll (-1) (remdups results)))"

definition build_dep :: "solver \<Rightarrow> kconf \<Rightarrow> pyset \<Rightarrow> str \<Rightarrow> str \<Rightarrow> bool res" where
  "build_dep sat kc dotconfigs parent cand =
     (if z3_of kc parent = z3_of kc cand then Inr True
      else sat (z3_of kc cand) (fix_vars dotconfigs (bool_vars (z3_of kc parent))))"

definition candidate :: "kconf \<Rightarrow> str \<Rightarrow> str \<Rightarrow> bool" where
  "candidate kc parent cand \<longleftrightarrow> set (dd_get (obj_kcvars kc) cand) \<subseteq> set (dd_get (obj_kcvars kc) parent)"

definition check_build_deps :: "solver \<Rightarrow> kconf \<Rightarrow> pyset \<Rightarrow> str list \<Rightarrow> nat \<Rightarrow> nat list \<Rightarrow> nat list res" where
  "check_build_deps sat kc dotconfigs objs parent cands =
     filterE (\<lambda>c. build_dep sat kc dotconfigs (objs ! parent) (objs ! c)) cands"

definition deps_base :: "solver \<Rightarrow> kconf \<Rightarrow> pyset \<Rightarrow> str list \<Rightarrow> nat \<Rightarrow> nat list \<Rightarrow> (str \<times> str) list res" where
  "deps_base sat kc dotconfigs objs parent cands =
     bindE (check_build_deps sat kc dotconfigs objs parent cands) (\<lambda>children.
       Inr (map (\<lambda>c. (objs ! parent, objs ! c)) children))"

definition deps_left :: "solver \<Rightarrow> kconf \<Rightarrow> pyset \<Rightarrow> str list \<Rightarrow> nat \<Rightarrow> (str \<times> str) list res" where
  "deps_left sat kc dotconfigs objs parent =
     (let cands = filter (\<lambda>c. candidate kc (objs ! parent) (objs ! c)) [parent + 1..<length objs div 2]
      in if cands = [] then Inr [] else deps_base sat kc dotconfigs objs parent cands)"

definition deps_right :: "solver \<Rightarrow> kconf \<Rightarrow> pyset \<Rightarrow> str list \<Rightarrow> nat \<Rightarrow> (str \<times> str) list res" where
  "deps_right sat kc dotconfigs objs parent =
     (let cands = filter (\<lambda>c. candidate kc (objs ! parent) (objs ! c))
            [max (parent + 1) (length objs div 2)..<length objs]
      in if cands = [] then Inr [] else deps_base sat kc dotconfigs objs parent cands)"

text \<open>
  The three maps over the workers, one element after the other; \<open>build_runs\<close> is the same with each map
  run by \<open>n\<close> processes in any order (theory \<open>MpPool\<close>).
\<close>

definition build_deps :: "solver \<Rightarrow> kconf \<Rightarrow> pyset \<Rightarrow> (str \<times> str) list res" where
  "build_deps sat kc dotconfigs = (let objs = all_objs kc in
     bindE (mapE (execute_check_sat sat kc dotconfigs objs) [0..<length objs]) (\<lambda>results.
     let objs_sat = pick_sat objs results in
     bindE (mapE (deps_left sat kc dotconfigs objs_sat) [0..<length objs_sat]) (\<lambda>results.
     bindE (mapE (deps_right sat kc dotconfigs objs_sat) [0..<length objs_sat]) (\<lambda>results_right.
       Inr (concat (results @ results_right))))))"

definition build_runs :: "solver \<Rightarrow> kconf \<Rightarrow> pyset \<Rightarrow> nat \<Rightarrow> (str \<times> str) list res \<Rightarrow> bool" where
  "build_runs sat kc dotconfigs n = (let objs = all_objs kc in
     then_run (pool_result (execute_check_sat sat kc dotconfigs objs) [0..<length objs] n) (\<lambda>results.
     let objs_sat = pick_sat objs results in
     then_run (pool_result (deps_left sat kc dotconfigs objs_sat) [0..<length objs_sat] n) (\<lambda>results.
     then_run (pool_result (deps_right sat kc dotconfigs objs_sat) [0..<length objs_sat] n) (\<lambda>results_right.
       (=) (Inr (concat (results @ results_right)))))))"

subsection \<open>Lemmas\<close>

lemma deps_sides:
  "deps_left sat kc dc objs p = Inr ds \<Longrightarrow> ds = map (\<lambda>c. (objs ! p, objs ! c)) (filter (\<lambda>c. candidate kc (objs ! p) (objs ! c) \<and>
     build_dep sat kc dc (objs ! p) (objs ! c) = Inr True) [p + 1..<length objs div 2])"
  "deps_right sat kc dc objs p = Inr ds \<Longrightarrow> ds = map (\<lambda>c. (objs ! p, objs ! c)) (filter (\<lambda>c. candidate kc (objs ! p) (objs ! c) \<and>
     build_dep sat kc dc (objs ! p) (objs ! c) = Inr True) [max (p + 1) (length objs div 2)..<length objs])"
  by (auto simp: deps_left_def deps_right_def deps_base_def check_build_deps_def Let_def filter_empty_conv
      bindE_Inr_iff dest!: filterE_Inr split: if_splits)

lemma set_deps_sides:
  "deps_left sat kc dc objs p = Inr ds \<Longrightarrow> set ds = {(objs ! p, objs ! c) | c. p < c \<and> c < length objs div 2 \<and>
     candidate kc (objs ! p) (objs ! c) \<and> build_dep sat kc dc (objs ! p) (objs ! c) = Inr True}"
  "deps_right sat kc dc objs p = Inr ds \<Longrightarrow> set ds = {(objs ! p, objs ! c) | c. p < c \<and> length objs div 2 \<le> c \<and>
     c < length objs \<and> candidate kc (objs ! p) (objs ! c) \<and> build_dep sat kc dc (objs ! p) (objs ! c) = Inr True}"
  unfolding setcompr_eq_image by (auto dest!: deps_sides intro!: arg_cong2 [where f = image])

lemma sorted_distinct_nth:
  assumes "sorted xs" and "distinct xs"
  shows "{(xs ! p, xs ! c) | p c. p < c \<and> c < length xs \<and> Q (xs ! p) (xs ! c)} =
    {(a, b). a \<in> set xs \<and> b \<in> set xs \<and> a < (b :: 'a :: linorder) \<and> Q a b}"
proof -
  have lt: "xs ! p < xs ! c \<longleftrightarrow> p < c" if "p < length xs" "c < length xs" for p c
    using that assms by (metis nth_eq_iff_index_eq not_less order.strict_iff_order sorted_nth_mono)
  show ?thesis
  proof (intro set_eqI iffI)
    fix x assume "x \<in> {(a, b). a \<in> set xs \<and> b \<in> set xs \<and> a < b \<and> Q a b}"
    then obtain p c where "x = (xs ! p, xs ! c)" "p < length xs" "c < length xs" "xs ! p < xs ! c" "Q (xs ! p) (xs ! c)"
      by (auto simp: in_set_conv_nth)
    with lt show "x \<in> {(xs ! p, xs ! c) | p c. p < c \<and> c < length xs \<and> Q (xs ! p) (xs ! c)}" by blast
  next
    fix x assume "x \<in> {(xs ! p, xs ! c) | p c. p < c \<and> c < length xs \<and> Q (xs ! p) (xs ! c)}"
    then obtain p c where "x = (xs ! p, xs ! c)" "p < c" "c < length xs" "Q (xs ! p) (xs ! c)" by blast
    with lt [of p c] show "x \<in> {(a, b). a \<in> set xs \<and> b \<in> set xs \<and> a < b \<and> Q a b}" by simp
  qed
qed

definition kept_objs :: "solver \<Rightarrow> kconf \<Rightarrow> pyset \<Rightarrow> str set" where
  "kept_objs sat kc dotconfigs = {obj. obj \<in> fst ` set (obj_kcvars kc) \<and> check_sat sat kc dotconfigs obj = Inr True}"

lemma load_exprs_distinct: "distinct (map fst (obj_kcvars (load_exprs builtin ls)))"
  unfolding load_exprs_def
  by (rule fold_keeps [where P = "\<lambda>kc. distinct (map fst (obj_kcvars kc))"])
    (auto simp: expr_line_def Let_def distinct_update split: list.splits)

lemma set_pick_sat:
  assumes "mapE (execute_check_sat sat kc dc objs) [0..<length objs] = Inr results" and "distinct objs"
  shows "sorted (pick_sat objs results) \<and> distinct (pick_sat objs results) \<and>
    set (pick_sat objs results) = {obj \<in> set objs. check_sat sat kc dc obj = Inr True}"
proof -
  let ?ids = "removeAll (-1) (remdups results)"
  have "set results = {y. \<exists>i < length objs. execute_check_sat sat kc dc objs i = Inr y}"
    using mapE_set [OF assms(1)] by auto
  then have ids: "set ?ids = int ` {i. i < length objs \<and> check_sat sat kc dc (objs ! i) = Inr True}"
    by (auto simp: execute_check_sat_def bindE_Inr_iff image_iff split: if_splits)
  have inj: "inj_on (\<lambda>i. objs ! nat i) (set ?ids)"
    unfolding ids using assms(2) by (auto simp: inj_on_def nth_eq_iff_index_eq)
  have "distinct ?ids" by (simp add: distinct_removeAll)
  with inj have "distinct (pick_sat objs results)" by (simp add: pick_sat_def distinct_map)
  moreover have "set (pick_sat objs results) = (\<lambda>i. objs ! nat i) ` set ?ids" by (simp add: pick_sat_def)
  then have "set (pick_sat objs results) = {obj \<in> set objs. check_sat sat kc dc obj = Inr True}"
    unfolding ids image_image by (auto simp: in_set_conv_nth)
  ultimately show ?thesis by (simp add: pick_sat_def)
qed

lemma set_build_deps:
  assumes "kc = load_exprs builtin ls" and "build_deps sat kc dotconfigs = Inr pairs"
  shows "set pairs = {(a, b).
    a \<in> kept_objs sat kc dotconfigs \<and> b \<in> kept_objs sat kc dotconfigs \<and> a < b \<and>
    candidate kc a b \<and> build_dep sat kc dotconfigs a b = Inr True}"
proof -
  let ?Q = "\<lambda>a b. candidate kc a b \<and> build_dep sat kc dotconfigs a b = Inr True"
  from assms(2) obtain results L R where
    res: "mapE (execute_check_sat sat kc dotconfigs (all_objs kc)) [0..<length (all_objs kc)] = Inr results"
    and L: "mapE (deps_left sat kc dotconfigs (pick_sat (all_objs kc) results)) [0..<length (pick_sat (all_objs kc) results)] = Inr L"
    and R: "mapE (deps_right sat kc dotconfigs (pick_sat (all_objs kc) results)) [0..<length (pick_sat (all_objs kc) results)] = Inr R"
    and pairs: "pairs = concat (L @ R)"
    by (auto simp: build_deps_def Let_def bindE_Inr_iff)
  define objs where "objs = pick_sat (all_objs kc) results"
  have "distinct (all_objs kc)" using load_exprs_distinct by (simp add: all_objs_def assms(1))
  from set_pick_sat [OF res this] have objs: "sorted objs" "distinct objs" "set objs = kept_objs sat kc dotconfigs"
    by (auto simp: objs_def kept_objs_def all_objs_def)
  let ?n = "length objs"
  have sides: "{h c | c. p < c \<and> c < ?n div 2 \<and> G c} \<union> {h c | c. p < c \<and> ?n div 2 \<le> c \<and> c < ?n \<and> G c} =
      {h c | c. p < c \<and> c < ?n \<and> G c}" for h :: "nat \<Rightarrow> str \<times> str" and G p
  proof -
    have "c < ?n" if "c < ?n div 2" for c using that by simp
    then show ?thesis by (intro set_eqI iffI) (blast, use not_less in blast)
  qed
  have "set pairs =
      (\<Union>p \<in> {..<?n}. {(objs ! p, objs ! c) | c. p < c \<and> c < ?n div 2 \<and> ?Q (objs ! p) (objs ! c)}) \<union>
      (\<Union>p \<in> {..<?n}. {(objs ! p, objs ! c) | c. p < c \<and> ?n div 2 \<le> c \<and> c < ?n \<and> ?Q (objs ! p) (objs ! c)})"
    using mapE_values [OF L, OF set_deps_sides(1)] mapE_values [OF R, OF set_deps_sides(2)]
    by (simp add: pairs objs_def lessThan_atLeast0)
  also have "\<dots> = (\<Union>p \<in> {..<?n}. {(objs ! p, objs ! c) | c. p < c \<and> c < ?n \<and> ?Q (objs ! p) (objs ! c)})"
    unfolding UN_Un_distrib [symmetric] sides ..
  also have "\<dots> = {(objs ! p, objs ! c) | p c. p < c \<and> c < ?n \<and> ?Q (objs ! p) (objs ! c)}"
    using less_trans by blast
  also have "\<dots> = {(a, b). a \<in> set objs \<and> b \<in> set objs \<and> a < b \<and> ?Q a b}"
    by (rule sorted_distinct_nth [OF objs(1,2)])
  finally show ?thesis by (simp only: objs(3))
qed

text \<open>
  C16: the two rounds over the candidates, below and above the middle of the list, miss nothing: the
  pairs printed are exactly those of satisfiable objects of which the first precedes the second in
  the order of names, has all its configuration options, and implies it as far as the solver can
  tell. (A dependency on an object with a smaller name is therefore never found.)
\<close>

theorem build_deps_exact:
  assumes "kc = load_exprs builtin ls" and "build_deps sat kc dotconfigs = Inr pairs"
  shows "set pairs = {(a, b).
    a \<in> kept_objs sat kc dotconfigs \<and> b \<in> kept_objs sat kc dotconfigs \<and> a < b \<and>
    candidate kc a b \<and> build_dep sat kc dotconfigs a b = Inr True}"
  using assms by (rule set_build_deps)

definition demo_exprs :: "str list" where
  "demo_exprs = [''a.o CONFIG_A'', ''b.o And(CONFIG_A, CONFIG_B)'', ''c.o CONFIG_B'']"

definition sat_all :: solver where
  "sat_all e asg = Inr True"

theorem build_deps_exact_witness:
  "set [(''b.o'', ''c.o'')] = {(a, b).
    a \<in> kept_objs sat_all (load_exprs [] demo_exprs) [] \<and>
    b \<in> kept_objs sat_all (load_exprs [] demo_exprs) [] \<and> a < b \<and>
    candidate (load_exprs [] demo_exprs) a b \<and> build_dep sat_all (load_exprs [] demo_exprs) [] a b = Inr True}"
proof -
  have "build_deps sat_all (load_exprs [] demo_exprs) [] = Inr [(''b.o'', ''c.o'')]" by code_simp
  from build_deps_exact [OF refl this] show ?thesis .
qed

subsection \<open>The order of the workers does not matter\<close>

text \<open>
  With any number of workers and any order of their steps the pairs are those of \<open>build_deps\<close>, and an
  exception is raised exactly when \<open>build_deps\<close> raises one.
\<close>

lemma build_runs_as:
  assumes "1 \<le> n"
  shows "runs_as (build_runs sat kc dotconfigs n) (build_deps sat kc dotconfigs)"
  unfolding build_runs_def build_deps_def Let_def
  by (intro runs_as_then pool_runs_as [OF assms] runs_as_value)

end
