(* ===== verification/CompUnit.thy ===== *)
theory CompUnit
  imports ObjDeps BuildDeps
begin

section \<open>The text filters around the analyses\<close>

text \<open>
  The small scripts between the larger ones read lines and print lines:
  \<open>comp_unit/gen-dep.py\<close> groups the pairs of \<open>get-build-deps.py\<close> by their first object,
  \<open>comp_unit/kreader-normalize.py\<close> turns the output of kreader into one line per object,
  \<open>driver_model/uniq-funcs.py\<close> keeps one object per function, \<open>comp_unit/get-builtin-objs.py\<close> lists
  the objects of the thin archives, and \<open>utils/get-mod-init.py\<close> names the init function of a module.
  Each is a function from the lines it reads to the lines it prints; a filter that catches an
  exception prints no more, which is \<open>Inl\<close> here.
\<close>

text \<open>\<open>d[k].append(v)\<close> of a \<open>defaultdict(list)\<close>\<close>

definition dl_add :: "'k \<Rightarrow> 'v \<Rightarrow> ('k \<times> 'v list) list \<Rightarrow> ('k \<times> 'v list) list" where
  "dl_add k v d = AList.update k (dd_get d k @ [v]) d"

subsection \<open>gen-dep.py\<close>

definition gen_line :: "str \<Rightarrow> (str \<times> str list) list \<Rightarrow> (str \<times> str list) list res" where
  "gen_line l obj_cu = (let sp = split_ws (rstrip l) in
     bindE (index sp 0) (\<lambda>obj. bindE (index sp 1) (\<lambda>cu. Inr (dl_add obj cu obj_cu))))"

definition dep_text :: "(str \<times> str list) list \<Rightarrow> str \<Rightarrow> str" where
  "dep_text obj_cu obj = obj @ '':'' @ concat (map (\<lambda>cu. '' '' @ cu) (dd_get obj_cu obj))"

definition gen_dep :: "str list \<Rightarrow> str list res" where
  "gen_dep ls = bindE (foldE gen_line ls []) (\<lambda>obj_cu. Inr (map (dep_text obj_cu) (sort (map fst obj_cu))))"

subsection \<open>kreader-normalize.py\<close>

record kreader =
  buf_list :: "str list"
  buf :: str
  is_first :: bool

definition kreader_line :: "str \<Rightarrow> kreader \<Rightarrow> kreader res" where
  "kreader_line l s = (let line = rstrip l in
     bindE (index line 0) (\<lambda>c. Inr
       (if c \<noteq> CHR '' ''
        then (if is_first s then s\<lparr>buf := line, is_first := False\<rparr>
              else s\<lparr>buf_list := buf_list s @ [buf s], buf := line\<rparr>)
        else s\<lparr>buf := buf s @ '' '' @ strip line\<rparr>)))"

text \<open>The substitutions: the patterns are literal texts.\<close>

definition sub_text :: "str \<Rightarrow> str \<Rightarrow> str \<Rightarrow> str" where
  "sub_text old new s = join_with new (split_str old s)"

definition sub_archs :: "str \<Rightarrow> str" where
  "sub_archs z3 = sub_text ''$(ARCH)=arm64'' ''CONFIG_ARM64'' (sub_text ''$(ARCH)=arm'' ''CONFIG_ARM'' z3)"

definition norm_z3 :: "str \<Rightarrow> str" where
  "norm_z3 z3 = sub_text '' 1,'' '' True,'' (sub_text '' 0,'' '' False,''
     (sub_text ''BITS=64'' ''CONFIG_64BIT'' (sub_text ''BITS=32'' ''CONFIG_32BIT'' (sub_archs z3))))"

definition unit_lines :: "str \<Rightarrow> str list" where
  "unit_lines b = (case split_ws b of
       [] \<Rightarrow> []
     | unit # sp \<Rightarrow> let z3 = join_with '' '' sp
         in if endswith unit ''.o'' \<and> z3 \<noteq> ''True'' then [normpath unit @ '' '' @ norm_z3 z3] else [])"

definition kreader_normalize :: "str list \<Rightarrow> str list res" where
  "kreader_normalize ls =
     bindE (foldE kreader_line ls \<lparr>buf_list = [], buf = [], is_first = True\<rparr>)
       (\<lambda>s. Inr (concat (map unit_lines (buf_list s))))"

subsection \<open>uniq-funcs.py\<close>

definition func_line :: "str \<Rightarrow> (str \<times> str list) list \<Rightarrow> (str \<times> str list) list res" where
  "func_line l func_objs = (case split_ws (rstrip l) of
       [obj, func] \<Rightarrow> Inr (dl_add func obj func_objs) | _ \<Rightarrow> Inl ValueError)"

definition is_bc :: "str \<Rightarrow> bool" where
  "is_bc obj \<longleftrightarrow> endswith obj ''.bc''"

definition pick_obj :: "str list \<Rightarrow> str" where
  "pick_obj objs = (case find is_bc objs of Some obj \<Rightarrow> obj | None \<Rightarrow> hd objs)"

definition uniq_funcs :: "str list \<Rightarrow> str list res" where
  "uniq_funcs ls = bindE (foldE func_line ls [])
     (\<lambda>func_objs. Inr (map (\<lambda>(func, objs). pick_obj objs @ '' '' @ func) func_objs))"

text \<open>
  The filters read all of their input before they print, and report an exception with the exit code 1.
\<close>

definition exit_of :: "str list res \<Rightarrow> str list \<times> nat" where
  "exit_of r = (case r of Inl e \<Rightarrow> ([], 1) | Inr out \<Rightarrow> (out, 0))"

definition gen_dep_main :: "str \<Rightarrow> str list \<times> nat" where
  "gen_dep_main stdin = exit_of (gen_dep (file_lines stdin))"

definition kreader_main :: "str \<Rightarrow> str list \<times> nat" where
  "kreader_main stdin = exit_of (kreader_normalize (file_lines stdin))"

definition uniq_funcs_main :: "str \<Rightarrow> str list \<times> nat" where
  "uniq_funcs_main stdin = exit_of (uniq_funcs (file_lines stdin))"

subsection \<open>get-builtin-objs.py\<close>

text \<open>
  The archives found, one after the other; what was printed before one that cannot be read stays. The
  arguments are checked in theory \<open>Workers\<close>.
\<close>

definition builtin_line :: "str \<Rightarrow> str \<Rightarrow> str list" where
  "builtin_line builtin line = (let l = rstrip line in
     if l \<noteq> [] \<and> last l = slash \<and> length (split_char slash l) = 2
     then [join_with ''/'' (butlast (split_char slash builtin)) @ ''/'' @ hd (split_char slash l)] else [])"

fun builtin_objs :: "fsys \<Rightarrow> str list \<Rightarrow> str list \<times> nat" where
  "builtin_objs fs [] = ([], 0)"
| "builtin_objs fs (b # bs) = (case read_text fs b of
       Inl e \<Rightarrow> ([], 1)
     | Inr data \<Rightarrow> (case builtin_objs fs bs of
         (out, code) \<Rightarrow> (concat (map (builtin_line b) (lines_of data)) @ out, code)))"

subsection \<open>get-mod-init.py\<close>

text \<open>\<open>re.search(r"F\s(|.init).text(|.early)", sym)\<close>: the last group may be empty.\<close>

definition dot_text :: "str \<Rightarrow> bool" where
  "dot_text s \<longleftrightarrow> s \<noteq> [] \<and> hd s \<noteq> CHR 0x0A \<and> startswith (tl s) ''text''"

fun func_sym :: "str \<Rightarrow> bool" where
  "func_sym (f # c # s) \<longleftrightarrow> f = CHR ''F'' \<and> is_space c \<and>
     (dot_text s \<or> (s \<noteq> [] \<and> hd s \<noteq> CHR 0x0A \<and> startswith (tl s) ''init'' \<and> dot_text (drop 5 s)))
     \<or> func_sym (c # s)"
| "func_sym _ \<longleftrightarrow> False"

text \<open>\<open>re.search(r"\sinit_module$", func)\<close> on a line\<close>

definition init_sym :: "str \<Rightarrow> bool" where
  "init_sym l \<longleftrightarrow> endswith l ''init_module'' \<and> 12 \<le> length l \<and> is_space (l ! (length l - 12))"

text \<open>The first other function with the size, section and address of \<open>init_module\<close>.\<close>

fun same_place :: "str \<Rightarrow> str \<Rightarrow> str \<Rightarrow> str list \<Rightarrow> str res" where
  "same_place sz sect addr [] = Inr ''NOINIT''"
| "same_place sz sect addr (f # fs) = (let spl = split_ws f in
     bindE (index spl 5) (\<lambda>name.
       if name \<noteq> ''init_module'' \<and> spl ! 0 = sz \<and> spl ! 3 = sect \<and> spl ! 4 = addr then Inr name
       else same_place sz sect addr fs))"

text \<open>The line the script prints, given the output of \<open>objdump -t\<close>: \<open>basename(..)[-3]\<close> is one character.\<close>

definition get_mod_init :: "str \<Rightarrow> str \<Rightarrow> str res" where
  "get_mod_init path symtbl = (let funcs = filter func_sym (lines_of symtbl) in
     case find init_sym funcs of
       None \<Rightarrow> bindE (from_end 3 (basename path)) (\<lambda>c. Inr (c # CHR 0x09 # ''NOINIT''))
     | Some initmod \<Rightarrow> (let spl = split_ws initmod in
         bindE (index spl 0) (\<lambda>sz. bindE (index spl 3) (\<lambda>sect. bindE (index spl 4) (\<lambda>addr.
         bindE (same_place sz sect addr funcs) (\<lambda>initfn.
         bindE (from_end 3 (basename path)) (\<lambda>c. Inr (c # CHR 0x09 # initfn))))))))"

text \<open>The main: with a wrong number of arguments it prints its usage.\<close>

definition get_mod_init_main :: "(str \<Rightarrow> str) \<Rightarrow> str list \<Rightarrow> str res" where
  "get_mod_init_main objdump argv =
     (if length argv \<noteq> 2 then bindE (index argv 0) (\<lambda>p. Inr (''Usage: '' @ p @ '' <module>''))
      else get_mod_init (argv ! 1) (objdump (argv ! 1)))"

subsection \<open>Grouping\<close>

lemma dd_get_dl_add [simp]: "dd_get (dl_add k v d) k' = (if k' = k then dd_get d k @ [v] else dd_get d k')"
  by (simp add: dl_add_def)

lemma keys_dl_add: "fst ` set (dl_add k v d) = insert k (fst ` set d)"
  by (simp add: dl_add_def dom_update)

lemma distinct_dl_add: "distinct (map fst d) \<Longrightarrow> distinct (map fst (dl_add k v d))"
  by (simp add: dl_add_def distinct_update)

definition group_pairs :: "('k \<times> 'v) list \<Rightarrow> ('k \<times> 'v list) list" where
  "group_pairs ps = fold (\<lambda>(k, v). dl_add k v) ps []"

lemma fold_dl_add: "dd_get (fold (\<lambda>(k, v). dl_add k v) ps d) k = dd_get d k @ map snd (filter (\<lambda>p. fst p = k) ps)"
  by (induction ps arbitrary: d) auto

lemma dd_get_group: "dd_get (group_pairs ps) k = map snd (filter (\<lambda>p. fst p = k) ps)"
  by (simp add: group_pairs_def fold_dl_add)

lemma fold_dl_keys: "fst ` set (fold (\<lambda>(k, v). dl_add k v) ps d) = fst ` set d \<union> fst ` set ps"
proof (induction ps arbitrary: d)
  case (Cons p ps)
  then show ?case by (cases p) (simp add: keys_dl_add insert_commute Un_commute)
qed simp

lemma keys_group: "fst ` set (group_pairs ps) = fst ` set ps"
  by (simp add: group_pairs_def fold_dl_keys)

lemma distinct_group: "distinct (map fst (group_pairs ps))"
  unfolding group_pairs_def by (rule fold_keeps) (auto intro: distinct_dl_add)

text \<open>Names that survive printing and reading.\<close>

definition word :: "str \<Rightarrow> bool" where
  "word w \<longleftrightarrow> w \<noteq> [] \<and> list_all (\<lambda>c. \<not> is_space c) w"

lemma words_from_word: "list_all (\<lambda>c. \<not> is_space c) w \<Longrightarrow> words_from t (w @ s) = words_from (t @ w) s"
  by (induction w arbitrary: t) auto

lemma split_ws_words: "word w \<Longrightarrow> list_all word ws \<Longrightarrow> split_ws (w @ concat (map (\<lambda>v. '' '' @ v) ws)) = w # ws"
  unfolding split_ws_def
proof (induction ws arbitrary: w)
  case Nil
  then show ?case using words_from_word [of w "[]" "[]"] by (simp add: word_def)
next
  case (Cons v ws)
  then show ?case using words_from_word [of w "[]" "'' '' @ v @ concat (map (\<lambda>v. '' '' @ v) ws)"] Cons.IH [of v]
    by (simp add: word_def is_space_def)
qed

lemma word_last: "word w \<Longrightarrow> w \<noteq> [] \<and> \<not> is_space (last w) \<and> \<not> is_space (hd w)"
  by (auto simp: word_def list_all_iff)

lemma words_last:
  "word w \<Longrightarrow> list_all word ws \<Longrightarrow> \<not> is_space (last (w @ concat (map (\<lambda>v. '' '' @ v) ws)))"
proof (induction ws arbitrary: w)
  case (Cons v ws)
  then show ?case using word_last [of v] by simp
qed (simp add: word_last)

lemma strip_words: "word w \<Longrightarrow> list_all word ws \<Longrightarrow> strip (w @ concat (map (\<lambda>v. '' '' @ v) ws)) = w @ concat (map (\<lambda>v. '' '' @ v) ws)"
  using words_last [of w ws] word_last [of w] by (simp add: strip_def lstrip_id rstrip_id)

lemma gen_line_words:
  assumes "word a" and "word b"
  shows "gen_line (a @ '' '' @ b) t = Inr (dl_add a b t)"
proof -
  have "rstrip (a @ '' '' @ b) = a @ '' '' @ b" using assms by (intro rstrip_id) (auto dest: word_last)
  moreover have "split_ws (a @ '' '' @ b) = [a, b]" using split_ws_words [of a "[b]"] assms by simp
  ultimately show ?thesis by (simp add: gen_line_def index_def)
qed

definition pair_line :: "str \<times> str \<Rightarrow> str" where
  "pair_line p = fst p @ '' '' @ snd p"

definition word_pairs :: "(str \<times> str) list \<Rightarrow> bool" where
  "word_pairs ps \<longleftrightarrow> list_all (\<lambda>p. word (fst p) \<and> word (snd p)) ps"

lemma foldE_gen_line: "word_pairs ps \<Longrightarrow> foldE gen_line (map pair_line ps) t = Inr (fold (\<lambda>(a, b). dl_add a b) ps t)"
proof (induction ps arbitrary: t)
  case (Cons p ps)
  then show ?case using gen_line_words [of "fst p" "snd p" t] by (auto simp: word_pairs_def pair_line_def split_beta)
qed simp

lemma gen_dep_pairs: "word_pairs ps \<Longrightarrow>
    gen_dep (map pair_line ps) = Inr (map (dep_text (group_pairs ps)) (sort (map fst (group_pairs ps))))"
  by (simp add: gen_dep_def foldE_gen_line group_pairs_def)

lemma split_char_join:
  "ls \<noteq> [] \<Longrightarrow> list_all (\<lambda>l. d \<notin> set l) ls \<Longrightarrow> split_char d (join_with [d] ls) = ls"
proof (induction "[d]" ls rule: join_with.induct)
  case (3 x y ys)
  then show ?case using split_char_append [of d x "join_with [d] (y # ys)"] by simp
qed (simp_all add: split_char_no_sep)

lemma lines_of_strip_join:
  assumes "list_all (\<lambda>l. l \<noteq> [] \<and> \<not> is_space (hd l) \<and> \<not> is_space (last l) \<and> CHR 0x0A \<notin> set l) ls"
  shows "lines_of (strip (join_with [CHR 0x0A] ls)) = (if ls = [] then [[]] else ls)"
proof (cases "ls = []")
  case True
  then show ?thesis by (simp add: lines_of_def strip_def lstrip_def rstrip_def)
next
  case False
  have "join_with [CHR 0x0A] ls \<noteq> [] \<and> \<not> is_space (hd (join_with [CHR 0x0A] ls)) \<and>
      \<not> is_space (last (join_with [CHR 0x0A] ls))"
    using False assms by (induction "[CHR 0x0A]" ls rule: join_with.induct) auto
  then have "strip (join_with [CHR 0x0A] ls) = join_with [CHR 0x0A] ls"
    by (simp add: strip_def lstrip_id rstrip_id)
  moreover have "list_all (\<lambda>l. CHR 0x0A \<notin> set l) ls" using assms by (simp add: list_all_iff)
  ultimately show ?thesis using False split_char_join [of ls "CHR 0x0A"] by (simp add: lines_of_def)
qed

definition built_name :: "str \<Rightarrow> str \<Rightarrow> str" where
  "built_name linux_build obj = dash_to_us (path_join linux_build obj)"

lemma btobj_line_words:
  assumes "word a" and "list_all word objs"
  shows "btobj_line linux_build (a @ '':'' @ concat (map (\<lambda>v. '' '' @ v) objs)) t =
    Inr (fold (\<lambda>obj. dd_add (built_name linux_build obj) (built_name linux_build a)) objs t)"
proof -
  have wa: "word (a @ '':'')" using assms(1) by (auto simp: word_def is_space_def)
  let ?l = "(a @ '':'') @ concat (map (\<lambda>v. '' '' @ v) objs)"
  have "split_ws (strip ?l) = (a @ '':'') # objs"
    unfolding strip_words [OF wa assms(2)] by (rule split_ws_words [OF wa assms(2)])
  then show ?thesis by (simp add: btobj_line_def from_end_def built_name_def)
qed

definition built_pairs :: "str \<Rightarrow> (str \<times> str) list \<Rightarrow> (str \<times> str) list" where
  "built_pairs linux_build ps = map (\<lambda>(a, b). (built_name linux_build b, built_name linux_build a)) ps"

lemma word_pairs_group:
  assumes "word_pairs ps" and "a \<in> fst ` set (group_pairs ps)"
  shows "word a \<and> list_all word (dd_get (group_pairs ps) a)"
proof -
  from assms(2) obtain b where "(a, b) \<in> set ps" by (auto simp: keys_group)
  with assms(1) have "word a" by (auto simp: word_pairs_def list_all_iff)
  moreover have "list_all word (dd_get (group_pairs ps) a)"
    using assms(1) by (auto simp: word_pairs_def dd_get_group list_all_iff)
  ultimately show ?thesis by blast
qed

lemma dep_text_line:
  assumes "word_pairs ps" and "l \<in> dep_text (group_pairs ps) ` fst ` set (group_pairs ps)"
  shows "l \<noteq> [] \<and> \<not> is_space (hd l) \<and> \<not> is_space (last l) \<and> CHR 0x0A \<notin> set l"
proof -
  from assms(2) obtain a where a: "a \<in> fst ` set (group_pairs ps)" "l = dep_text (group_pairs ps) a" by blast
  with word_pairs_group [OF assms(1) a(1)] have wa: "word (a @ '':'')" and wo: "list_all word (dd_get (group_pairs ps) a)"
    and l: "l = (a @ '':'') @ concat (map (\<lambda>v. '' '' @ v) (dd_get (group_pairs ps) a))"
    by (auto simp: word_def is_space_def dep_text_def)
  have nl: "CHR 0x0A \<notin> set w" if "word w" for w using that by (auto simp: word_def list_all_iff is_space_def)
  have "CHR 0x0A \<notin> set (a @ '':'')" using nl [OF wa] .
  moreover have "\<forall>v \<in> set (dd_get (group_pairs ps) a). CHR 0x0A \<notin> set v"
    using nl wo unfolding list_all_iff by blast
  ultimately have "CHR 0x0A \<notin> set l" unfolding l by auto
  moreover have "\<not> is_space (last l)" unfolding l by (rule words_last [OF wa wo])
  moreover have "hd l = hd (a @ '':'')" by (simp add: l hd_append)
  ultimately show ?thesis using word_last [OF wa] l by (metis append_is_Nil_conv)
qed

lemma dep_text_word:
  assumes "word_pairs ps" and "a \<in> fst ` set (group_pairs ps)"
  shows "hd (split_ws (dep_text (group_pairs ps) a)) = a @ '':''"
proof -
  from word_pairs_group [OF assms] have "word (a @ '':'')" "list_all word (dd_get (group_pairs ps) a)"
    by (auto simp: word_def is_space_def)
  from split_ws_words [OF this] show ?thesis by (simp add: dep_text_def)
qed

lemma fold_concat_map: "fold (\<lambda>l. fold f (h l)) ls t = fold f (concat (map h ls)) t"
  by (induction ls arbitrary: t) simp_all

text \<open>
  What \<open>get-build-deps.py\<close> prints reaches the analysis: the pairs of objects, grouped by
  \<open>gen-dep.py\<close>, in whatever order \<open>sort\<close> and \<open>uniq\<close> leave the lines, are read by
  \<open>load_btobj_deps\<close> into a table that gives for each object of the build exactly the objects it was
  paired with.
\<close>

lemma btobj_deps_read:
  assumes "word_pairs ps" and "gen_dep (map pair_line ps) = Inr out" and "set ls = set out"
    and "fs_text fs p = Some (join_with [CHR 0x0A] ls)"
  shows "\<exists>t. load_btobj_deps fs linux_build p = Inr t \<and>
    (\<forall>k. set (dd_get t k) = {v. (k, v) \<in> set (built_pairs linux_build ps)})"
proof -
  let ?g = "group_pairs ps"
  let ?adds = "\<lambda>a. map (\<lambda>obj. (built_name linux_build obj, built_name linux_build a)) (dd_get ?g a)"
  have "out = map (dep_text ?g) (sort (map fst ?g))"
    using assms(2) unfolding gen_dep_pairs [OF assms(1)] by simp
  then have out: "set ls = dep_text ?g ` fst ` set ?g" by (simp add: assms(3))
  then have "\<forall>l \<in> set ls. \<exists>a. a \<in> fst ` set ?g \<and> l = dep_text ?g a" by blast
  then obtain key where key: "\<And>l. l \<in> set ls \<Longrightarrow> key l \<in> fst ` set ?g \<and> l = dep_text ?g (key l)" by metis
  have keys: "key ` set ls = fst ` set ?g"
  proof (intro equalityI subsetI)
    fix a assume a: "a \<in> fst ` set ?g"
    with out have l: "dep_text ?g a \<in> set ls" by blast
    with key have "key (dep_text ?g a) \<in> fst ` set ?g" "dep_text ?g (key (dep_text ?g a)) = dep_text ?g a" by auto
    then have "key (dep_text ?g a) = a"
      using dep_text_word [OF assms(1) a] dep_text_word [OF assms(1), of "key (dep_text ?g a)"] by simp
    with l show "a \<in> key ` set ls" by (metis image_eqI)
  qed (use key in auto)
  have step: "btobj_line linux_build l t = Inr (fold (\<lambda>(k, v). dd_add k v) (?adds (key l)) t)" if "l \<in> set ls" for l t
    using key [OF that] word_pairs_group [OF assms(1), of "key l"] btobj_line_words [of "key l" "dd_get ?g (key l)" linux_build t]
    by (simp add: fold_map comp_def dep_text_def)
  have "foldE (btobj_line linux_build) ls [] = Inr (fold (\<lambda>(k, v). dd_add k v) (concat (map (?adds \<circ> key) ls)) [])"
    using foldE_total [of ls "btobj_line linux_build" "\<lambda>l. fold (\<lambda>(k, v). dd_add k v) (?adds (key l))" "[]"] step
    unfolding fold_concat_map [where h = "\<lambda>l. ?adds (key l)"] by (simp add: comp_def)
  moreover have "lines_of (strip (join_with [CHR 0x0A] ls)) = (if ls = [] then [[]] else ls)"
    by (rule lines_of_strip_join) (use dep_text_line [OF assms(1)] out in \<open>auto simp: list_all_iff\<close>)
  ultimately have "load_btobj_deps fs linux_build p =
      Inr (fold (\<lambda>(k, v). dd_add k v) (concat (map (?adds \<circ> key) ls)) [])"
    by (simp add: load_btobj_deps_def read_text_def assms(4) btobj_line_def)
  moreover have "{v. (k, v) \<in> set (concat (map (?adds \<circ> key) ls))} = {v. (k, v) \<in> set (built_pairs linux_build ps)}" for k
  proof -
    have "set (concat (map (?adds \<circ> key) ls)) = (\<Union>a \<in> key ` set ls. set (?adds a))" by auto
    also have "\<dots> = set (built_pairs linux_build ps)"
      unfolding keys keys_group by (force simp: built_pairs_def dd_get_group)
    finally show ?thesis by simp
  qed
  ultimately show ?thesis by (auto simp: dd.get_adds)
qed

subsection \<open>Units of kreader\<close>

definition head_line :: "str \<Rightarrow> bool" where
  "head_line l \<longleftrightarrow> rstrip l \<noteq> [] \<and> hd (rstrip l) \<noteq> CHR '' ''"

definition cont_line :: "str \<Rightarrow> bool" where
  "cont_line l \<longleftrightarrow> rstrip l \<noteq> [] \<and> hd (rstrip l) = CHR '' ''"

definition unit_text :: "str \<times> str list \<Rightarrow> str" where
  "unit_text u = rstrip (fst u) @ concat (map (\<lambda>l. '' '' @ strip (rstrip l)) (snd u))"

lemma kreader_conts:
  "list_all cont_line cs \<Longrightarrow> foldE kreader_line cs s = Inr (s\<lparr>buf := buf s @ concat (map (\<lambda>l. '' '' @ strip (rstrip l)) cs)\<rparr>)"
proof (induction cs arbitrary: s)
  case (Cons c cs)
  then have "kreader_line c s = Inr (s\<lparr>buf := buf s @ '' '' @ strip (rstrip c)\<rparr>)"
    by (cases "rstrip c") (simp_all add: kreader_line_def cont_line_def index_def)
  with Cons show ?case by simp
qed simp

lemma kreader_unit:
  assumes "head_line h" and "list_all cont_line cs"
  shows "foldE kreader_line (h # cs) s =
    Inr (if is_first s then s\<lparr>buf := unit_text (h, cs), is_first := False\<rparr>
         else s\<lparr>buf_list := buf_list s @ [buf s], buf := unit_text (h, cs)\<rparr>)"
proof -
  have "kreader_line h s = Inr (if is_first s then s\<lparr>buf := rstrip h, is_first := False\<rparr>
      else s\<lparr>buf_list := buf_list s @ [buf s], buf := rstrip h\<rparr>)"
    using assms(1) by (cases "rstrip h") (simp_all add: kreader_line_def head_line_def index_def Let_def)
  with assms(2) show ?thesis by (simp add: kreader_conts unit_text_def)
qed

definition unit_ok :: "str \<times> str list \<Rightarrow> bool" where
  "unit_ok u \<longleftrightarrow> head_line (fst u) \<and> list_all cont_line (snd u)"

lemma kreader_units:
  assumes "list_all unit_ok us" and "\<not> is_first s"
  shows "foldE kreader_line (concat (map (\<lambda>u. fst u # snd u) us)) s =
    Inr (s\<lparr>buf_list := buf_list s @ butlast (buf s # map unit_text us), buf := last (buf s # map unit_text us)\<rparr>)"
  using assms
proof (induction us arbitrary: s)
  case (Cons u us)
  let ?t = "s\<lparr>buf_list := buf_list s @ [buf s], buf := unit_text u\<rparr>"
  from Cons.prems have "foldE kreader_line (fst u # snd u) s = Inr ?t"
    by (subst kreader_unit) (auto simp: unit_ok_def)
  moreover have "foldE kreader_line (concat (map (\<lambda>u. fst u # snd u) us)) ?t =
      Inr (?t\<lparr>buf_list := buf_list ?t @ butlast (buf ?t # map unit_text us), buf := last (buf ?t # map unit_text us)\<rparr>)"
    by (rule Cons.IH) (use Cons.prems in simp_all)
  ultimately show ?case by (simp del: foldE.simps add: foldE_append flip: append_Cons)
qed simp

text \<open>
  C40: kreader prints an object and its constraint in a unit: a line that begins in the first column and
  indented lines that continue it. The filter prints, in order, exactly the normalised units of object
  files with a constraint other than \<open>True\<close>, but never the last unit of its input: that one is read
  and not appended to the list of units.
\<close>

theorem kreader_last_unit_lost:
  assumes "list_all unit_ok us"
  shows "kreader_normalize (concat (map (\<lambda>u. fst u # snd u) us)) =
    Inr (concat (map (\<lambda>u. unit_lines (unit_text u)) (butlast us)))"
proof (cases us)
  case Nil
  then show ?thesis by (simp add: kreader_normalize_def)
next
  case (Cons u vs)
  let ?s = "\<lparr>buf_list = [], buf = [], is_first = True\<rparr>"
  from assms Cons have "foldE kreader_line (fst u # snd u) ?s = Inr \<lparr>buf_list = [], buf = unit_text u, is_first = False\<rparr>"
    by (subst kreader_unit) (auto simp: unit_ok_def)
  then have "foldE kreader_line (concat (map (\<lambda>u. fst u # snd u) us)) ?s =
      foldE kreader_line (concat (map (\<lambda>u. fst u # snd u) vs)) \<lparr>buf_list = [], buf = unit_text u, is_first = False\<rparr>"
    by (simp del: foldE.simps add: Cons foldE_append flip: append_Cons)
  also have "\<dots> = Inr \<lparr>buf_list = butlast (map unit_text us), buf = last (map unit_text us), is_first = False\<rparr>"
    using assms by (subst kreader_units) (simp_all add: Cons)
  finally show ?thesis by (simp add: kreader_normalize_def map_butlast comp_def)
qed

theorem kreader_last_unit_lost_witness:
  "kreader_normalize (concat (map (\<lambda>u. fst u # snd u)
      [(''a/../b.o'', [''  CONFIG_B, 1,'']), (''c.o CONFIG_C'', [])])) =
    Inr (concat (map (\<lambda>u. unit_lines (unit_text u)) (butlast [(''a/../b.o'', [''  CONFIG_B, 1,'']), (''c.o CONFIG_C'', [])])))"
  by (rule kreader_last_unit_lost) code_simp

subsection \<open>The other filters\<close>

lemma func_line_words:
  assumes "word a" and "word b"
  shows "func_line (a @ '' '' @ b) t = Inr (dl_add b a t)"
proof -
  have "rstrip (a @ '' '' @ b) = a @ '' '' @ b" using assms by (intro rstrip_id) (auto dest: word_last)
  moreover have "split_ws (a @ '' '' @ b) = [a, b]" using split_ws_words [of a "[b]"] assms by simp
  ultimately show ?thesis by (simp add: func_line_def)
qed

text \<open>Each function is printed once, with its first bitcode object, else its first object.\<close>

lemma uniq_funcs_exact:
  assumes "word_pairs ps"
  shows "\<exists>fs. uniq_funcs (map pair_line ps) =
      Inr (map (\<lambda>f. pick_obj (map fst (filter (\<lambda>p. snd p = f) ps)) @ '' '' @ f) fs) \<and>
    distinct fs \<and> set fs = snd ` set ps"
proof -
  let ?g = "group_pairs (map prod.swap ps)"
  have "foldE func_line (map pair_line qs) t = Inr (fold (\<lambda>(k, v). dl_add k v) (map prod.swap qs) t)"
    if "word_pairs qs" for qs t
    using that
  proof (induction qs arbitrary: t)
    case (Cons q qs)
    then show ?case using func_line_words [of "fst q" "snd q" t]
      by (auto simp: word_pairs_def pair_line_def split_beta)
  qed simp
  from this [OF assms] have "uniq_funcs (map pair_line ps) = Inr (map (\<lambda>(func, objs). pick_obj objs @ '' '' @ func) ?g)"
    by (simp add: uniq_funcs_def group_pairs_def)
  moreover have "snd e = map fst (filter (\<lambda>p. snd p = fst e) ps)" if "e \<in> set ?g" for e
  proof -
    have "dd_get ?g (fst e) = snd e"
      using map_of_is_SomeI [OF distinct_group [of "map prod.swap ps"], of "fst e" "snd e"] that by (simp add: dd_get_def)
    then show ?thesis by (simp add: dd_get_group filter_map comp_def)
  qed
  then have "map (\<lambda>e. pick_obj (snd e) @ '' '' @ fst e) ?g =
      map (\<lambda>e. pick_obj (map fst (filter (\<lambda>p. snd p = fst e) ps)) @ '' '' @ fst e) ?g"
    by (intro map_cong refl) (simp only:)
  then have "map (\<lambda>(func, objs). pick_obj objs @ '' '' @ func) ?g =
      map (\<lambda>f. pick_obj (map fst (filter (\<lambda>p. snd p = f) ps)) @ '' '' @ f) (map fst ?g)"
    by (simp add: split_beta comp_def)
  moreover have "distinct (map fst ?g)" by (rule distinct_group)
  moreover have "set (map fst ?g) = snd ` set ps" using keys_group [of "map prod.swap ps"] by (simp add: image_image)
  ultimately show ?thesis by (intro exI [of _ "map fst ?g"]) (simp only: simp_thms)
qed

lemma builtin_line_dir:
  assumes "slash \<notin> set obj" and "obj \<noteq> []"
  shows "builtin_line (d @ ''/built-in.a'') (obj @ ''/'') = [d @ ''/'' @ obj]"
proof -
  have "split_char slash (obj @ ''/'') = [obj, []]" using split_char_append [OF assms(1), of "[]"] by simp
  moreover have "split_char slash (d @ ''/built-in.a'') = split_char slash d @ [''built-in.a'']"
    by (induction d) (auto split: list.split)
  moreover have "rstrip (obj @ ''/'') = obj @ ''/''" by (rule rstrip_id) (simp_all add: is_space_def)
  ultimately show ?thesis by (simp add: builtin_line_def join_split_char)
qed

text \<open>The name printed for a module is one character, the dot of \<open>.ko\<close>, not the name without \<open>.ko\<close>.\<close>

lemma get_mod_init_one_char:
  assumes "get_mod_init path symtbl = Inr line" and "endswith path ''.ko''"
  shows "startswith line [CHR ''.'', CHR 0x09]"
proof -
  from assms(2) obtain d where p: "path = d @ ''.ko''" by (auto simp: endswith_suffix suffix_def)
  then have "\<exists>b. basename path = b @ ''.ko''" by (simp add: basename_def)
  then have "from_end 3 (basename path) = Inr (CHR ''.'')" by (auto simp: from_end_def nth_append)
  with assms(1) show ?thesis
    by (auto simp: get_mod_init_def Let_def bindE_Inr_iff split: option.splits)
qed

end
