(* ===== verification/Workers.thy ===== *)
theory Workers
  imports CompUnit
begin

section \<open>Scripts with worker processes\<close>

text \<open>
  The scripts \<open>get-build-deps.py\<close>, \<open>get-obj-kconf-expr.py\<close> and \<open>batch-opt-pass.py\<close> have one shape:
  \<open>load_configs\<close> fills global variables from the arguments, \<open>main\<close> gives the work to
  \<open>multiprocessing.Pool\<close> and prints what comes back. The arguments as \<open>argparse\<close> leaves them are a
  record; a worker runs its commands in order, different workers in any order, and \<open>pool.join()\<close>
  waits for all of them.
\<close>

subsection \<open>load_configs\<close>

text \<open>
  A statement of \<open>load_configs\<close> changes the globals and goes on, returns \<open>False\<close>, or raises. The whole
  body is in a \<open>try\<close> whose handler prints the exception: the comparison \<open>err == "Really Bad"\<close>
  of an exception and a string is never true, so it is not raised again, and \<open>True\<close> is returned.
\<close>

datatype flow = Go | Quit | Raise py_exc

type_synonym 's stmt = "'s \<Rightarrow> 's \<times> flow"

fun block :: "'s stmt list \<Rightarrow> 's stmt" where
  "block [] s = (s, Go)"
| "block (m # ms) s = (case m s of (s', Go) \<Rightarrow> block ms s' | (s', f) \<Rightarrow> (s', f))"

definition try_load :: "'s stmt \<Rightarrow> 's \<Rightarrow> 's \<times> bool" where
  "try_load m s = (case m s of (s', Quit) \<Rightarrow> (s', False) | (s', f) \<Rightarrow> (s', True))"

record host =
  h_fs :: fsys
  h_realpath :: "str \<Rightarrow> str"
  h_cwd :: str

record globals =
  nworkers :: int

definition assign :: "('s \<Rightarrow> 's) \<Rightarrow> 's stmt" where
  "assign f s = (f s, Go)"

definition need :: "host \<Rightarrow> str \<Rightarrow> 's stmt" where
  "need h p s = (s, if fs_exists (h_fs h) p then Go else Quit)"

definition set_workers :: "str option \<Rightarrow> 'a globals_scheme stmt" where
  "set_workers w s = (case w of None \<Rightarrow> (s, Go)
     | Some t \<Rightarrow> (case int10 t of Inl e \<Rightarrow> (s, Raise e) | Inr n \<Rightarrow> (s\<lparr>nworkers := n\<rparr>, Go)))"

definition each_line :: "host \<Rightarrow> str \<Rightarrow> (str \<Rightarrow> 's \<Rightarrow> 's) \<Rightarrow> 's stmt" where
  "each_line h p f s = (case read_text (h_fs h) p of Inl e \<Rightarrow> (s, Raise e) | Inr t \<Rightarrow> (fold f (file_lines t) s, Go))"

text \<open>An argument that may be left out.\<close>

definition given :: "'a option \<Rightarrow> ('a \<Rightarrow> 's stmt) \<Rightarrow> 's stmt" where
  "given x m = (case x of None \<Rightarrow> block [] | Some y \<Rightarrow> m y)"

text \<open>
  After an exception the globals are those of the statements before it, and the script goes on. Nothing
  behind the statement that raised is done.
\<close>

lemma block_append: "block (ms @ ns) s = (case block ms s of (s', Go) \<Rightarrow> block ns s' | (s', f) \<Rightarrow> (s', f))"
  by (induction ms arbitrary: s) (auto split: prod.splits flow.splits)

lemma try_load_raise:
  assumes "block pre s = (s1, Go)" and "m s1 = (s2, Raise e)"
  shows "try_load (block (pre @ m # post)) s = (s2, True)"
  using assms by (simp add: try_load_def block_append)

lemma set_workers_bad: "int10 t = Inl e \<Longrightarrow> set_workers (Some t) s = (s, Raise e)"
  by (simp add: set_workers_def)

subsection \<open>get-builtin-objs.py\<close>

text \<open>\<open>found k\<close> is what \<open>find <k> -name built-in.a\<close> prints.\<close>

definition go_load :: "host \<Rightarrow> str \<Rightarrow> str stmt" where
  "go_load h kernel_arg = block
     [assign (\<lambda>_. h_realpath h kernel_arg),
      need h (h_realpath h kernel_arg)]"

definition go_main :: "(str \<Rightarrow> str) \<Rightarrow> host \<Rightarrow> str \<Rightarrow> str list \<times> nat" where
  "go_main found h kernel_arg = (case try_load (go_load h kernel_arg) [] of
       (kernel_path, False) \<Rightarrow> ([], 1)
     | (kernel_path, True) \<Rightarrow> builtin_objs (h_fs h) (split_ws (found kernel_path)))"

lemma builtin_objs_read:
  "builtin_objs fs bs =
     (concat (map (\<lambda>b. concat (map (builtin_line b) (lines_of (the (fs_text fs b)))))
        (takeWhile (\<lambda>b. fs_text fs b \<noteq> None) bs)),
      if list_all (\<lambda>b. fs_text fs b \<noteq> None) bs then 0 else 1)"
  by (induction bs) (auto simp: read_text_def split: option.splits)

text \<open>The objects of the archives up to the first that cannot be read; that one makes the exit code 1.\<close>

lemma go_main_prints:
  assumes "fs_exists (h_fs h) (h_realpath h kernel_arg)"
    and "split_ws (found (h_realpath h kernel_arg)) = bs @ b # cs"
    and "list_all (\<lambda>b. fs_text (h_fs h) b \<noteq> None) bs" and "fs_text (h_fs h) b = None"
  shows "go_main found h kernel_arg =
    (concat (map (\<lambda>b. concat (map (builtin_line b) (lines_of (the (fs_text (h_fs h) b))))) bs), 1)"
proof -
  have "takeWhile (\<lambda>b. fs_text (h_fs h) b \<noteq> None) (bs @ b # cs) = bs"
    using assms(3,4) by (subst takeWhile_append2) (auto simp: list_all_iff)
  with assms show ?thesis
    by (simp add: go_main_def go_load_def try_load_def assign_def need_def builtin_objs_read)
qed

subsection \<open>get-build-deps.py\<close>

record gb_args =
  a_exprs :: str
  a_dotconfig :: str
  a_builtin :: "str option"
  a_workers :: "str option"

record gb_globals = globals +
  obj_kconf_expr_file :: str
  g_builtin_objs :: pyset
  g_dotconfigs :: pyset

definition gb_init :: gb_globals where
  "gb_init = \<lparr>nworkers = 1, obj_kconf_expr_file = [], g_builtin_objs = [], g_dotconfigs = []\<rparr>"

definition gb_load :: "host \<Rightarrow> gb_args \<Rightarrow> gb_globals stmt" where
  "gb_load h a = block
     [need h (a_exprs a),
      need h (a_dotconfig a),
      assign (\<lambda>g. g\<lparr>obj_kconf_expr_file := h_realpath h (a_exprs a)\<rparr>),
      set_workers (a_workers a),
      given (a_builtin a) (\<lambda>p. block
        [need h p,
         each_line h p (\<lambda>l g. g\<lparr>g_builtin_objs := List.insert (rstrip l) (g_builtin_objs g)\<rparr>)]),
      each_line h (a_dotconfig a) (\<lambda>l g. g\<lparr>g_dotconfigs := dotconfig_line l (g_dotconfigs g)\<rparr>)]"

text \<open>What \<open>main\<close> makes of the pairs: it prints them, or reports the exception and returns 1.\<close>

definition gb_finish :: "(str \<times> str) list res \<Rightarrow> str list \<times> nat" where
  "gb_finish r = (case r of Inl e \<Rightarrow> ([], 1) | Inr pairs \<Rightarrow> (map pair_line pairs, 0))"

definition gb_print :: "solver \<Rightarrow> gb_globals \<Rightarrow> str \<Rightarrow> str list \<times> nat" where
  "gb_print sat g exprs =
     (if nworkers g < 1 then ([], 1)
      else gb_finish (build_deps sat (load_exprs (g_builtin_objs g) (file_lines exprs)) (g_dotconfigs g)))"

definition gb_main :: "solver \<Rightarrow> host \<Rightarrow> gb_args \<Rightarrow> str list \<times> nat" where
  "gb_main sat h a = (case try_load (gb_load h a) gb_init of
       (g, False) \<Rightarrow> ([], 1)
     | (g, True) \<Rightarrow> (case read_text (h_fs h) (obj_kconf_expr_file g) of
         Inl e \<Rightarrow> ([], 1) | Inr exprs \<Rightarrow> gb_print sat g exprs))"

text \<open>The script with its worker processes: the outputs and exit codes of all its runs.\<close>

definition gb_runs :: "solver \<Rightarrow> host \<Rightarrow> gb_args \<Rightarrow> str list \<times> nat \<Rightarrow> bool" where
  "gb_runs sat h a out \<longleftrightarrow> (case try_load (gb_load h a) gb_init of
       (g, False) \<Rightarrow> out = ([], 1)
     | (g, True) \<Rightarrow> (case read_text (h_fs h) (obj_kconf_expr_file g) of
         Inl e \<Rightarrow> out = ([], 1)
       | Inr exprs \<Rightarrow>
           if nworkers g < 1 then out = ([], 1)
           else (\<exists>r. build_runs sat (load_exprs (g_builtin_objs g) (file_lines exprs)) (g_dotconfigs g) (nat (nworkers g)) r \<and>
                  out = gb_finish r)))"

lemma words_from_words: "word acc \<or> acc = [] \<Longrightarrow> w \<in> set (words_from acc s) \<Longrightarrow> word w"
  by (induction acc s rule: words_from.induct) (auto simp: word_def split: if_splits)

lemma split_ws_word: "w \<in> set (split_ws s) \<Longrightarrow> word w"
  using words_from_words [of "[]" w s] by (simp add: split_ws_def)

lemma split_str_chars: "w \<in> set (split_str sep s) \<Longrightarrow> c \<in> set w \<Longrightarrow> c \<in> set s"
proof (induction sep s arbitrary: w rule: split_str.induct)
  case (2 sep d ds)
  show ?case
  proof (cases "sep \<noteq> [] \<and> startswith (d # ds) sep")
    case True
    with 2(3) 2(1) [OF True, of w] 2(4) show ?thesis by (auto dest: in_set_dropD)
  next
    case False
    show ?thesis
    proof (cases "split_str sep ds")
      case (Cons v vs)
      with False 2(3,4) 2(2) [OF False, of v] 2(2) [OF False, of w] show ?thesis by auto
    qed (use False 2(3,4) in auto)
  qed
qed simp

lemma join_with_chars: "c \<in> set (join_with sep ws) \<Longrightarrow> c \<in> set sep \<or> (\<exists>w \<in> set ws. c \<in> set w)"
  by (induction sep ws rule: join_with.induct) auto

lemma split_str_single: "split_str sep s = [] \<or> split_str sep s = [w] \<Longrightarrow> split_str sep s = [s]"
proof (induction sep s arbitrary: w rule: split_str.induct)
  case (2 sep d ds)
  have ne: "split_str sep s \<noteq> []" for s by (cases s) (auto split: list.splits)
  from 2 ne show ?case by (auto split: if_splits list.splits)
qed simp

lemma replaced_word:
  assumes "word w" and "word new"
  shows "word (join_with new (split_str old w))"
proof -
  have "list_all (\<lambda>c. \<not> is_space c) (join_with new (split_str old w))"
    using assms by (auto simp: word_def list_all_iff dest!: join_with_chars split_str_chars)
  moreover have "join_with new (split_str old w) \<noteq> []"
  proof (cases "(new, split_str old w)" rule: join_with.cases)
    case (3 sep x y ys)
    with assms(2) show ?thesis by (auto simp: word_def)
  qed (use assms(1) split_str_single [of old w] in \<open>auto simp: word_def\<close>)
  ultimately show ?thesis by (simp add: word_def)
qed

lemma load_exprs_words: "obj \<in> fst ` set (obj_kcvars (load_exprs builtin ls)) \<Longrightarrow> word obj"
proof -
  let ?P = "\<lambda>kc. \<forall>obj \<in> fst ` set (obj_kcvars kc). word obj"
  have step: "?P (expr_line builtin l kc)" if kc: "?P kc" for l kc
  proof (cases "split_ws (rstrip l)")
    case (Cons o' cs)
    note o' = Cons
    let ?o = "join_with ''64'' (split_str ''$(BITS)'' o')"
    from Cons have "word ?o"
      by (intro replaced_word split_ws_word [of o' "rstrip l"]) (simp_all add: word_def is_space_def)
    moreover have "obj_kcvars (expr_line builtin l kc) = obj_kcvars kc \<or>
        (\<exists>ns. obj_kcvars (expr_line builtin l kc) = AList.update ?o ns (obj_kcvars kc))"
    proof (cases cs)
      case (Cons c cs')
      show ?thesis unfolding expr_line_def o' Cons Let_def list.case by (simp split: if_split) blast
    qed (simp add: expr_line_def o')
    ultimately show ?thesis using kc by (elim disjE exE) (simp_all only: dom_update, auto)
  qed (use kc in \<open>simp add: expr_line_def\<close>)
  have "?P (load_exprs builtin ls)"
    unfolding load_exprs_def by (rule fold_keeps [where P = ?P]) (simp, rule step)
  then show "obj \<in> fst ` set (obj_kcvars (load_exprs builtin ls)) \<Longrightarrow> word obj" by blast
qed

lemma build_deps_words: "build_deps sat (load_exprs builtin ls) dotconfigs = Inr ps \<Longrightarrow> word_pairs ps"
proof -
  assume "build_deps sat (load_exprs builtin ls) dotconfigs = Inr ps"
  from set_build_deps [OF refl this] show ?thesis
    using load_exprs_words [of _ builtin ls] by (auto simp: word_pairs_def list_all_iff kept_objs_def image_iff)
qed

subsection \<open>From the configuration to the analysis\<close>

definition kept_deps :: "solver \<Rightarrow> gb_globals \<Rightarrow> str \<Rightarrow> (str \<times> str) set" where
  "kept_deps sat g exprs = (let kc = load_exprs (g_builtin_objs g) (file_lines exprs) in
     {(a, b). a \<in> kept_objs sat kc (g_dotconfigs g) \<and> b \<in> kept_objs sat kc (g_dotconfigs g) \<and> a < b \<and>
       candidate kc a b \<and> build_dep sat kc (g_dotconfigs g) a b = Inr True})"

lemma gb_main_load:
  assumes "try_load (gb_load h a) gb_init = (g, True)"
    and "read_text (h_fs h) (obj_kconf_expr_file g) = Inr exprs"
  shows "gb_main sat h a = gb_print sat g exprs"
  using assms by (simp add: gb_main_def)

text \<open>
  C17: the workers of \<open>get-build-deps.py\<close> do not show: with any number of them, however their steps and the
  results they send are interleaved, the script ends, prints the same lines in the same order and
  exits with the same code as when it maps one element after the other.
\<close>

theorem workers_do_not_show: "gb_runs sat h a out \<longleftrightarrow> out = gb_main sat h a"
proof -
  have same: "(\<exists>r. run r \<and> out = gb_finish r) \<longleftrightarrow> out = gb_finish x" if "runs_as run x" for run x
  proof (cases x)
    case (Inl e)
    with that obtain e' where "run (Inl e')" by (auto simp: runs_as_def)
    with that Inl show ?thesis by (auto simp: runs_as_def gb_finish_def)
  qed (use that in \<open>auto simp: runs_as_def\<close>)
  show ?thesis
  proof (cases "try_load (gb_load h a) gb_init")
    case (Pair g ok)
    have "runs_as (build_runs sat kc (g_dotconfigs g) (nat (nworkers g))) (build_deps sat kc (g_dotconfigs g))"
      if "\<not> nworkers g < 1" for kc
      using that by (intro build_runs_as) simp
    with same show ?thesis
      by (auto simp: gb_runs_def gb_main_def gb_print_def Pair split: bool.splits sum.splits)
  qed
qed

text \<open>
  C37: what \<open>get-build-deps.py\<close> finds reaches the analysis: its lines are accepted by \<open>gen-dep.py\<close>, and
  the file made of that output, in whatever order \<open>sort\<close> and \<open>uniq\<close> leave it, is read by
  \<open>load_btobj_deps\<close> into a table that gives for an object of the build exactly the objects that have
  it as a dependency: the kept objects with a smaller name and all its options that imply it.
\<close>

theorem build_deps_reach_analysis:
  assumes "try_load (gb_load h a) gb_init = (g, True)"
    and "read_text (h_fs h) (obj_kconf_expr_file g) = Inr exprs" and "snd (gb_main sat h a) = 0"
  shows "\<exists>out. gen_dep (fst (gb_main sat h a)) = Inr out \<and>
    (\<forall>(fs :: fsys) p ls linux_build. set ls = set out \<and> fs_text fs p = Some (join_with [CHR 0x0A] ls) \<longrightarrow>
      (\<exists>t. load_btobj_deps fs linux_build p = Inr t \<and>
        (\<forall>k. set (dd_get t k) = {built_name linux_build u | u v. (u, v) \<in> kept_deps sat g exprs \<and>
          k = built_name linux_build v})))"
proof -
  from gb_main_load [OF assms(1,2)] assms(3) obtain pairs where
    built: "build_deps sat (load_exprs (g_builtin_objs g) (file_lines exprs)) (g_dotconfigs g) = Inr pairs"
    and main: "fst (gb_main sat h a) = map pair_line pairs"
    by (auto simp: gb_print_def gb_finish_def split: if_splits sum.splits)
  have ps: "set pairs = kept_deps sat g exprs"
    unfolding kept_deps_def Let_def by (rule set_build_deps [OF refl built])
  obtain out where out: "gen_dep (map pair_line pairs) = Inr out"
    using gen_dep_pairs [OF build_deps_words [OF built]] by blast
  show ?thesis
  proof (intro exI [of _ out] conjI allI impI)
    show "gen_dep (fst (gb_main sat h a)) = Inr out" using main out by simp
    fix fs :: fsys and p ls linux_build assume f: "set ls = set out \<and> fs_text fs p = Some (join_with [CHR 0x0A] ls)"
    obtain t where t: "load_btobj_deps fs linux_build p = Inr t"
      and get: "\<forall>k. set (dd_get t k) = {v. (k, v) \<in> set (built_pairs linux_build pairs)}"
      using btobj_deps_read [OF build_deps_words [OF built] out f [THEN conjunct1] f [THEN conjunct2]] by blast
    have "{v. (k, v) \<in> set (built_pairs linux_build pairs)} = {built_name linux_build u | u v.
        (u, v) \<in> kept_deps sat g exprs \<and> k = built_name linux_build v}" for k
      unfolding built_pairs_def set_map ps by auto
    with t get show "\<exists>t. load_btobj_deps fs linux_build p = Inr t \<and>
        (\<forall>k. set (dd_get t k) = {built_name linux_build u | u v. (u, v) \<in> kept_deps sat g exprs \<and>
          k = built_name linux_build v})" by simp
  qed
qed

text \<open>
  C38: a worker number that is no number is not refused: the exception ends \<open>load_configs\<close> before the
  list of built-in objects and the configuration of the kernel are read, and the script ends as if
  all objects were asked for and every option of the kernel were off. (The witness exits with 0.)
\<close>

theorem bad_worker_number:
  assumes "fs_exists (h_fs h) (a_exprs a)" and "fs_exists (h_fs h) (a_dotconfig a)"
    and "a_workers a = Some w" and "int10 w = Inl e"
    and "read_text (h_fs h) (h_realpath h (a_exprs a)) = Inr exprs"
  shows "gb_main sat h a = gb_finish (build_deps sat (load_exprs [] (file_lines exprs)) [])"
proof -
  let ?g = "gb_init\<lparr>obj_kconf_expr_file := h_realpath h (a_exprs a)\<rparr>"
  let ?pre = "[need h (a_exprs a), need h (a_dotconfig a),
      assign (\<lambda>g. g\<lparr>obj_kconf_expr_file := h_realpath h (a_exprs a)\<rparr>)]"
  have "block ?pre gb_init = (?g, Go)" using assms(1,2) by (simp add: need_def assign_def)
  moreover have "set_workers (a_workers a) ?g = (?g, Raise e)" using assms(3,4) by (simp add: set_workers_bad)
  ultimately have "try_load (block (?pre @ set_workers (a_workers a) # post)) gb_init = (?g, True)" for post
    by (rule try_load_raise)
  then have "try_load (gb_load h a) gb_init = (?g, True)" by (simp only: gb_load_def append.simps)
  then show ?thesis using assms(5) by (simp add: gb_main_load gb_print_def gb_init_def)
qed

definition demo_text :: "str \<Rightarrow> str option" where
  "demo_text p =
     (if p = ''/w/exprs'' then Some (''b.o CONFIG_A'' @ [CHR 0x0A] @ ''a.o And(CONFIG_A, CONFIG_B)'' @ [CHR 0x0A])
      else if p = ''config'' then Some (''# x'' @ [CHR 0x0A] @ ''CONFIG_A=y'' @ [CHR 0x0A] @ ''CONFIG_B=m'')
      else if p = ''builtin.dep'' then Some ''a.o: b.o''
      else None)"

definition demo_host :: host where
  "demo_host = \<lparr>h_fs = \<lparr>fs_walk = \<lambda>_. [], fs_exists = \<lambda>p. p = ''exprs'' \<or> p = ''config'', fs_text = demo_text\<rparr>,
     h_realpath = \<lambda>p. ''/w/'' @ p, h_cwd = ''/w''\<rparr>"

definition demo_args :: "str option \<Rightarrow> gb_args" where
  "demo_args w = \<lparr>a_exprs = ''exprs'', a_dotconfig = ''config'', a_builtin = None, a_workers = w\<rparr>"

definition demo_globals :: gb_globals where
  "demo_globals = fst (try_load (gb_load demo_host (demo_args (Some ''8''))) gb_init)"

definition demo_sat :: solver where
  "demo_sat e asg = Inr (list_all snd asg)"

lemma demo_run: "gb_main demo_sat demo_host (demo_args (Some ''8'')) = ([''a.o b.o''], 0)"
  by code_simp

theorem build_deps_reach_analysis_witness:
  "\<exists>t. load_btobj_deps (h_fs demo_host) ''/b'' ''builtin.dep'' = Inr t \<and>
    (\<forall>k. set (dd_get t k) = {built_name ''/b'' u | u v.
       (u, v) \<in> kept_deps demo_sat demo_globals (the (demo_text ''/w/exprs'')) \<and> k = built_name ''/b'' v})"
proof -
  have "try_load (gb_load demo_host (demo_args (Some ''8''))) gb_init = (demo_globals, True)"
    unfolding demo_globals_def prod_eq_iff by simp code_simp
  moreover have "read_text (h_fs demo_host) (obj_kconf_expr_file demo_globals) = Inr (the (demo_text ''/w/exprs''))"
    by code_simp
  moreover have "snd (gb_main demo_sat demo_host (demo_args (Some ''8''))) = 0" by (simp add: demo_run)
  ultimately obtain out where out: "gen_dep (fst (gb_main demo_sat demo_host (demo_args (Some ''8'')))) = Inr out"
    and read: "\<And>fs :: fsys. \<And>p ls linux_build. set ls = set out \<and> fs_text fs p = Some (join_with [CHR 0x0A] ls) \<Longrightarrow>
      \<exists>t. load_btobj_deps fs linux_build p = Inr t \<and> (\<forall>k. set (dd_get t k) = {built_name linux_build u | u v.
       (u, v) \<in> kept_deps demo_sat demo_globals (the (demo_text ''/w/exprs'')) \<and> k = built_name linux_build v})"
    using build_deps_reach_analysis by blast
  have "gen_dep [''a.o b.o''] = Inr [''a.o: b.o'']" by code_simp
  with out have "out = [''a.o: b.o'']" by (simp add: demo_run)
  then show ?thesis by (intro read [of out]) (simp add: demo_host_def demo_text_def)
qed

theorem bad_worker_number_witness:
  "gb_main demo_sat demo_host (demo_args (Some ''all'')) = ([], 0) \<and>
    gb_main demo_sat demo_host (demo_args (Some ''all'')) \<noteq> gb_main demo_sat demo_host (demo_args (Some ''8''))"
proof -
  have "gb_main demo_sat demo_host (demo_args (Some ''all'')) =
    gb_finish (build_deps demo_sat (load_exprs [] (file_lines (the (demo_text ''/w/exprs'')))) [])"
  proof (rule bad_worker_number)
  show "a_workers (demo_args (Some ''all'')) = Some ''all''" by (simp add: demo_args_def)
  show "int10 ''all'' = Inl ValueError" by code_simp
  qed (simp_all add: demo_host_def demo_args_def read_text_def demo_text_def)
  moreover have "gb_finish (build_deps demo_sat (load_exprs [] (file_lines (the (demo_text ''/w/exprs'')))) []) = ([], 0)"
    by code_simp
  ultimately show ?thesis by (simp add: demo_run)
qed

end
