(* ===== verification/Batch.thy ===== *)
theory Batch
  imports Workers
begin

section \<open>Running tools over the kernel: get-obj-kconf-expr.py and batch-opt-pass.py\<close>

text \<open>
  Both scripts make shell commands. A command is the directory it runs in and its text; a run of a
  script is the sequence of its commands: those before the pool, those of the workers, each worker in
  its order and different workers interleaved in any way, and those after \<open>pool.join()\<close>. Paths that
  \<open>os.path.exists\<close> accepts are taken to be directories where the scripts change into them.
\<close>

type_synonym cmd = "str \<times> str"

record script =
  before :: "cmd list"
  workers :: "cmd list list"
  after :: "cmd list"
  exit_code :: nat

fun interleavings :: "'a list list \<Rightarrow> 'a list set" where
  "interleavings [] = {[]}"
| "interleavings (w # ws) = (\<Union>t \<in> interleavings ws. shuffles w t)"

definition runs :: "script \<Rightarrow> cmd list set" where
  "runs s = {before s @ t @ after s | t. t \<in> interleavings (workers s)}"

definition quoted :: "str \<Rightarrow> str" where
  "quoted s = [CHR 0x27] @ s @ [CHR 0x27]"

text \<open>The end \<open>{} \;\<close> of an \<open>-exec\<close> of \<open>find\<close>.\<close>

definition each :: str where
  "each = '' {} '' @ [CHR 0x5C] @ '';''"

subsection \<open>get-obj-kconf-expr.py\<close>

definition kmax_dirs :: "str list" where
  "kmax_dirs = [''arch/x86'', ''block'', ''certs'', ''drivers'', ''fs'', ''init'', ''io_uring'', ''ipc'', ''kernel'',
     ''lib'', ''mm'', ''net'', ''security'', ''sound'', ''usr'', ''virt'']"

record ok_args =
  o_kernel :: str
  o_output :: "str option"
  o_workers :: "str option"

record ok_globals = globals +
  kernel_path :: str
  output_path :: str

definition ok_init :: ok_globals where
  "ok_init = \<lparr>nworkers = 1, kernel_path = [], output_path = []\<rparr>"

definition set_output :: "host \<Rightarrow> str option \<Rightarrow> ok_globals stmt" where
  "set_output h out g = (case out of
       None \<Rightarrow> (g\<lparr>output_path := h_cwd h @ ''/out''\<rparr>, Go)
     | Some [] \<Rightarrow> (g, Raise IndexError)
     | Some (c # p) \<Rightarrow> (g\<lparr>output_path := if c = slash then c # p else h_cwd h @ ''/'' @ c # p\<rparr>, Go))"

definition ok_load :: "host \<Rightarrow> ok_args \<Rightarrow> ok_globals stmt" where
  "ok_load h a = block
     [assign (\<lambda>g. g\<lparr>kernel_path := h_realpath h (o_kernel a)\<rparr>),
      need h (h_realpath h (o_kernel a)),
      set_output h (o_output a),
      set_workers (o_workers a)]"

definition mkdir_cmd :: "host \<Rightarrow> ok_globals \<Rightarrow> str \<Rightarrow> cmd" where
  "mkdir_cmd h g d = (h_cwd h, ''mkdir -p '' @ output_path g @ ''/'' @ d)"

definition kmaxall_cmd :: "host \<Rightarrow> ok_globals \<Rightarrow> str \<Rightarrow> cmd list" where
  "kmaxall_cmd h g d =
     [(kernel_path g, ''kmaxall -B '' @ d @ '' > '' @ output_path g @ ''/'' @ d @ ''/kmax''),
      (h_cwd h, ''kreader --kmax-formulas '' @ output_path g @ ''/'' @ d @ ''/kmax --show-constraints > '' @
         output_path g @ ''/'' @ d @ ''/kmax.out'')]"

definition collect_cmd :: "host \<Rightarrow> str \<Rightarrow> ok_globals \<Rightarrow> cmd" where
  "collect_cmd h script_dir g = (h_cwd h, ''find '' @ output_path g @ '' -name '' @ quoted ''kmax.out'' @ '' -exec cat'' @ each @
     '' | '' @ script_dir @ ''/kreader-normalize.py | sort | uniq'')"

definition ok_main :: "host \<Rightarrow> str \<Rightarrow> ok_args \<Rightarrow> script" where
  "ok_main h script_dir a = (case try_load (ok_load h a) ok_init of
       (g, False) \<Rightarrow> \<lparr>before = [], workers = [], after = [], exit_code = 1\<rparr>
     | (g, True) \<Rightarrow>
         if nworkers g < 1 then \<lparr>before = map (mkdir_cmd h g) kmax_dirs, workers = [], after = [], exit_code = 1\<rparr>
         else \<lparr>before = map (mkdir_cmd h g) kmax_dirs, workers = map (kmaxall_cmd h g) kmax_dirs,
                after = [collect_cmd h script_dir g], exit_code = 0\<rparr>)"

subsection \<open>batch-opt-pass.py\<close>

record bo_args =
  b_kernel :: str
  b_object :: str
  b_name :: str
  b_list :: "str option"
  b_workers :: "str option"

record bo_globals = globals +
  g_kernel :: str
  pass_object :: str
  pass_name :: str
  bcs :: "str list"

definition bo_init :: bo_globals where
  "bo_init = \<lparr>nworkers = 1, g_kernel = [], pass_object = [], pass_name = [], bcs = []\<rparr>"

definition bo_load :: "host \<Rightarrow> bo_args \<Rightarrow> bo_globals stmt" where
  "bo_load h a = block
     [assign (\<lambda>g. g\<lparr>g_kernel := h_realpath h (b_kernel a)\<rparr>),
      need h (h_realpath h (b_kernel a)),
      assign (\<lambda>g. g\<lparr>pass_object := h_realpath h (b_object a)\<rparr>),
      need h (h_realpath h (b_object a)),
      assign (\<lambda>g. g\<lparr>pass_name := b_name a\<rparr>),
      given (b_list a) (\<lambda>p. block
        [need h p,
         each_line h p (\<lambda>l g. g\<lparr>bcs := bcs g @ [rstrip l]\<rparr>)]),
      set_workers (b_workers a)]"

definition opt_cmd :: "host \<Rightarrow> bo_globals \<Rightarrow> str \<Rightarrow> cmd list" where
  "opt_cmd h g bc = [(h_cwd h, ''opt -load '' @ pass_object g @ '' -enable-new-pm=0 --'' @ pass_name g @
     '' -o /dev/null '' @ bc @ '' 2>'' @ bc @ ''.out'')]"

definition find_cmd :: "host \<Rightarrow> bo_globals \<Rightarrow> str \<Rightarrow> str \<Rightarrow> cmd" where
  "find_cmd h g name act = (h_cwd h, ''find '' @ g_kernel g @ '' -name '' @ quoted name @ '' -exec '' @ act @ each)"

text \<open>\<open>found\<close> is what \<open>find <kernel> -name '*.bc' -o -name '*.bcmerged'\<close> prints.\<close>

definition bo_main :: "host \<Rightarrow> str \<Rightarrow> bo_args \<Rightarrow> script" where
  "bo_main h found a = (case try_load (bo_load h a) bo_init of
       (g, False) \<Rightarrow> \<lparr>before = [], workers = [], after = [], exit_code = 1\<rparr>
     | (g, True) \<Rightarrow>
         if nworkers g < 1 then \<lparr>before = [], workers = [], after = [], exit_code = 1\<rparr>
         else \<lparr>before = [],
                workers = map (opt_cmd h g) (if bcs g = [] then split_ws found else bcs g),
                after = [find_cmd h g ''*.bc.out'' ''cat'', find_cmd h g ''*.bcmerged.out'' ''cat'',
                         find_cmd h g ''*.bc.out'' ''rm -f'', find_cmd h g ''*.bcmerged.out'' ''rm -f''],
                exit_code = 0\<rparr>)"

subsection \<open>The order of the commands\<close>

lemma shuffles_subseq: "zs \<in> shuffles xs ys \<Longrightarrow> subseq xs zs \<and> subseq ys zs"
proof (induction zs arbitrary: xs ys)
  case (Cons z zs)
  then consider xs' where "xs = z # xs'" "zs \<in> shuffles xs' ys" | ys' where "ys = z # ys'" "zs \<in> shuffles xs ys'"
    by (auto simp: Cons_in_shuffles_iff neq_Nil_conv)
  then show ?case using Cons.IH by cases (auto intro: list_emb_Cons)
qed auto

lemma interleavings_subseq: "t \<in> interleavings ws \<Longrightarrow> w \<in> set ws \<Longrightarrow> subseq w t"
proof (induction ws arbitrary: t)
  case (Cons v ws)
  then obtain t' where "t' \<in> interleavings ws" "t \<in> shuffles v t'" by auto
  with Cons shuffles_subseq [of t v t'] show ?case by (auto intro: subseq_order.trans)
qed simp

lemma interleavings_length: "t \<in> interleavings ws \<Longrightarrow> length t = sum_list (map length ws)"
  by (induction ws arbitrary: t) (auto dest: length_shuffles)

lemma runs_order:
  assumes "t \<in> runs s" and "b \<in> set (before s)" and "w \<in> set (workers s)"
  shows "subseq (b # w @ after s) t"
proof -
  from assms(1) obtain u where t: "t = before s @ u @ after s" and u: "u \<in> interleavings (workers s)" by (auto simp: runs_def)
  have "subseq [b] (before s)" using assms(2) by (simp add: subseq_singleton_left)
  moreover have "subseq w u" using u assms(3) by (rule interleavings_subseq)
  ultimately have "subseq ([b] @ w @ after s) t" unfolding t by (intro list_emb_append_mono) simp_all
  then show ?thesis by simp
qed

text \<open>
  Whatever order the workers run in, the formulas of a directory are made after its directory
  exists, read after they were made, and the output is collected after all of them were read; no
  command runs twice.
\<close>

theorem kmax_order:
  assumes "try_load (ok_load h a) ok_init = (g, True)" and "1 \<le> nworkers g"
    and "t \<in> runs (ok_main h script_dir a)" and "d \<in> set kmax_dirs"
  shows "subseq (mkdir_cmd h g d # kmaxall_cmd h g d @ [collect_cmd h script_dir g]) t \<and>
    length t = 3 * length kmax_dirs + 1"
proof -
  let ?s = "\<lparr>before = map (mkdir_cmd h g) kmax_dirs, workers = map (kmaxall_cmd h g) kmax_dirs,
    after = [collect_cmd h script_dir g], exit_code = 0\<rparr>"
  have main: "ok_main h script_dir a = ?s" using assms(1,2) by (simp add: ok_main_def)
  have "subseq (mkdir_cmd h g d # kmaxall_cmd h g d @ after ?s) t"
    by (rule runs_order) (use assms(3,4) main in simp_all)
  moreover have "sum_list (map length (map (kmaxall_cmd h g) kmax_dirs)) = 2 * length kmax_dirs"
    by (simp add: kmaxall_cmd_def comp_def sum_list_triv)
  then have "length t = 3 * length kmax_dirs + 1"
    using assms(3) unfolding main by (auto simp: runs_def dest!: interleavings_length)
  ultimately show ?thesis by simp
qed

text \<open>
  An output path that is given and empty: reading its first character raises, \<open>load_configs\<close> goes on,
  and the directories are made in the root of the file system.
\<close>

lemma kmax_empty_output:
  assumes "fs_exists (h_fs h) (h_realpath h (o_kernel a))" and "o_output a = Some []"
  shows "before (ok_main h script_dir a) = map (\<lambda>d. (h_cwd h, ''mkdir -p /'' @ d)) kmax_dirs \<and>
    exit_code (ok_main h script_dir a) = 0"
proof -
  let ?g = "ok_init\<lparr>kernel_path := h_realpath h (o_kernel a)\<rparr>"
  have "block [assign (\<lambda>g. g\<lparr>kernel_path := h_realpath h (o_kernel a)\<rparr>), need h (h_realpath h (o_kernel a))] ok_init = (?g, Go)"
    using assms(1) by (simp add: assign_def need_def)
  moreover have "set_output h (o_output a) ?g = (?g, Raise IndexError)" using assms(2) by (simp add: set_output_def)
  ultimately have "try_load (ok_load h a) ok_init = (?g, True)"
    using try_load_raise [of "[assign (\<lambda>g. g\<lparr>kernel_path := h_realpath h (o_kernel a)\<rparr>), need h (h_realpath h (o_kernel a))]"]
    by (simp only: ok_load_def append.simps)
  then show ?thesis by (simp add: ok_main_def ok_init_def mkdir_cmd_def)
qed

text \<open>Without a list of files, a file whose name holds a space is passed to \<open>opt\<close> in pieces.\<close>

lemma batch_name_split:
  assumes "try_load (bo_load h a) bo_init = (g, True)" and "1 \<le> nworkers g" and "bcs g = []"
    and "word u" and "word v"
  shows "workers (bo_main h (u @ '' '' @ v @ [CHR 0x0A]) a) = [opt_cmd h g u, opt_cmd h g v]"
proof -
  have "split_ws (u @ '' '' @ v @ [CHR 0x0A]) = [u, v]"
    using words_from_word [of u "[]" "'' '' @ v @ [CHR 0x0A]"] words_from_word [of v "[]" "[CHR 0x0A]"] assms(4,5)
    by (simp add: split_ws_def word_def is_space_def)
  with assms(1-3) show ?thesis by (simp add: bo_main_def)
qed

text \<open>With no list, every file found is worked on once, before anything is printed or removed.\<close>

lemma batch_all_files:
  assumes "try_load (bo_load h a) bo_init = (g, True)" and "1 \<le> nworkers g" and "bcs g = []"
    and "t \<in> runs (bo_main h found a)"
  shows "\<exists>u. t = u @ after (bo_main h found a) \<and> set u = {c. \<exists>bc \<in> set (split_ws found). c \<in> set (opt_cmd h g bc)} \<and>
    length u = length (split_ws found)"
proof -
  have set_inter: "u \<in> interleavings ws \<Longrightarrow> set u = (\<Union>w \<in> set ws. set w)" for u and ws :: "cmd list list"
    by (induction ws arbitrary: u) (auto dest: set_shuffles)
  obtain u where "t = u @ after (bo_main h found a)" and u: "u \<in> interleavings (map (opt_cmd h g) (split_ws found))"
    using assms by (auto simp: runs_def bo_main_def)
  moreover have "length u = length (split_ws found)"
    using interleavings_length [OF u] by (simp add: opt_cmd_def comp_def sum_list_triv)
  ultimately show ?thesis using set_inter [OF u] by (intro exI [of _ u]) auto
qed

definition demo_kmax :: ok_args where
  "demo_kmax = \<lparr>o_kernel = ''linux'', o_output = Some ''kmax'', o_workers = Some ''4''\<rparr>"

definition kmax_host :: host where
  "kmax_host = \<lparr>h_fs = \<lparr>fs_walk = \<lambda>_. [], fs_exists = \<lambda>p. p = ''/w/linux'', fs_text = \<lambda>_. None\<rparr>,
     h_realpath = \<lambda>p. ''/w/'' @ p, h_cwd = ''/w''\<rparr>"

definition kmax_globals :: ok_globals where
  "kmax_globals = \<lparr>nworkers = 4, kernel_path = ''/w/linux'', output_path = ''/w/kmax''\<rparr>"

lemma interleavings_concat: "concat ws \<in> interleavings ws"
proof (induction ws)
  case (Cons w ws)
  have "xs @ ys \<in> shuffles xs ys" for xs ys :: "'a list"
    by (induction xs) (auto intro: Cons_in_shuffles_leftI)
  with Cons show ?case by auto
qed simp

theorem kmax_order_witness:
  "subseq (mkdir_cmd kmax_host kmax_globals ''drivers'' # kmaxall_cmd kmax_host kmax_globals ''drivers'' @
       [collect_cmd kmax_host ''/h'' kmax_globals])
     (before (ok_main kmax_host ''/h'' demo_kmax) @ concat (workers (ok_main kmax_host ''/h'' demo_kmax)) @
       after (ok_main kmax_host ''/h'' demo_kmax)) \<and>
    length (before (ok_main kmax_host ''/h'' demo_kmax) @ concat (workers (ok_main kmax_host ''/h'' demo_kmax)) @
       after (ok_main kmax_host ''/h'' demo_kmax)) = 3 * length kmax_dirs + 1"
proof (rule kmax_order)
  show "try_load (ok_load kmax_host demo_kmax) ok_init = (kmax_globals, True)" by code_simp
  show "1 \<le> nworkers kmax_globals" by (simp add: kmax_globals_def)
  show "before (ok_main kmax_host ''/h'' demo_kmax) @ concat (workers (ok_main kmax_host ''/h'' demo_kmax)) @
      after (ok_main kmax_host ''/h'' demo_kmax) \<in> runs (ok_main kmax_host ''/h'' demo_kmax)"
    using interleavings_concat by (auto simp: runs_def)
qed (simp add: kmax_dirs_def)

end
