(* ===== verification/Pool.thy ===== *)
theory Pool
  imports PyPath
begin

section \<open>Building and linking bitcode: buildir.py and linkir.py\<close>

text \<open>
  \<open>kernel/buildir.py\<close> takes the clang command of each object from the \<open>.cmd\<close> files of a kernel build
  and runs it again to emit bitcode; \<open>kernel/linkir.py\<close> links the bitcode of each module and each
  \<open>built-in.a\<close>. Both start their commands through the same pool of processes. The first part of this
  theory is the text of the commands, the second the pool, as a step relation in which processes
  exit at any time: \<open>slots\<close> is the list \<open>pool\<close> of the scripts, \<open>todo\<close> what is left of the loop and
  \<open>phase\<close> the place in its body.
\<close>

type_synonym argv = "str list"

subsection \<open>shlex.split\<close>

text \<open>
  The states of the lexer: between words, in a word, inside a quote, after a backslash (with the
  state to go back to). \<open>quoted\<close> says that the word had a quote, so that an empty word counts.
\<close>

datatype lexstate = Blank | InWord | InQuote char | Escaped lexstate

abbreviation backslash :: char where "backslash \<equiv> CHR 0x5C"

definition is_quote :: "char \<Rightarrow> bool" where
  "is_quote c \<longleftrightarrow> c = CHR 0x22 \<or> c = CHR 0x27"

definition lex_space :: "char \<Rightarrow> bool" where
  "lex_space c \<longleftrightarrow> c = CHR '' '' \<or> c = CHR 0x09 \<or> c = CHR 0x0D \<or> c = CHR 0x0A"

fun lexer :: "lexstate \<Rightarrow> bool \<Rightarrow> str \<Rightarrow> str \<Rightarrow> argv res" where
  "lexer Blank quoted token [] = Inr []"
| "lexer InWord quoted token [] = Inr (if token = [] \<and> \<not> quoted then [] else [token])"
| "lexer (InQuote q) quoted token [] = Inl ValueError"
| "lexer (Escaped back) quoted token [] = Inl ValueError"
| "lexer Blank quoted token (c # cs) =
     (if lex_space c then lexer Blank False [] cs
      else if c = backslash then lexer (Escaped InWord) False [] cs
      else if is_quote c then lexer (InQuote c) False [] cs
      else lexer InWord False [c] cs)"
| "lexer InWord quoted token (c # cs) =
     (if lex_space c
      then (if token = [] \<and> \<not> quoted then lexer Blank False [] cs
            else bindE (lexer Blank False [] cs) (\<lambda>ws. Inr (token # ws)))
      else if is_quote c then lexer (InQuote c) quoted token cs
      else if c = backslash then lexer (Escaped InWord) quoted token cs
      else lexer InWord quoted (token @ [c]) cs)"
| "lexer (InQuote q) quoted token (c # cs) =
     (if c = q then lexer InWord True token cs
      else if c = backslash \<and> q = CHR 0x22 then lexer (Escaped (InQuote q)) True token cs
      else lexer (InQuote q) True (token @ [c]) cs)"
| "lexer (Escaped back) quoted token (c # cs) =
     lexer back quoted
       (token @ (case back of InQuote q \<Rightarrow> if c \<noteq> backslash \<and> c \<noteq> q then [backslash] else [] | _ \<Rightarrow> []) @ [c]) cs"

definition shlex_split :: "str \<Rightarrow> argv res" where
  "shlex_split s = lexer Blank False [] s"

subsection \<open>Commands: buildir.py\<close>

definition is_cmd_file :: "str \<Rightarrow> bool" where
  "is_cmd_file f \<longleftrightarrow> startswith f ''.'' \<and> endswith f ''.cmd''"

definition cmd_files :: "walk \<Rightarrow> str list" where
  "cmd_files w = map (\<lambda>(root, f). path_join root f) (filter (is_cmd_file \<circ> snd) (walk_files w))"

text \<open>\<open>line[line.find(' := ')+4:]\<close>, cut at the first semicolon.\<close>

definition cmd_text :: "str \<Rightarrow> str" where
  "cmd_text line =
     takeWhile (\<lambda>c. c \<noteq> CHR '';'') (drop (case find_str '' := '' line of None \<Rightarrow> 3 | Some i \<Rightarrow> i + 4) line)"

definition is_cmd_line :: "str \<Rightarrow> bool" where
  "is_cmd_line l \<longleftrightarrow> startswith l ''cmd_'' \<or> startswith l ''savedcmd''"

text \<open>The command of a \<open>.cmd\<close> file: its first command line, when it runs clang.\<close>

definition clang_cmd :: "str \<Rightarrow> str option res" where
  "clang_cmd data =
     (case find is_cmd_line (lines_of data) of
        None \<Rightarrow> Inr None
      | Some line \<Rightarrow>
          (case split_ws (cmd_text line) of
             [] \<Rightarrow> Inl IndexError
           | w # _ \<Rightarrow> Inr (if basename w = ''clang'' then Some (strip (cmd_text line)) else None)))"

definition build_cmds :: "fsys \<Rightarrow> str list \<Rightarrow> str dict res" where
  "build_cmds fs files = foldE (\<lambda>f cmds. bindE (read_text fs f) (\<lambda>data. bindE (clang_cmd data)
     (\<lambda>c. Inr (case c of None \<Rightarrow> cmds | Some cmd \<Rightarrow> AList.update f cmd cmds)))) files []"

definition bc_file :: "str \<Rightarrow> str" where
  "bc_file f = dirname f @ ''/'' @ drop 1 (chop 3 (basename f)) @ ''bc''"

definition ir_cmd :: "str \<times> str \<Rightarrow> argv res" where
  "ir_cmd fc = bindE (shlex_split (snd fc)) (\<lambda>cmd. Inr (cmd @ [''-emit-llvm'', ''-o'', bc_file (fst fc)]))"

definition buildir_cmds :: "fsys \<Rightarrow> str \<Rightarrow> argv res list res" where
  "buildir_cmds fs linux_build =
     bindE (build_cmds fs (cmd_files (fs_walk fs linux_build))) (\<lambda>cmds. Inr (map ir_cmd cmds))"

subsection \<open>Commands: linkir.py\<close>

text \<open>The objects an archive command lists: \<open>None\<close> when it is neither \<open>echo\<close> nor \<open>printf\<close>.\<close>

definition archive_objs :: "str \<Rightarrow> str list option res" where
  "archive_objs data = bindE (index (split_char (CHR '';'') data) 1) (\<lambda>c. let cmd = strip c;
       ws = split_ws (strip (hd (split_char (CHR ''|'') cmd)))
     in Inr (if startswith cmd ''echo'' then Some (drop 1 ws)
             else if startswith cmd ''printf'' then Some (drop 3 ws) else None))"

definition merged_of :: "str \<Rightarrow> str \<Rightarrow> str" where
  "merged_of root obj =
     (if basename obj = ''built-in.a''
      then path_join (path_join root (dirname obj)) (''.'' @ basename obj @ ''.cmd.bcmerged'')
      else path_join root (obj @ ''.bc''))"

text \<open>The bitcode files one file of a directory asks to link, if it asks for any.\<close>

definition link_inputs :: "fsys \<Rightarrow> str \<Rightarrow> str \<Rightarrow> str list \<Rightarrow> str \<Rightarrow> str list option res" where
  "link_inputs fs linux_build root files f =
     (if endswith f ''.mod''
      then bindE (read_text fs (path_join root f))
        (\<lambda>data. Inr (Some (map (\<lambda>obj. path_join linux_build (obj @ ''.bc'')) (lines_of (strip data)))))
      else if f = ''.built-in.a.cmd''
      then bindE (read_text fs (path_join root f)) (\<lambda>data. bindE (archive_objs data) (\<lambda>r. Inr (case r of
          None \<Rightarrow> None
        | Some objs \<Rightarrow> Some (if objs = []
            then map (path_join root) (filter (\<lambda>ff. endswith ff ''.bc'' \<or> endswith ff ''.bcmerged'') files)
            else map (merged_of root) objs))))
      else Inr None)"

definition link_cmd :: "str \<Rightarrow> str \<Rightarrow> str list \<Rightarrow> argv" where
  "link_cmd root f bcfiles =
     [''llvm-link'', ''-o'', path_join root (f @ ''.bcmerged''), ''--only-needed''] @ bcfiles"

definition link_file :: "fsys \<Rightarrow> str \<Rightarrow> str \<Rightarrow> str list \<Rightarrow> str \<Rightarrow> argv res list" where
  "link_file fs linux_build root files f = (case link_inputs fs linux_build root files f of
       Inl e \<Rightarrow> [Inl e]
     | Inr None \<Rightarrow> []
     | Inr (Some bcfiles) \<Rightarrow> [Inr (link_cmd root f bcfiles)])"

definition link_dir :: "fsys \<Rightarrow> str \<Rightarrow> str \<times> str list \<Rightarrow> argv res list" where
  "link_dir fs linux_build d = concat (map (link_file fs linux_build (fst d) (snd d)) (snd d))"

definition linkir_cmds :: "fsys \<Rightarrow> str \<Rightarrow> argv res list" where
  "linkir_cmds fs linux_build = concat (map (link_dir fs linux_build) (fs_walk fs linux_build))"

subsection \<open>The pool\<close>

datatype 'c proc = Running 'c | Exited 'c

datatype phase =
    LoopHead         \<comment> \<open>about to take the next command\<close>
  | Check            \<comment> \<open>\<open>if None not in pool\<close>\<close>
  | Wait             \<comment> \<open>polling until some process has exited\<close>
  | Scan nat         \<comment> \<open>clearing the slots of exited processes, at this slot\<close>
  | Done             \<comment> \<open>behind the loop and the final \<open>map\<close>, which is lazy and waits for nothing\<close>
  | Raised py_exc    \<comment> \<open>an exception left the loop\<close>

record 'c pool =
  todo :: "'c res list"
  slots :: "'c proc option list"
  started :: "'c list"
  phase :: phase

fun exited :: "'c proc option \<Rightarrow> bool" where
  "exited (Some (Exited c)) \<longleftrightarrow> True"
| "exited _ \<longleftrightarrow> False"

fun running :: "'c proc option \<Rightarrow> bool" where
  "running (Some (Running c)) \<longleftrightarrow> True"
| "running _ \<longleftrightarrow> False"

text \<open>\<open>pool.index(None)\<close>\<close>

fun first_free :: "'c proc option list \<Rightarrow> nat option" where
  "first_free [] = None"
| "first_free (None # ps) = Some 0"
| "first_free (Some p # ps) = map_option Suc (first_free ps)"

definition pool_init :: "nat \<Rightarrow> 'c res list \<Rightarrow> 'c pool" where
  "pool_init nproc cmds = \<lparr>todo = cmds, slots = replicate nproc None, started = [], phase = LoopHead\<rparr>"

inductive pool_step :: "'c pool \<Rightarrow> 'c pool \<Rightarrow> bool" where
  start: "phase s = LoopHead \<Longrightarrow> todo s = Inr c # cs \<Longrightarrow> first_free (slots s) = Some i \<Longrightarrow>
    pool_step s (s\<lparr>todo := cs, slots := (slots s)[i := Some (Running c)], started := started s @ [c], phase := Check\<rparr>)"
| skip: "phase s = LoopHead \<Longrightarrow> todo s = Inr c # cs \<Longrightarrow> first_free (slots s) = None \<Longrightarrow>
    pool_step s (s\<lparr>todo := cs, phase := Check\<rparr>)"
| raise: "phase s = LoopHead \<Longrightarrow> todo s = Inl e # cs \<Longrightarrow> pool_step s (s\<lparr>phase := Raised e\<rparr>)"
| finish: "phase s = LoopHead \<Longrightarrow> todo s = [] \<Longrightarrow> pool_step s (s\<lparr>phase := Done\<rparr>)"
| free: "phase s = Check \<Longrightarrow> None \<in> set (slots s) \<Longrightarrow> pool_step s (s\<lparr>phase := LoopHead\<rparr>)"
| full: "phase s = Check \<Longrightarrow> None \<notin> set (slots s) \<Longrightarrow> pool_step s (s\<lparr>phase := Wait\<rparr>)"
| wake: "phase s = Wait \<Longrightarrow> p \<in> set (slots s) \<Longrightarrow> exited p \<Longrightarrow> pool_step s (s\<lparr>phase := Scan 0\<rparr>)"
| clear: "phase s = Scan i \<Longrightarrow> i < length (slots s) \<Longrightarrow> exited (slots s ! i) \<Longrightarrow>
    pool_step s (s\<lparr>slots := (slots s)[i := None], phase := Scan (Suc i)\<rparr>)"
| keep: "phase s = Scan i \<Longrightarrow> i < length (slots s) \<Longrightarrow> running (slots s ! i) \<Longrightarrow>
    pool_step s (s\<lparr>phase := Scan (Suc i)\<rparr>)"
| poll_none: "phase s = Scan i \<Longrightarrow> i < length (slots s) \<Longrightarrow> slots s ! i = None \<Longrightarrow>
    pool_step s (s\<lparr>phase := Raised AttributeError\<rparr>)"
| scanned: "phase s = Scan i \<Longrightarrow> length (slots s) \<le> i \<Longrightarrow> pool_step s (s\<lparr>phase := LoopHead\<rparr>)"
| exit: "i < length (slots s) \<Longrightarrow> slots s ! i = Some (Running c) \<Longrightarrow>
    pool_step s (s\<lparr>slots := (slots s)[i := Some (Exited c)]\<rparr>)"

text \<open>What holds of every reachable state: nothing was dropped, and a slot is free when it is needed.\<close>

definition slot_ready :: "'c pool \<Rightarrow> bool" where
  "slot_ready s \<longleftrightarrow> (case phase s of
       LoopHead \<Rightarrow> None \<in> set (slots s)
     | Wait \<Rightarrow> None \<notin> set (slots s)
     | Scan i \<Rightarrow> (\<forall>j < length (slots s). i \<le> j \<longrightarrow> slots s ! j \<noteq> None) \<and>
         (\<exists>j < length (slots s). if j < i then slots s ! j = None else exited (slots s ! j))
     | Done \<Rightarrow> todo s = []
     | Raised e \<Rightarrow> todo s \<noteq> [] \<and> hd (todo s) = Inl e
     | Check \<Rightarrow> True)"

definition pool_inv :: "nat \<Rightarrow> 'c res list \<Rightarrow> 'c pool \<Rightarrow> bool" where
  "pool_inv n cmds s \<longleftrightarrow> length (slots s) = n \<and> map Inr (started s) @ todo s = cmds \<and> slot_ready s"

subsection \<open>The invariant\<close>

lemma first_free_Some: "first_free ps = Some i \<Longrightarrow> i < length ps \<and> ps ! i = None"
  by (induction ps arbitrary: i rule: first_free.induct) (auto split: option.splits)

lemma first_free_running: "first_free (map (Some \<circ> Running) xs @ None # ps) = Some (length xs)"
  by (induction xs) auto

lemma first_free_None: "first_free ps = None \<longleftrightarrow> None \<notin> set ps"
  by (induction ps rule: first_free.induct) auto

lemma exited_cases: "p \<noteq> None \<Longrightarrow> exited p \<longleftrightarrow> \<not> running p"
  by (cases p rule: exited.cases) auto

lemma pool_inv_init: "0 < n \<Longrightarrow> pool_inv n cmds (pool_init n cmds)"
  by (simp add: pool_inv_def pool_init_def slot_ready_def)

lemma slot_ready_exit:
  assumes "slot_ready s" and "i < length (slots s)" and "slots s ! i = Some (Running c)"
  shows "slot_ready (s\<lparr>slots := (slots s)[i := Some (Exited c)]\<rparr>)"
proof -
  have keep: "((slots s)[i := Some (Exited c)] ! j = None) = (slots s ! j = None)"
    and "exited (slots s ! j) \<Longrightarrow> exited ((slots s)[i := Some (Exited c)] ! j)" for j
    using assms(2,3) by (cases "j = i"; simp)+
  moreover have "None \<in> set ((slots s)[i := Some (Exited c)]) \<longleftrightarrow> None \<in> set (slots s)"
    using keep by (simp add: in_set_conv_nth)
  ultimately show ?thesis using assms(1) by (auto simp: slot_ready_def split: phase.splits)
qed

lemma slot_ready_clear:
  assumes "slot_ready s" and "phase s = Scan i" and "i < length (slots s)" and "exited (slots s ! i)"
  shows "slot_ready (s\<lparr>slots := (slots s)[i := None], phase := Scan (Suc i)\<rparr>)"
  using assms by (auto simp: slot_ready_def nth_list_update intro!: exI [of _ i])

lemma slot_ready_keep:
  assumes "slot_ready s" and "phase s = Scan i" and "running (slots s ! i)"
  shows "slot_ready (s\<lparr>phase := Scan (Suc i)\<rparr>)"
proof -
  from assms obtain j where "j < length (slots s)" "if j < i then slots s ! j = None else exited (slots s ! j)"
    by (auto simp: slot_ready_def)
  moreover from this(2) assms(3) have "j \<noteq> i" by (cases "slots s ! i" rule: exited.cases) auto
  ultimately have "if j < Suc i then slots s ! j = None else exited (slots s ! j)" by (auto split: if_splits)
  with \<open>j < length (slots s)\<close> assms(1,2) show ?thesis by (auto simp: slot_ready_def)
qed

lemma slot_ready_wake:
  assumes "slot_ready s" and "phase s = Wait" and "p \<in> set (slots s)" and "exited p"
  shows "slot_ready (s\<lparr>phase := Scan 0\<rparr>)"
  using assms by (auto simp: slot_ready_def in_set_conv_nth)

lemma slot_ready_scanned:
  assumes "slot_ready s" and "phase s = Scan i" and "length (slots s) \<le> i"
  shows "None \<in> set (slots s)"
  using assms by (auto simp: slot_ready_def in_set_conv_nth split: if_splits)

lemma pool_step_inv: "pool_step s t \<Longrightarrow> pool_inv n cmds s \<Longrightarrow> pool_inv n cmds t"
proof (induction rule: pool_step.induct)
  case (exit i s c)
  then show ?case using slot_ready_exit [of s i c] by (simp add: pool_inv_def)
next
  case (clear s i)
  then show ?case using slot_ready_clear [of s i] by (simp add: pool_inv_def)
next
  case (keep s i)
  then show ?case using slot_ready_keep [of s i] by (simp add: pool_inv_def)
next
  case (wake s p)
  then show ?case using slot_ready_wake [of s p] by (simp add: pool_inv_def)
next
  case (scanned s i)
  then have "None \<in> set (slots s)" using slot_ready_scanned [of s i] by (simp add: pool_inv_def)
  with scanned show ?case by (simp add: pool_inv_def slot_ready_def)
qed (auto simp: pool_inv_def slot_ready_def first_free_None)

lemma pool_reach_inv: "pool_step\<^sup>*\<^sup>* s t \<Longrightarrow> pool_inv n cmds s \<Longrightarrow> pool_inv n cmds t"
  by (induction rule: rtranclp_induct) (auto intro: pool_step_inv)

subsection \<open>Progress and termination\<close>

definition steps_left :: "'c pool \<Rightarrow> nat" where
  "steps_left s = (length (slots s) + 6) * length (todo s) + length (filter running (slots s)) +
     (case phase s of LoopHead \<Rightarrow> 1 | Check \<Rightarrow> length (slots s) + 4 | Wait \<Rightarrow> length (slots s) + 3
      | Scan i \<Rightarrow> length (slots s) - i + 2 | Done \<Rightarrow> 0 | Raised e \<Rightarrow> 0)"

lemma running_update:
  assumes "i < length ps"
  shows "length (filter running (ps[i := p])) + (if running (ps ! i) then 1 else 0) =
    length (filter running ps) + (if running p then 1 else 0)"
  using assms
proof (induction ps arbitrary: i)
  case (Cons q ps)
  then show ?case by (cases i) auto
qed simp

lemma pool_step_less: "pool_step s t \<Longrightarrow> steps_left t < steps_left s"
proof (induction rule: pool_step.induct)
  case (start s c cs i)
  then have "length (filter running ((slots s)[i := Some (Running c)])) = Suc (length (filter running (slots s)))"
    using running_update [of i "slots s" "Some (Running c)"] first_free_Some [of "slots s" i] by simp
  with start show ?case by (simp add: steps_left_def)
next
  case (clear s i)
  then have "\<not> running (slots s ! i)" by (cases "slots s ! i" rule: exited.cases) auto
  with clear show ?case using running_update [of i "slots s" None] by (simp add: steps_left_def)
next
  case (exit i s c)
  then show ?case using running_update [of i "slots s" "Some (Exited c)"]
    by (simp add: steps_left_def split: phase.split)
qed (auto simp: steps_left_def)

lemma pool_run_bound: "(pool_step ^^ k) s t \<Longrightarrow> k + steps_left t \<le> steps_left s"
proof (induction k arbitrary: t)
  case (Suc k)
  then obtain u where "(pool_step ^^ k) s u" and "pool_step u t" by auto
  with Suc.IH [of u] pool_step_less [of u t] show ?case by simp
qed simp

text \<open>A state of the invariant in which nothing runs can go on unless the script has ended.\<close>

lemma pool_progress:
  assumes "pool_inv n cmds s" and "\<nexists>t. pool_step s t" and n: "0 < n"
  shows "(phase s = Done \<or> (\<exists>e. phase s = Raised e)) \<and> (\<forall>p \<in> set (slots s). \<not> running p)"
proof -
  note stuck = assms(2) [unfolded not_ex, rule_format]
  have idle: "\<not> running p" if p: "p \<in> set (slots s)" for p
  proof
    assume "running p"
    then obtain c where "p = Some (Running c)" by (cases p rule: running.cases) auto
    with p obtain i where "i < length (slots s)" "slots s ! i = Some (Running c)" by (auto simp: in_set_conv_nth)
    from pool_step.exit [OF this] stuck show False by blast
  qed
  have ready: "slot_ready s" and len: "length (slots s) = n" using assms(1) by (simp_all add: pool_inv_def)
  have "phase s = Done \<or> (\<exists>e. phase s = Raised e)"
  proof (cases "phase s")
    case LoopHead
    show ?thesis
    proof (cases "todo s")
      case Nil
      from pool_step.finish [OF LoopHead this] stuck show ?thesis by blast
    next
      case (Cons c cs)
      then show ?thesis
        using pool_step.start [OF LoopHead] pool_step.skip [OF LoopHead] pool_step.raise [OF LoopHead] stuck
        by (cases c; cases "first_free (slots s)") blast+
    qed
  next
    case Check
    from pool_step.free [OF Check] pool_step.full [OF Check] stuck show ?thesis by blast
  next
    case Wait
    with ready have "None \<notin> set (slots s)" by (simp add: slot_ready_def)
    moreover have "slots s ! 0 \<in> set (slots s)" using len n by simp
    ultimately have "exited (slots s ! 0)" using idle exited_cases by metis
    with pool_step.wake [OF Wait \<open>slots s ! 0 \<in> set (slots s)\<close>] stuck show ?thesis by blast
  next
    case (Scan i)
    show ?thesis
    proof (cases "i < length (slots s)")
      case True
      then have "slots s ! i = None \<or> exited (slots s ! i)" using idle exited_cases nth_mem by metis
      with pool_step.poll_none [OF Scan True] pool_step.clear [OF Scan True] stuck show ?thesis by metis
    next
      case False
      with pool_step.scanned [OF Scan] stuck show ?thesis by simp
    qed
  qed auto
  with idle show ?thesis by blast
qed

lemma pool_run_inv: "(pool_step ^^ k) s t \<Longrightarrow> pool_inv n cmds s \<Longrightarrow> pool_inv n cmds t"
  by (rule pool_reach_inv) (auto intro: relpowp_imp_rtranclp)

lemma map_Inr_prefix: "map Inr xs @ ys = map Inr zs \<Longrightarrow> \<exists>vs. ys = map Inr vs \<and> xs @ vs = (zs :: 'a list)"
proof (induction xs arbitrary: zs)
  case (Cons x xs)
  then show ?case by (cases zs) auto
qed auto

text \<open>
  C28: with at least one processor the pool never drops a command and never polls an empty slot: in
  every reachable state the commands started, in order, followed by those still to come are all the
  commands, and the only exceptions are those of making a command.
\<close>

theorem pool_drops_nothing:
  assumes "pool_step\<^sup>*\<^sup>* (pool_init n cmds) s" and "0 < n"
  shows "map Inr (started s) @ todo s = cmds \<and> length (slots s) = n \<and>
    (\<forall>e. phase s = Raised e \<longrightarrow> todo s \<noteq> [] \<and> hd (todo s) = Inl e)"
proof -
  from assms have "pool_inv n cmds s" by (blast intro: pool_reach_inv pool_inv_init)
  then show ?thesis by (auto simp: pool_inv_def slot_ready_def)
qed

text \<open>
  C27: when every command can be made, each run of the pool, however the processes exit, takes at most
  \<open>(n + 6) * c + 1\<close> steps for \<open>c\<close> commands on \<open>n\<close> processors, and it stops only when all commands
  were started, in order, and all their processes have exited.
\<close>

theorem pool_completes:
  assumes "(pool_step ^^ k) (pool_init n (map Inr cmds)) s" and "0 < n"
  shows "k \<le> (n + 6) * length cmds + 1 \<and>
    ((\<nexists>t. pool_step s t) \<longrightarrow> phase s = Done \<and> started s = cmds \<and> (\<forall>p \<in> set (slots s). \<not> running p))"
proof -
  have "length (filter running (replicate n None)) = 0" by simp
  then have "steps_left (pool_init n (map Inr cmds)) = (n + 6) * length cmds + 1"
    by (simp add: steps_left_def pool_init_def)
  with pool_run_bound [OF assms(1)] have "k \<le> (n + 6) * length cmds + 1" by simp
  moreover have inv: "pool_inv n (map Inr cmds) s"
    using assms by (blast intro: pool_run_inv pool_inv_init)
  moreover have "phase s = Done \<and> started s = cmds \<and> (\<forall>p \<in> set (slots s). \<not> running p)"
    if stuck: "\<nexists>t. pool_step s t"
  proof -
    from inv have split: "map Inr (started s) @ todo s = map Inr cmds" by (simp add: pool_inv_def)
    then obtain vs where vs: "todo s = map Inr vs" "started s @ vs = cmds" using map_Inr_prefix by blast
    from inv vs(1) have "phase s \<noteq> Raised e" for e
      by (cases vs) (auto simp: pool_inv_def slot_ready_def)
    with pool_progress [OF inv stuck assms(2)] have "phase s = Done" "\<forall>p \<in> set (slots s). \<not> running p" by auto
    moreover from this(1) inv have "todo s = []" by (simp add: pool_inv_def slot_ready_def)
    ultimately show ?thesis using vs by simp
  qed
  ultimately show ?thesis by blast
qed

text \<open>
  C29: the last line of both scripts, \<open>map(lambda x: x.wait(), pool)\<close>, waits for nothing: with fewer
  commands than processors the script can end while every one of its processes is still running.
\<close>

theorem pool_does_not_wait:
  assumes "length cmds < n"
  shows "\<exists>s. pool_step\<^sup>*\<^sup>* (pool_init n (map Inr cmds)) s \<and> phase s = Done \<and>
    slots s = map (Some \<circ> Running) cmds @ replicate (n - length cmds) None"
proof -
  have "\<exists>s. pool_step\<^sup>*\<^sup>* (pool_init n (map Inr (xs @ ys))) s \<and> phase s = LoopHead \<and> todo s = map Inr ys \<and>
      slots s = map (Some \<circ> Running) xs @ replicate (n - length xs) None" if "length (xs @ ys) < n" for xs ys :: "'a list"
    using that
  proof (induction xs arbitrary: ys rule: rev_induct)
    case Nil
    then show ?case by (intro exI [of _ "pool_init n (map Inr ys)"]) (simp add: pool_init_def)
  next
    case (snoc x xs)
    let ?ps = "map (Some \<circ> Running) xs @ replicate (n - length xs) None"
      and ?qs = "map (Some \<circ> Running) (xs @ [x]) @ replicate (n - length (xs @ [x])) None"
    from snoc.prems have "length (xs @ (x # ys)) < n" by simp
    from snoc.IH [OF this] obtain s where s: "pool_step\<^sup>*\<^sup>* (pool_init n (map Inr (xs @ x # ys))) s"
      "phase s = LoopHead" "todo s = Inr x # map Inr ys" "slots s = ?ps" by auto
    have rep: "replicate (n - length xs) None = None # replicate (n - length (xs @ [x])) None"
      using snoc.prems by (simp add: Suc_diff_Suc flip: replicate_Suc)
    have "first_free (slots s) = Some (length xs)" by (simp add: s(4) rep first_free_running)
    from pool_step.start [OF s(2,3) this] have "pool_step s (s\<lparr>todo := map Inr ys, slots := ?qs,
        started := started s @ [x], phase := Check\<rparr>)"
      by (simp add: s(4) rep list_update_append)
    moreover have "pool_step (s\<lparr>todo := map Inr ys, slots := ?qs, started := started s @ [x], phase := Check\<rparr>)
        (s\<lparr>todo := map Inr ys, slots := ?qs, started := started s @ [x], phase := LoopHead\<rparr>)" (is "pool_step ?u ?t")
      using pool_step.free [of ?u] snoc.prems by simp
    ultimately have "pool_step\<^sup>*\<^sup>* (pool_init n (map Inr (xs @ x # ys))) ?t"
      using s(1) by (meson rtranclp.rtrancl_into_rtrancl)
    then show ?case by (intro exI [of _ ?t]) simp
  qed
  from this [of cmds "[]"] assms obtain s where s: "pool_step\<^sup>*\<^sup>* (pool_init n (map Inr cmds)) s"
    "phase s = LoopHead" "todo s = []" "slots s = map (Some \<circ> Running) cmds @ replicate (n - length cmds) None" by auto
  with pool_step.finish [OF s(2,3)] have "pool_step\<^sup>*\<^sup>* (pool_init n (map Inr cmds)) (s\<lparr>phase := Done\<rparr>)"
    by (meson rtranclp.rtrancl_into_rtrancl)
  with s(4) show ?thesis by (intro exI [of _ "s\<lparr>phase := Done\<rparr>"]) simp
qed

theorem pool_drops_nothing_witness:
  "\<exists>s. pool_step\<^sup>*\<^sup>* (pool_init 2 [Inr ''a'', Inl ValueError]) s \<and> started s = [''a''] \<and>
    map Inr (started s) @ todo s = [Inr ''a'', Inl ValueError] \<and> length (slots s) = 2 \<and>
    (\<forall>e. phase s = Raised e \<longrightarrow> todo s \<noteq> [] \<and> hd (todo s) = Inl e)"
proof -
  let ?i = "pool_init 2 [Inr ''a'', Inl ValueError]"
  let ?s = "?i\<lparr>todo := [Inl ValueError], slots := (slots ?i)[0 := Some (Running ''a'')],
    started := started ?i @ [''a''], phase := Check\<rparr>"
  have "pool_step ?i ?s"
    by (rule pool_step.start) (simp_all add: pool_init_def numeral_2_eq_2)
  then have "pool_step\<^sup>*\<^sup>* ?i ?s" by (rule r_into_rtranclp)
  with pool_drops_nothing [OF this] show ?thesis
    by (intro exI [of _ ?s]) (simp add: pool_init_def)
qed

theorem pool_completes_witness:
  "\<exists>s. (pool_step ^^ 4) (pool_init 2 (map Inr [''a''])) s \<and> (\<nexists>t. pool_step s t) \<and> (4::nat) \<le> (2 + 6) * length [''a''] + 1 \<and>
    phase s = Done \<and> started s = [''a''] \<and> (\<forall>p \<in> set (slots s). \<not> running p)"
proof -
  let ?i = "pool_init 2 (map Inr [''a''])"
  let ?s1 = "?i\<lparr>todo := [], slots := (slots ?i)[0 := Some (Running ''a'')],
    started := started ?i @ [''a''], phase := Check\<rparr>"
  let ?s3 = "?s1\<lparr>phase := LoopHead, phase := Done\<rparr>"
  let ?s4 = "?s3\<lparr>slots := (slots ?s3)[0 := Some (Exited ''a'')]\<rparr>"
  have "pool_step ?i ?s1" by (rule pool_step.start) (simp_all add: pool_init_def numeral_2_eq_2)
  moreover have "pool_step ?s1 (?s1\<lparr>phase := LoopHead\<rparr>)"
    by (rule pool_step.free) (simp_all add: pool_init_def numeral_2_eq_2)
  moreover have "pool_step (?s1\<lparr>phase := LoopHead\<rparr>) ?s3"
    using pool_step.finish [of "?s1\<lparr>phase := LoopHead\<rparr>"] by simp
  moreover have "pool_step ?s3 ?s4" by (rule pool_step.exit) (simp_all add: pool_init_def numeral_2_eq_2)
  ultimately have run: "(pool_step ^^ 4) ?i ?s4"
    by (auto simp: numeral_eq_Suc intro!: relcomppI)
  have stuck: "\<nexists>t. pool_step ?s4 t"
    by (auto simp: pool_init_def numeral_2_eq_2 less_Suc_eq elim!: pool_step.cases)
  from pool_completes [OF run] stuck run show ?thesis by (intro exI [of _ ?s4]) simp
qed

theorem pool_does_not_wait_witness:
  "\<exists>s. pool_step\<^sup>*\<^sup>* (pool_init 2 (map Inr [''a''])) s \<and> phase s = Done \<and>
    slots s = map (Some \<circ> Running) [''a''] @ replicate (2 - length [''a'']) None"
  by (rule pool_does_not_wait) simp

subsection \<open>The commands\<close>

text \<open>Words that the shell leaves alone.\<close>

definition plain_word :: "str \<Rightarrow> bool" where
  "plain_word w \<longleftrightarrow> w \<noteq> [] \<and> list_all (\<lambda>c. \<not> is_space c \<and> \<not> is_quote c \<and> c \<noteq> backslash \<and> c \<noteq> CHR '';'') w"

lemma lex_space_is_space: "lex_space c \<Longrightarrow> is_space c"
  by (auto simp: lex_space_def is_space_def Let_def)

lemma lexer_word:
  "list_all (\<lambda>c. \<not> is_space c \<and> \<not> is_quote c \<and> c \<noteq> backslash \<and> c \<noteq> CHR '';'') w \<Longrightarrow>
    lexer InWord q t (w @ s) = lexer InWord q (t @ w) s"
  by (induction w arbitrary: t) (auto dest: lex_space_is_space)

lemma lexer_plain: "plain_word w \<Longrightarrow> lexer Blank False [] (w @ s) = lexer InWord False w s"
  by (cases w) (auto simp: plain_word_def lexer_word dest: lex_space_is_space)

lemma shlex_split_plain: "list_all plain_word ws \<Longrightarrow> shlex_split (join_with '' '' ws) = Inr ws"
  unfolding shlex_split_def
proof (induction "'' ''" ws rule: join_with.induct)
  case (2 w)
  then show ?case using lexer_plain [of w "[]"] by (auto simp: plain_word_def)
next
  case (3 w v ws)
  then show ?case using lexer_plain [of w "'' '' @ join_with '' '' (v # ws)"]
    by (auto simp: plain_word_def lex_space_def)
qed simp

lemma words_from_plain:
  "list_all (\<lambda>c. \<not> is_space c) w \<Longrightarrow> words_from t (w @ s) = words_from (t @ w) s"
  by (induction w arbitrary: t) auto

lemma words_from_spaces: "words_from t (replicate n (CHR '' '')) = (if t = [] then [] else [t])"
  by (induction n arbitrary: t) (auto simp: is_space_def)

lemma split_ws_plain:
  "list_all plain_word ws \<Longrightarrow> split_ws (join_with '' '' ws @ replicate n (CHR '' '')) = ws"
  unfolding split_ws_def
proof (induction "'' ''" ws rule: join_with.induct)
  case (2 w)
  then show ?case using words_from_plain [of w "[]" "replicate n (CHR '' '')"]
    by (auto simp: plain_word_def list_all_iff words_from_spaces)
next
  case (3 w v ws)
  then show ?case using words_from_plain [of w "[]" "'' '' @ join_with '' '' (v # ws) @ replicate n (CHR '' '')"]
    by (auto simp: plain_word_def list_all_iff is_space_def)
qed (simp add: words_from_spaces)

lemma join_plain_chars: "list_all plain_word ws \<Longrightarrow> c \<in> set (join_with '' '' ws) \<Longrightarrow> c \<noteq> CHR '';'' \<and> (is_space c \<longrightarrow> c = CHR '' '')"
  by (induction "'' ''" ws rule: join_with.induct) (auto simp: plain_word_def list_all_iff)

lemma strip_plain:
  assumes "list_all plain_word ws" shows "strip (join_with '' '' ws @ replicate n (CHR '' '')) = join_with '' '' ws"
proof -
  have spaces: "dropWhile is_space (replicate n (CHR '' '') @ s) = dropWhile is_space s" for s
    by (induction n) (simp_all add: is_space_def)
  have first: "lstrip (join_with '' '' ws @ s) = join_with '' '' ws @ s" if ne: "ws \<noteq> []" for s
  proof -
    from ne obtain w vs where ws: "ws = w # vs" by (cases ws) auto
    with assms obtain c cs where w: "w = c # cs" and "\<not> is_space c" by (cases w) (auto simp: plain_word_def)
    then show ?thesis by (cases vs) (simp_all add: ws lstrip_def)
  qed
  have last: "\<not> is_space (last (join_with '' '' ws)) \<and> join_with '' '' ws \<noteq> []" if "ws \<noteq> []"
    using assms that
    by (induction "'' ''" ws rule: join_with.induct) (auto simp: plain_word_def list_all_iff)
  show ?thesis
  proof (cases "ws = []")
    case True
    then show ?thesis using spaces [of "[]"] by (simp add: strip_def lstrip_def rstrip_def)
  next
    case False
    then obtain c cs where r: "rev (join_with '' '' ws) = c # cs" using last by (cases "rev (join_with '' '' ws)") auto
    then have "last (join_with '' '' ws) = c" by (metis last_rev list.sel(1) rev_rev_ident hd_rev)
    with last [OF False] have "dropWhile is_space (rev (join_with '' '' ws)) = rev (join_with '' '' ws)" by (simp add: r)
    then show ?thesis using first [OF False] by (simp add: strip_def rstrip_def spaces)
  qed
qed

lemma find_str_assign:
  "CHR '':'' \<notin> set p \<Longrightarrow> find_str '' := '' (p @ '' := '' @ q) = Some (length p)"
proof (induction p)
  case (Cons c p)
  then show ?case by (cases p) auto
qed simp

lemma cmd_text_plain:
  assumes "CHR '':'' \<notin> set p" and "list_all plain_word ws"
    and "rest = [] \<or> hd rest = CHR '';''"
  shows "cmd_text (p @ '' := '' @ join_with '' '' ws @ replicate n (CHR '' '') @ rest) = join_with '' '' ws @ replicate n (CHR '' '')"
proof -
  have "takeWhile (\<lambda>c. c \<noteq> CHR '';'') ((join_with '' '' ws @ replicate n (CHR '' '')) @ rest) = join_with '' '' ws @ replicate n (CHR '' '')"
    using assms(2,3) by (subst takeWhile_append2) (auto dest: join_plain_chars simp: neq_Nil_conv takeWhile_eq_Nil_iff)
  then show ?thesis unfolding cmd_text_def find_str_assign [OF assms(1)] by simp
qed

lemma lines_of_first:
  assumes "list_all (\<lambda>l. CHR 0x0A \<notin> set l) pre" and "CHR 0x0A \<notin> set line"
    and "tail = [] \<or> hd tail = CHR 0x0A"
  shows "\<exists>ls. lines_of (concat (map (\<lambda>l. l @ [CHR 0x0A]) pre) @ line @ tail) = pre @ line # ls"
  using assms(1)
proof (induction pre)
  case Nil
  show ?case
  proof (cases tail)
    case Nil
    with assms(2) show ?thesis by (simp add: lines_of_def split_char_no_sep)
  next
    case (Cons c cs)
    with assms(2,3) show ?thesis using split_char_append [of "CHR 0x0A" line cs] by (auto simp: lines_of_def)
  qed
next
  case (Cons l pre)
  then obtain ls where "lines_of (concat (map (\<lambda>l. l @ [CHR 0x0A]) pre) @ line @ tail) = pre @ line # ls" by auto
  with Cons.prems show ?case
    using split_char_append [of "CHR 0x0A" l "concat (map (\<lambda>l. l @ [CHR 0x0A]) pre) @ line @ tail"]
    by (simp add: lines_of_def)
qed

lemma find_first: "list_all (\<lambda>x. \<not> P x) pre \<Longrightarrow> P x \<Longrightarrow> find P (pre @ x # xs) = Some x"
  by (induction pre) auto

text \<open>
  The clang command of an object is read back from its \<open>.cmd\<close> file: whatever lines come first,
  from the first command line \<open>target := words ; rest\<close> whose words need no quoting the script makes
  the command of these words followed by the options that write \<open>x.o.bc\<close> beside \<open>.x.o.cmd\<close>.
\<close>

theorem ir_cmd_roundtrip:
  assumes "list_all plain_word ws" and "ws \<noteq> []" and "basename (hd ws) = ''clang''"
    and "is_cmd_line target" and "CHR '':'' \<notin> set target" and "CHR 0x0A \<notin> set target"
    and "rest = [] \<or> hd rest = CHR '';''" and "CHR 0x0A \<notin> set rest"
    and "list_all (\<lambda>l. \<not> is_cmd_line l \<and> CHR 0x0A \<notin> set l) pre" and "tail = [] \<or> hd tail = CHR 0x0A"
    and "slash \<notin> set x"
  shows "bindE (clang_cmd (concat (map (\<lambda>l. l @ [CHR 0x0A]) pre) @
        (target @ '' := '' @ join_with '' '' ws @ replicate n (CHR '' '') @ rest) @ tail))
      (\<lambda>c. ir_cmd (d @ ''/.'' @ x @ ''.cmd'', the c)) =
    Inr (ws @ [''-emit-llvm'', ''-o'', dirname (d @ ''/.'' @ x @ ''.cmd'') @ ''/'' @ x @ ''.bc''])"
proof -
  let ?line = "target @ '' := '' @ join_with '' '' ws @ replicate n (CHR '' '') @ rest"
  have nonl: "CHR 0x0A \<notin> set ?line"
    using assms(1,6,8) join_plain_chars [of ws "CHR 0x0A"] by (auto simp: is_space_def)
  have "list_all (\<lambda>l. CHR 0x0A \<notin> set l) pre" using assms(9) by (simp add: list_all_iff)
  from lines_of_first [OF this nonl assms(10)] obtain ls where
    lines: "lines_of (concat (map (\<lambda>l. l @ [CHR 0x0A]) pre) @ ?line @ tail) = pre @ ?line # ls" by blast
  have "is_cmd_line ?line" using assms(4) by (auto simp: is_cmd_line_def startswith_prefix intro: prefix_prefix)
  then have line: "find is_cmd_line (lines_of (concat (map (\<lambda>l. l @ [CHR 0x0A]) pre) @ ?line @ tail)) = Some ?line"
    unfolding lines by (intro find_first) (use assms(9) in \<open>auto simp: list_all_iff\<close>)
  have ctext: "cmd_text ?line = join_with '' '' ws @ replicate n (CHR '' '')"
    using cmd_text_plain [OF assms(5,1,7)] .
  obtain w vs where ws: "ws = w # vs" using assms(2) by (cases ws) auto
  have "clang_cmd (concat (map (\<lambda>l. l @ [CHR 0x0A]) pre) @ ?line @ tail) = Inr (Some (join_with '' '' ws))"
    using assms(3) unfolding clang_cmd_def line option.case ctext split_ws_plain [OF assms(1)] strip_plain [OF assms(1)]
    by (simp add: ws)
  moreover have "bc_file (d @ ''/.'' @ x @ ''.cmd'') = dirname (d @ ''/.'' @ x @ ''.cmd'') @ ''/'' @ x @ ''.bc''"
    using assms(11) basename_append_slash [of "''.'' @ x @ ''.cmd''" d] by (simp add: bc_file_def chop_def)
  ultimately show ?thesis
    by (simp add: ir_cmd_def shlex_split_plain [OF assms(1)] del: append.simps)
qed

theorem ir_cmd_roundtrip_witness:
  "bindE (clang_cmd (concat (map (\<lambda>l. l @ [CHR 0x0A]) [''# kbuild'']) @
        (''cmd_drivers/a.o'' @ '' := '' @ join_with '' '' [''/usr/bin/clang'', ''-c'', ''a.c''] @ replicate 1 (CHR '' '') @ ''; objtool'') @
        []))
      (\<lambda>c. ir_cmd (''drivers'' @ ''/.'' @ ''a.o'' @ ''.cmd'', the c)) =
    Inr ([''/usr/bin/clang'', ''-c'', ''a.c''] @ [''-emit-llvm'', ''-o'',
      dirname (''drivers'' @ ''/.'' @ ''a.o'' @ ''.cmd'') @ ''/'' @ ''a.o'' @ ''.bc''])"
proof -
  have "list_all plain_word [''/usr/bin/clang'', ''-c'', ''a.c'']" "basename ''/usr/bin/clang'' = ''clang''"
    "is_cmd_line ''cmd_drivers/a.o''" "\<not> is_cmd_line ''# kbuild''"
    by code_simp+
  then show ?thesis by (intro ir_cmd_roundtrip) simp_all
qed

abbreviation archive_cmd :: str where "archive_cmd \<equiv> ''.built-in.a.cmd''"

lemma link_dir_split:
  assumes "f \<in> set files" and "link_file fs b root files f = [c]"
  shows "\<exists>xs zs. link_dir fs b (root, files) = xs @ c # zs"
proof -
  from assms(1) obtain us vs where "files = us @ f # vs" by (meson split_list)
  then have "link_dir fs b (root, files) = concat (map (link_file fs b root files) us) @ c #
      concat (map (link_file fs b root files) vs)"
    using assms(2) by (simp add: link_dir_def)
  then show ?thesis by blast
qed

lemma link_file_archive:
  assumes "read_text fs (path_join root archive_cmd) = Inr data" and "archive_objs data = Inr (Some objs)"
  shows "\<exists>ins. link_file fs b root files archive_cmd = [Inr (link_cmd root archive_cmd ins)] \<and>
    (objs \<noteq> [] \<longrightarrow> ins = map (merged_of root) objs)"
proof -
  have "\<not> endswith archive_cmd ''.mod''" by code_simp
  with assms have "link_inputs fs b root files archive_cmd = Inr (Some (if objs = []
      then map (path_join root) (filter (\<lambda>ff. endswith ff ''.bc'' \<or> endswith ff ''.bcmerged'') files)
      else map (merged_of root) objs))"
    by (simp add: link_inputs_def)
  then show ?thesis by (auto simp: link_file_def simp del: ex_simps)
qed

text \<open>
  A directory that comes before one of its subdirectories in the walk, as in the top-down walk of
  the script, is linked first: the command that reads the merged bitcode of the subdirectory's
  \<open>built-in.a\<close> is in front of the command that writes it.
\<close>

theorem link_parent_first:
  assumes "fs_walk fs b = u @ (root, files) # v @ (path_join root dir, files') # w"
    and "archive_cmd \<in> set files" and "archive_cmd \<in> set files'"
    and "read_text fs (path_join root archive_cmd) = Inr data" and "archive_objs data = Inr (Some objs)"
    and "dir @ ''/built-in.a'' \<in> set objs" and "dirname (dir @ ''/built-in.a'') = dir"
    and "read_text fs (path_join (path_join root dir) archive_cmd) = Inr data'" and "archive_objs data' = Inr (Some objs')"
  shows "\<exists>xs ins ys ins' zs. linkir_cmds fs b = xs @ Inr (link_cmd root archive_cmd ins) # ys @
      Inr (link_cmd (path_join root dir) archive_cmd ins') # zs \<and>
    path_join (path_join root dir) (archive_cmd @ ''.bcmerged'') \<in> set ins"
proof -
  obtain ins where ins: "link_file fs b root files archive_cmd = [Inr (link_cmd root archive_cmd ins)]"
    and mapped: "objs \<noteq> [] \<longrightarrow> ins = map (merged_of root) objs"
    using link_file_archive [OF assms(4,5)] by blast
  obtain ins' where ins': "link_file fs b (path_join root dir) files' archive_cmd =
      [Inr (link_cmd (path_join root dir) archive_cmd ins')]"
    using link_file_archive [OF assms(8,9)] by blast
  from link_dir_split [OF assms(2) ins] obtain x1 z1 where
    1: "link_dir fs b (root, files) = x1 @ Inr (link_cmd root archive_cmd ins) # z1" by blast
  from link_dir_split [OF assms(3) ins'] obtain x2 z2 where
    2: "link_dir fs b (path_join root dir, files') = x2 @ Inr (link_cmd (path_join root dir) archive_cmd ins') # z2" by blast
  have "linkir_cmds fs b = (concat (map (link_dir fs b) u) @ x1) @ Inr (link_cmd root archive_cmd ins) #
      (z1 @ concat (map (link_dir fs b) v) @ x2) @ Inr (link_cmd (path_join root dir) archive_cmd ins') #
      (z2 @ concat (map (link_dir fs b) w))"
    by (simp add: linkir_cmds_def assms(1) 1 2)
  moreover have "merged_of root (dir @ ''/built-in.a'') \<in> set ins"
    using mapped assms(6) by (cases objs) auto
  then have "path_join (path_join root dir) (archive_cmd @ ''.bcmerged'') \<in> set ins"
    using assms(7) basename_append_slash [of "''built-in.a''" dir] by (simp add: merged_of_def)
  ultimately show ?thesis by blast
qed

definition demo_build :: fsys where
  "demo_build = \<lparr>fs_walk = \<lambda>_. [(''/b'', [archive_cmd]), (''/b/net'', [archive_cmd])],
     fs_exists = \<lambda>_. True,
     fs_text = \<lambda>p. Some (if p = ''/b/.built-in.a.cmd''
       then ''cmd_built-in.a := rm -f built-in.a; printf x %s net/built-in.a | xargs ar''
       else ''cmd_net := rm -f net; printf x %s tcp.o | xargs ar'')\<rparr>"

theorem link_parent_first_witness:
  "\<exists>xs ins ys ins' zs. linkir_cmds demo_build ''/b'' = xs @ Inr (link_cmd ''/b'' archive_cmd ins) # ys @
      Inr (link_cmd (path_join ''/b'' ''net'') archive_cmd ins') # zs \<and>
    path_join (path_join ''/b'' ''net'') (archive_cmd @ ''.bcmerged'') \<in> set ins"
proof (rule link_parent_first [of demo_build "''/b''" "[]" "''/b''" "[archive_cmd]" "[]" "''net''" "[archive_cmd]" "[]"
    "''cmd_built-in.a := rm -f built-in.a; printf x %s net/built-in.a | xargs ar''" "[''net/built-in.a'']"
    "''cmd_net := rm -f net; printf x %s tcp.o | xargs ar''" "[''tcp.o'']"])
qed code_simp+

end
