(* ===== verification/ModInitCb.thy ===== *)
theory ModInitCb
  imports ObjDeps Pool BuildDeps
begin

section \<open>The database of initcalls: modinitcb.py\<close>

text \<open>
  \<open>hwdb/prepare_database/modinitcb.py\<close> builds the table of initcalls the removal works on: it reads
  the uses of the initcall macros in the kernel source (\<open>get_initmap\<close>), finds for each module and each
  object of a \<open>built-in.a\<close> the initcalls of its sources (\<open>get_bcmap\<close>), looking into Makefiles when an
  object has no source of its name (\<open>resolve_from_mk\<close>), and writes one line per initcall (\<open>db_lines\<close>).
  The outputs of \<open>grep\<close> and of \<open>utils/get-mod-init.sh\<close> are parameters.
\<close>

subsection \<open>Paths\<close>

definition abspath :: "str \<Rightarrow> str \<Rightarrow> str" where
  "abspath cwd p = normpath (path_join cwd p)"

fun common_len :: "str list \<Rightarrow> str list \<Rightarrow> nat" where
  "common_len (x # xs) (y # ys) = (if x = y then Suc (common_len xs ys) else 0)"
| "common_len _ _ = 0"

definition path_comps :: "str \<Rightarrow> str list" where
  "path_comps p = filter (\<lambda>c. c \<noteq> []) (split_char slash p)"

definition relpath :: "str \<Rightarrow> str \<Rightarrow> str \<Rightarrow> str" where
  "relpath cwd p start =
     (let ss = path_comps (abspath cwd start); ps = path_comps (abspath cwd p); i = common_len ss ps;
          rel = replicate (length ss - i) ''..'' @ drop i ps
      in if rel = [] then ''.'' else join_with ''/'' rel)"

subsection \<open>resolve_from_mk\<close>

text \<open>The search for the Makefile or Kbuild. Unlike its copy in \<open>gen_objdep.py\<close> it has no stop at \<open>/Kbuild\<close>.\<close>

partial_function (option) find_mk :: "(str \<Rightarrow> bool) \<Rightarrow> str \<Rightarrow> str option" where
  "find_mk ex mk =
     (if ex mk then Some mk
      else let kb = path_join (dirname mk) ''Kbuild'' in
        if ex kb then Some kb
        else find_mk ex (path_join (dirname (dirname kb)) ''Makefile''))"

declare find_mk.simps [code]

text \<open>Parts of the patterns: a literal, \<open>\s*[:+=]\<close>, \<open>\s*\+=\s*stem\<close> behind some closing parenthesis.\<close>

definition drop_pre :: "str \<Rightarrow> str \<Rightarrow> str option" where
  "drop_pre p s = (if startswith s p then Some (drop (length p) s) else None)"

definition assign_op :: "str \<Rightarrow> bool" where
  "assign_op s = (case dropWhile is_space s of [] \<Rightarrow> False | c # _ \<Rightarrow> c \<in> set '':+='')"

definition adds_stem :: "str \<Rightarrow> str \<Rightarrow> bool" where
  "adds_stem stem s = (case drop_pre ''+='' (dropWhile is_space s) of
       None \<Rightarrow> False | Some t \<Rightarrow> startswith (dropWhile is_space t) stem)"

fun after_paren :: "(str \<Rightarrow> bool) \<Rightarrow> str \<Rightarrow> bool" where
  "after_paren P [] \<longleftrightarrow> False"
| "after_paren P (c # cs) \<longleftrightarrow> (c = CHR '')'' \<and> P cs) \<or> after_paren P cs"

definition starts_with :: "str \<Rightarrow> (str \<Rightarrow> bool) \<Rightarrow> str \<Rightarrow> bool" where
  "starts_with p P s = (case drop_pre p s of None \<Rightarrow> False | Some t \<Rightarrow> P t)"

text \<open>
  The alternatives that start a rule for the object. The dot of \<open>stem.o\<close> in the first is not
  escaped and matches any character.
\<close>

definition rule_start :: "str \<Rightarrow> bool \<Rightarrow> str \<Rightarrow> bool" where
  "rule_start stem toplevel line \<longleftrightarrow>
     starts_with stem (\<lambda>t. t \<noteq> [] \<and> starts_with ''o'' assign_op (tl t)) line \<or>
     starts_with (stem @ ''-objs'') assign_op line \<or>
     starts_with (stem @ ''-y'') assign_op line \<or>
     starts_with (stem @ ''-m'') assign_op line \<or>
     startswith line (stem @ ''-$('') \<or>
     starts_with (''$(obj)/'' @ stem @ ''.o'') (\<lambda>t. startswith (dropWhile is_space t) '':'') line \<or>
     (toplevel \<and> starts_with ''obj-$(CONFIG_'' (after_paren (adds_stem stem)) line)"

text \<open>The rules, with the lines that continue them: the state is the list of rules and \<open>combflag\<close>.\<close>

definition add_text :: "str \<Rightarrow> str list \<Rightarrow> str list" where
  "add_text t rules = butlast rules @ [last rules @ t]"

definition rule_line :: "str \<Rightarrow> bool \<Rightarrow> str \<Rightarrow> str list \<times> bool \<Rightarrow> str list \<times> bool" where
  "rule_line stem toplevel l s = (case s of (rules, combflag) \<Rightarrow>
     let line = strip l; more = endswith line [backslash]; body = (if more then chop 1 line else line)
     in if combflag then (add_text ('' '' @ body) rules, more)
        else if rule_start stem toplevel line then (rules @ [body], more)
        else (rules, False))"

definition mk_rules :: "str \<Rightarrow> bool \<Rightarrow> str \<Rightarrow> str list" where
  "mk_rules stem toplevel data = remdups (fst (fold (rule_line stem toplevel) (lines_of (strip data)) ([], False)))"

text \<open>The names in a rule behind its first word, as paths relative to the kernel source.\<close>

definition rule_srcs :: "str \<Rightarrow> str \<Rightarrow> str \<Rightarrow> str \<Rightarrow> str list" where
  "rule_srcs cwd linux_src mk rule =
     map (\<lambda>src. relpath cwd (if occurs ''$(srctree)'' src then join_with linux_src (split_str ''$(srctree)'' src)
        else path_join (dirname mk) src) linux_src)
     (filter (\<lambda>src. src \<noteq> []) (map (dropWhile (\<lambda>c. c \<in> set '':+='')) (drop 1 (split_ws (strip rule)))))"

text \<open>Names are put into the patterns as they are; only those without special characters are modelled.\<close>

definition plain_stem :: "str \<Rightarrow> bool" where
  "plain_stem s \<longleftrightarrow> list_all (\<lambda>c. c = CHR ''-'' \<or> is_word c) s"

text \<open>\<open>limit\<close> is the number of nested calls before the interpreter raises \<open>RecursionError\<close>.\<close>

fun resolve_from_mk :: "nat \<Rightarrow> fsys \<Rightarrow> str \<Rightarrow> str \<Rightarrow> bool \<Rightarrow> str \<Rightarrow> (pyset \<times> pyset) res" where
  "resolve_from_mk 0 fs cwd linux_src toplevel f = Inl RecursionError"
| "resolve_from_mk (Suc limit) fs cwd linux_src toplevel f =
     (if startswith f ''include/'' then Inr ([], [])
      else bindE (returns (find_mk (fs_exists fs) (path_join (path_join linux_src (dirname f)) ''Makefile''))) (\<lambda>mk.
        let stem = stem_of (basename f) in
        if dirname mk = normpath linux_src then Inr ([], [])
        else bindE (guardE (fs_exists fs mk) AssertionError) (\<lambda>_.
          bindE (read_text fs mk) (\<lambda>data.
          bindE (guardE (plain_stem stem) Unmodelled) (\<lambda>_.
          foldE (\<lambda>src acc. case acc of (srcfiles, objfiles) \<Rightarrow>
              if endswith src ''.c'' then Inr (List.insert src srcfiles, objfiles)
              else if endswith src ''.o''
              then (if stem_of (basename src) \<noteq> stem
                    then bindE (resolve_from_mk limit fs cwd linux_src False src) (\<lambda>(ss, os).
                      Inr (List.union ss srcfiles, List.insert src (List.union os objfiles)))
                    else Inr (srcfiles, List.insert src objfiles))
              else Inr (srcfiles, objfiles))
            (concat (map (rule_srcs cwd linux_src mk) (mk_rules stem toplevel data))) ([], []))))))"

subsection \<open>get_initmap\<close>

text \<open>
  \<open>pat.match(s).group(1)\<close> for the pattern \<open>name\s*\((.*)\)\<close>: the text up to the last closing
  parenthesis of the line. The patterns are given by the names of \<open>modinitcb_macro.list\<close>.
\<close>

definition macro_arg :: "str \<Rightarrow> str \<Rightarrow> str option" where
  "macro_arg name s = (case drop_pre name s of
       None \<Rightarrow> None
     | Some t \<Rightarrow> (case drop_pre ''('' (dropWhile is_space t) of
         None \<Rightarrow> None
       | Some r \<Rightarrow> (let body = takeWhile (\<lambda>c. c \<noteq> CHR 0x0A) r in
           if CHR '')'' \<in> set body then Some (rev (drop 1 (dropWhile (\<lambda>c. c \<noteq> CHR '')'') (rev body)))) else None)))"

definition get_pats :: "str \<Rightarrow> str list" where
  "get_pats data = map strip (lines_of (strip data))"

text \<open>The first macro that matches.\<close>

fun first_macro :: "str list \<Rightarrow> str \<Rightarrow> str" where
  "first_macro [] s = []"
| "first_macro (p # ps) s = (case macro_arg p s of Some cb \<Rightarrow> cb | None \<Rightarrow> first_macro ps s)"

text \<open>
  A use that spans lines is read from the source: \<open>data[i: data.find(')', i)+1]\<close> for the position \<open>i\<close>
  of the text in the source, with \<open>-1\<close> for none.
\<close>

definition whole_use :: "str \<Rightarrow> str \<Rightarrow> str" where
  "whole_use s data = filter (\<lambda>c. c \<noteq> CHR 0x0A) (case find_str s data of
       Some i \<Rightarrow> (case find_str '')'' (drop i data) of None \<Rightarrow> [] | Some j \<Rightarrow> take (j + 1) (drop i data))
     | None \<Rightarrow> if endswith data '')'' then '')'' else [])"

definition special_macro :: "str \<Rightarrow> bool" where
  "special_macro s \<longleftrightarrow> startswith s ''IRQCHIP_DECLARE'' \<or> startswith s ''CLK_OF_DECLARE'' \<or>
     startswith s ''TIMER_OF_DECLARE'' \<or> startswith s ''module_vfio_reset_handler''"

text \<open>\<open>if line.startswith("#define") and tup[-2].strip() in line: alias = line.split()[2].strip()\<close>\<close>

definition define_line :: "str list \<Rightarrow> str \<Rightarrow> str \<Rightarrow> str res" where
  "define_line tup line alias =
     (if startswith line ''#define''
      then bindE (from_end 2 tup) (\<lambda>m. if occurs (strip m) line then index (split_ws line) 2 else Inr alias)
      else Inr alias)"

text \<open>The alias and callback of a macro for a device tree or VFIO match.\<close>

definition special_cb :: "fsys \<Rightarrow> (str \<Rightarrow> str option) \<Rightarrow> str \<Rightarrow> str \<Rightarrow> str \<Rightarrow> (str \<times> str) res" where
  "special_cb fs grep linux_src p cb =
     (if CHR 0x22 \<notin> set cb
      then (let tup = split_char (CHR '','') cb in
        bindE (read_text fs (path_join linux_src p)) (\<lambda>data.
        bindE (foldE (\<lambda>l. define_line tup (strip l)) (lines_of data) []) (\<lambda>alias.
        bindE (if alias \<noteq> [] then Inr alias
               else bindE (from_end 2 tup) (\<lambda>m. case grep (strip m) of
                   None \<Rightarrow> Inl CalledProcessError
                 | Some out \<Rightarrow> foldE (\<lambda>l. define_line tup
                     (case find_str '':'' l of None \<Rightarrow> l | Some i \<Rightarrow> drop (i + 1) l)) (lines_of out) [])) (\<lambda>alias.
        bindE (guardE (alias \<noteq> []) AssertionError) (\<lambda>_.
        Inr (strip (last tup), ''of:N*T*C*'' @ alias))))))
      else (case split_char (CHR 0x22) cb of
          [a, alias, c] \<Rightarrow> bindE (index (split_char (CHR '','') c) 1) (\<lambda>cb'.
            bindE (guardE (alias \<noteq> []) AssertionError) (\<lambda>_. Inr (strip cb', ''of:N*T*C*'' @ alias)))
        | _ \<Rightarrow> Inl AssertionError))"

type_synonym initmap = "(str \<times> (str \<times> str) list) list"

definition use_line :: "fsys \<Rightarrow> (str \<Rightarrow> str option) \<Rightarrow> str \<Rightarrow> str list \<Rightarrow> str \<Rightarrow> initmap \<Rightarrow> initmap res" where
  "use_line fs grep linux_src modpats line modinit_map = (case split_char (CHR '':'') (strip line) of
       [p, s0] \<Rightarrow>
         bindE (if CHR '')'' \<in> set (strip s0) then Inr (strip s0)
                else bindE (read_text fs (path_join linux_src p)) (\<lambda>data. Inr (whole_use (strip s0) data))) (\<lambda>s.
         let cb = first_macro modpats s in
         if cb = [] then Inr modinit_map
         else bindE (if special_macro s then special_cb fs grep linux_src p cb
                     else Inr (if CHR '','' \<in> set cb then strip (hd (split_char (CHR '','') cb)) else cb, ''x''))
                (\<lambda>cba. Inr (dd_add (normpath p) cba modinit_map)))
     | _ \<Rightarrow> Inl ValueError)"

definition get_initmap :: "fsys \<Rightarrow> (str \<Rightarrow> str option) \<Rightarrow> str \<Rightarrow> str \<Rightarrow> str list \<Rightarrow> initmap res" where
  "get_initmap fs grep greplog linux_src modpats =
     bindE (read_text fs greplog) (\<lambda>data. foldE (use_line fs grep linux_src modpats) (lines_of (strip data)) [])"

subsection \<open>get_bcmap\<close>

record bcmap =
  modcb :: "(str \<times> (str \<times> str \<times> str) list) list"
  bclist :: pyset
  foundfile :: pyset
  noentry :: pyset
  nobc :: pyset

definition record_cb :: "bool \<Rightarrow> str \<Rightarrow> str \<Rightarrow> str \<Rightarrow> str \<times> str \<times> str \<Rightarrow> bcmap \<Rightarrow> bcmap" where
  "record_cb built bc missing tag t s =
     (let s = s\<lparr>modcb := dd_add tag t (modcb s)\<rparr>
      in if built then s\<lparr>bclist := List.insert bc (bclist s)\<rparr> else s\<lparr>nobc := List.insert missing (nobc s)\<rparr>)"

text \<open>The initcalls of a source file, recorded under a tag.\<close>

definition record_file :: "initmap \<Rightarrow> bool \<Rightarrow> str \<Rightarrow> str \<Rightarrow> str \<Rightarrow> str \<Rightarrow> str \<Rightarrow> bcmap \<Rightarrow> bcmap" where
  "record_file modinit_map built bc missing tag owner key s =
     fold (\<lambda>(cb, alias). record_cb built bc missing tag (cb, owner, alias)) (dd_get modinit_map key)
       (s\<lparr>foundfile := List.insert key (foundfile s), modcb := dd_touch (modcb s) tag\<rparr>)"

definition c_file :: "str \<Rightarrow> str" where
  "c_file obj = normpath (chop 2 obj @ ''.c'')"

text \<open>\<open>mod,cb = output.strip().split()\<close>\<close>

definition init_of :: "str \<Rightarrow> (str \<times> str) res" where
  "init_of out = (case split_ws (strip out) of [md, cb] \<Rightarrow> Inr (md, cb) | _ \<Rightarrow> Inl ValueError)"

text \<open>A module: its init function, or, without one, the initcalls of its objects' sources.\<close>

definition module_file ::
    "fsys \<Rightarrow> (str \<Rightarrow> str) \<Rightarrow> initmap \<Rightarrow> str \<Rightarrow> str \<Rightarrow> bcmap \<Rightarrow> bcmap res" where
  "module_file fs mod_init modinit_map root f s =
     (let m = path_join root (chop 4 f @ ''.ko''); tag = path_join root (f @ ''.bcmerged'') in
      bindE (guardE (fs_exists fs m) AssertionError) (\<lambda>_.
      bindE (init_of (mod_init m)) (\<lambda>(md, cb).
        if cb \<noteq> ''NOINIT''
        then Inr (record_cb (fs_exists fs tag) tag f tag (cb, md @ ''.o'', ''x'') s)
        else bindE (read_text fs (path_join root f)) (\<lambda>data.
          let keys = filter (has_key modinit_map) (map c_file (lines_of (strip data)))
          in Inr (if keys = [] then s\<lparr>noentry := List.insert (path_join root f) (noentry s)\<rparr>
                  else fold (record_file modinit_map (fs_exists fs tag) tag f tag md) keys s)))))"

text \<open>The sources an object of an archive may come from; none for assembly, generated code and device trees.\<close>

definition obj_keys :: "nat \<Rightarrow> fsys \<Rightarrow> str \<Rightarrow> str \<Rightarrow> str \<Rightarrow> str \<Rightarrow> str \<Rightarrow> str \<Rightarrow> str list res" where
  "obj_keys limit fs cwd linux_src linux_build root f obj =
     bindE (from_end 2 obj) (\<lambda>c. bindE (guardE (c = CHR ''.'') AssertionError) (\<lambda>_.
       let key = normpath (path_join (path_join (relpath cwd root linux_build) (dirname f)) (chop 2 obj @ ''.c''))
       in if fs_exists fs (path_join linux_src (chop 2 key @ ''.S'')) \<or> fs_exists fs (path_join linux_build key)
            \<or> endswith obj ''.dtb.o'' then Inr []
          else if fs_exists fs (path_join linux_src key) then Inr [key]
          else bindE (resolve_from_mk limit fs cwd linux_src True key) (\<lambda>(keys, ofs). Inr keys)))"

definition record_key :: "fsys \<Rightarrow> initmap \<Rightarrow> str \<Rightarrow> str \<Rightarrow> str \<Rightarrow> str \<Rightarrow> bcmap \<Rightarrow> bcmap res" where
  "record_key fs modinit_map linux_src linux_build tag key s =
     bindE (guardE (fs_exists fs (path_join linux_src key)) AssertionError) (\<lambda>_.
       let bc = path_join linux_build (chop 2 key @ ''.bc'')
       in Inr (if has_key modinit_map key
               then record_file modinit_map (fs_exists fs bc) bc key tag key key s else s))"

text \<open>One object an archive lists: another archive is queued, the sources of others are recorded.\<close>

definition archive_obj ::
    "nat \<Rightarrow> fsys \<Rightarrow> str \<Rightarrow> initmap \<Rightarrow> str \<Rightarrow> str \<Rightarrow> str \<Rightarrow> str \<Rightarrow> str \<Rightarrow> str list \<times> bcmap \<Rightarrow> (str list \<times> bcmap) res" where
  "archive_obj limit fs cwd modinit_map linux_src linux_build root f obj ws =
     (if startswith (basename obj) ''built-in''
      then Inr (fst ws @ [path_join (path_join (dirname f) (dirname obj)) ''.built-in.a.cmd''], snd ws)
      else bindE (obj_keys limit fs cwd linux_src linux_build root f obj) (\<lambda>keys.
        bindE (foldE (record_key fs modinit_map linux_src linux_build (path_join root (f @ ''.bcmerged''))) keys (snd ws))
          (\<lambda>s. Inr (fst ws, s))))"

text \<open>One archive taken from the queue: the archives it lists, to be queued, and the new state.\<close>

definition archive_file ::
    "nat \<Rightarrow> fsys \<Rightarrow> str \<Rightarrow> initmap \<Rightarrow> str \<Rightarrow> str \<Rightarrow> str \<Rightarrow> str \<Rightarrow> bcmap \<Rightarrow> (str list \<times> bcmap) res" where
  "archive_file limit fs cwd modinit_map linux_src linux_build root f s =
     bindE (read_text fs (path_join root f)) (\<lambda>data. bindE (archive_objs data) (\<lambda>r.
       foldE (archive_obj limit fs cwd modinit_map linux_src linux_build root f)
         (case r of None \<Rightarrow> [] | Some objs \<Rightarrow> objs) ([], s)))"

partial_function (option) archives ::
    "nat \<Rightarrow> fsys \<Rightarrow> str \<Rightarrow> initmap \<Rightarrow> str \<Rightarrow> str \<Rightarrow> str \<Rightarrow> str list \<Rightarrow> bcmap \<Rightarrow> bcmap res option" where
  "archives limit fs cwd modinit_map linux_src linux_build root wq s = (case wq of
       [] \<Rightarrow> Some (Inr s)
     | f # fs' \<Rightarrow> (case archive_file limit fs cwd modinit_map linux_src linux_build root f s of
         Inl e \<Rightarrow> Some (Inl e)
       | Inr (wq', s) \<Rightarrow> archives limit fs cwd modinit_map linux_src linux_build root (fs' @ wq') s))"

declare archives.simps [code]

definition bcmap_file ::
    "nat \<Rightarrow> fsys \<Rightarrow> str \<Rightarrow> (str \<Rightarrow> str) \<Rightarrow> initmap \<Rightarrow> str \<Rightarrow> str \<Rightarrow> str \<times> str \<Rightarrow> bcmap \<Rightarrow> bcmap res" where
  "bcmap_file limit fs cwd mod_init modinit_map linux_src linux_build rf s = (case rf of (root, f) \<Rightarrow>
     if endswith f ''.mod'' then module_file fs mod_init modinit_map root f s
     else if f = ''.built-in.a.cmd''
     then bindE (returns (archives limit fs cwd modinit_map linux_src linux_build root [f] s)) (\<lambda>r. r)
     else Inr s)"

definition get_bcmap ::
    "nat \<Rightarrow> fsys \<Rightarrow> str \<Rightarrow> (str \<Rightarrow> str) \<Rightarrow> initmap \<Rightarrow> str \<Rightarrow> str \<Rightarrow> bcmap res" where
  "get_bcmap limit fs cwd mod_init modinit_map linux_src linux_build =
     foldE (bcmap_file limit fs cwd mod_init modinit_map linux_src linux_build)
       (walk_files (fs_walk fs linux_build))
       \<lparr>modcb = [], bclist = [], foundfile = [], noentry = [], nobc = []\<rparr>"

subsection \<open>The output\<close>

definition noentry_lines :: "pyset \<Rightarrow> str list res" where
  "noentry_lines tsks = mapE (\<lambda>tsk. bindE (guardE (endswith tsk ''.mod'') AssertionError)
     (\<lambda>_. Inr (chop 4 tsk @ ''.ko''))) tsks"

definition cb_line :: "str \<Rightarrow> str \<times> str \<times> str \<Rightarrow> str res" where
  "cb_line key t = (case t of (cb, owner, alias) \<Rightarrow> let modname = basename owner in
     bindE (from_end 2 modname) (\<lambda>c.
       Inr (key @ '':'' @ cb @ '','' @ (if c = CHR ''.'' then chop 2 modname else modname) @ '','' @ alias)))"

definition db_lines :: "(str \<times> (str \<times> str \<times> str) list) list \<Rightarrow> str list res" where
  "db_lines cbs = bindE (mapE (\<lambda>(key, ts). mapE (cb_line key) ts) cbs) (\<lambda>lss. Inr (concat lss))"

text \<open>\<open>main\<close>: the lines of \<open>noentry.list\<close> and of \<open>modinit.db\<close>.\<close>

definition modinitcb ::
    "nat \<Rightarrow> fsys \<Rightarrow> str \<Rightarrow> (str \<Rightarrow> str option) \<Rightarrow> (str \<Rightarrow> str) \<Rightarrow> str \<Rightarrow> str \<Rightarrow> str \<Rightarrow> str \<Rightarrow> (str list \<times> str list) res" where
  "modinitcb limit fs cwd grep mod_init patlist greplog linux_src linux_build =
     bindE (read_text fs patlist) (\<lambda>pats.
     bindE (get_initmap fs grep greplog linux_src (get_pats pats)) (\<lambda>modinit_map.
     bindE (get_bcmap limit fs cwd mod_init modinit_map linux_src linux_build) (\<lambda>s.
     bindE (noentry_lines (noentry s)) (\<lambda>ne. bindE (db_lines (modcb s)) (\<lambda>db. Inr (ne, db))))))"

text \<open>The files with uses that no object was found for; their names and number are printed.\<close>

definition not_found :: "initmap \<Rightarrow> bcmap \<Rightarrow> str list" where
  "not_found modinit_map s = filter (\<lambda>f. f \<notin> set (foundfile s)) (map fst modinit_map)"

text \<open>The script from its arguments; \<open>curdir\<close> is its own directory.\<close>

definition modinitcb_main ::
    "nat \<Rightarrow> fsys \<Rightarrow> str \<Rightarrow> str \<Rightarrow> (str \<Rightarrow> str option) \<Rightarrow> (str \<Rightarrow> str) \<Rightarrow> str list \<Rightarrow> (str list \<times> str list) res" where
  "modinitcb_main limit fs cwd curdir grep mod_init argv =
     bindE (index argv 1) (\<lambda>src. bindE (index argv 2) (\<lambda>build. bindE (index argv 3) (\<lambda>out.
       modinitcb limit fs cwd grep mod_init (path_join curdir ''modinitcb_macro.list'')
         (path_join (abspath cwd out) ''modinit.log'') (abspath cwd src) (abspath cwd build))))"

subsection \<open>The search for the Makefile\<close>

lemma find_mk_exists:
  assumes "find_mk ex mk = Some r"
  shows "ex r"
  using assms
  by (rule find_mk.raw_induct [where P = "\<lambda>ex mk r. ex r", rotated]) (auto simp: Let_def split: if_splits)

lemma find_mk_root:
  assumes "find_mk ex ''/Makefile'' = Some r"
  shows "ex ''/Makefile'' \<or> ex ''/Kbuild''"
proof -
  have root: "path_join (dirname ''/Makefile'') ''Kbuild'' = ''/Kbuild''"
    "path_join (dirname (dirname ''/Kbuild'')) ''Makefile'' = ''/Makefile''" by code_simp+
  have "''/Makefile'' = ''/Makefile'' \<longrightarrow> ex ''/Makefile'' \<or> ex ''/Kbuild''"
    using assms
    by (rule find_mk.raw_induct [where P = "\<lambda>ex mk r. mk = ''/Makefile'' \<longrightarrow> ex ''/Makefile'' \<or> ex ''/Kbuild''", rotated])
      (auto simp: Let_def root split: if_splits)
  then show ?thesis by blast
qed

text \<open>
  C35: the two copies of the search for the Makefile of an object agree, in \<open>gen_objdep.py\<close> and here,
  except when no directory up to the root has one: there the search of \<open>gen_objdep.py\<close> stops at
  \<open>/Kbuild\<close> and this one does not return.
\<close>

theorem mk_search_agree:
  assumes "abs_dir d"
  shows "find_mk ex (path_join d ''Makefile'') =
    (case find_makefile ex (path_join d ''Makefile'') of
       None \<Rightarrow> None | Some r \<Rightarrow> if ex r then Some r else None)"
  using assms
proof (induction "length d" arbitrary: d rule: less_induct)
  case less
  let ?m = "path_join d ''Makefile''" and ?kb = "path_join d ''Kbuild''" and ?up = "path_join (dirname d) ''Makefile''"
  have m: "dirname ?m = d" and kb: "dirname ?kb = d" using less.prems by (intro dirname_join; auto)+
  note unf = find_mk.simps [of ex ?m] find_makefile.simps [of ex ?m]
  consider "ex ?m \<or> ex ?kb" | "\<not> ex ?m" "\<not> ex ?kb" "?kb = ''/Kbuild''"
    | "\<not> ex ?m" "\<not> ex ?kb" "?kb \<noteq> ''/Kbuild''" by blast
  then show ?case
  proof cases
    case 1
    then show ?thesis unfolding unf by (auto simp: m Let_def)
  next
    case 2
    have "dirname ''/Kbuild'' = ''/''" by code_simp
    then have "d = ''/''" using kb unfolding 2(3) by simp
    then have "?m = ''/Makefile''" by (simp add: path_join_def endswith_rev)
    with 2 have "find_mk ex ?m = None" using find_mk_root [of ex] by fastforce
    moreover have "find_makefile ex ?m = Some ''/Kbuild''" using 2 by (subst find_makefile.simps) (simp add: m Let_def)
    ultimately show ?thesis using 2 by simp
  next
    case 3
    then have "d \<noteq> ''/''" by (auto simp: path_join_def endswith_rev)
    with less.prems have "startswith d ''/''" "\<not> startswith d ''//''" "\<not> endswith d ''/''"
      by (auto simp: abs_dir_def)
    then have "abs_dir (dirname d)" "length (dirname d) < length d" using abs_dir_dirname by blast+
    then have "find_mk ex ?up = (case find_makefile ex ?up of None \<Rightarrow> None | Some r \<Rightarrow> if ex r then Some r else None)"
      by (intro less.hyps)
    with 3 show ?thesis unfolding unf by (simp add: m kb Let_def)
  qed
qed

theorem mk_search_agree_witness:
  "find_mk (\<lambda>p. p = ''/k/Makefile'') (path_join ''/k/drivers'' ''Makefile'') =
    (case find_makefile (\<lambda>p. p = ''/k/Makefile'') (path_join ''/k/drivers'' ''Makefile'') of
       None \<Rightarrow> None | Some r \<Rightarrow> if r = ''/k/Makefile'' then Some r else None)"
  by (rule mk_search_agree) (simp add: abs_dir_def endswith_rev)

subsection \<open>What is recorded\<close>

definition recorded :: "bcmap \<Rightarrow> (str \<times> str \<times> str \<times> str) set" where
  "recorded s = {(tag, t). t \<in> set (dd_get (modcb s) tag)}"

lemma record_cb_fields [simp]:
  "recorded (record_cb built bc missing tag t s) = insert (tag, t) (recorded s)"
  "foundfile (record_cb built bc missing tag t s) = foundfile s"
  "noentry (record_cb built bc missing tag t s) = noentry s"
  by (auto simp: record_cb_def recorded_def Let_def set_dd_add split: if_splits)

lemma fold_record_cb:
  fixes built bc missing tag owner
  defines "step \<equiv> \<lambda>(cb, alias). record_cb built bc missing tag (cb, owner, alias)"
  shows "recorded (fold step ps s) = recorded s \<union> {(tag, cb, owner, alias) | cb alias. (cb, alias) \<in> set ps} \<and>
    foundfile (fold step ps s) = foundfile s \<and> noentry (fold step ps s) = noentry s"
proof (induction ps arbitrary: s)
  case (Cons p ps)
  obtain cb al where "p = (cb, al)" by (cases p)
  with Cons [of "step p s"] show ?case by (auto simp: step_def)
qed simp

lemma record_file_fields [simp]:
  "recorded (record_file m built bc missing tag owner key s) =
     recorded s \<union> {(tag, cb, owner, alias) | cb alias. (cb, alias) \<in> set (dd_get m key)}"
  "foundfile (record_file m built bc missing tag owner key s) = List.insert key (foundfile s)"
  "noentry (record_file m built bc missing tag owner key s) = noentry s"
proof -
  have "recorded (s\<lparr>foundfile := List.insert key (foundfile s), modcb := dd_touch (modcb s) tag\<rparr>) = recorded s"
    by (simp add: recorded_def)
  then show "recorded (record_file m built bc missing tag owner key s) =
     recorded s \<union> {(tag, cb, owner, alias) | cb alias. (cb, alias) \<in> set (dd_get m key)}"
    by (simp add: record_file_def fold_record_cb)
qed (simp_all add: record_file_def fold_record_cb)

lemma endswith_path_join: "endswith f ''.mod'' \<Longrightarrow> endswith (path_join root f) ''.mod''"
  by (auto simp: endswith_suffix path_join_def suffix_def)

text \<open>
  What the database is to hold. The init functions are those \<open>get-mod-init.sh\<close> prints for the modules
  of the build; a source of a module or archive is recorded under a tag and an owner.
\<close>

type_synonym src_tag = "str \<times> str \<times> str"  \<comment> \<open>tag, owner, source file\<close>

definition init_entries :: "(str \<Rightarrow> str) \<Rightarrow> str \<times> str \<Rightarrow> (str \<times> str \<times> str \<times> str) set" where
  "init_entries mod_init rf = {(path_join (fst rf) (snd rf @ ''.bcmerged''), cb, md @ ''.o'', ''x'') | md cb.
     endswith (snd rf) ''.mod'' \<and> cb \<noteq> ''NOINIT'' \<and>
     init_of (mod_init (path_join (fst rf) (chop 4 (snd rf) @ ''.ko''))) = Inr (md, cb)}"

definition module_srcs :: "fsys \<Rightarrow> (str \<Rightarrow> str) \<Rightarrow> str \<times> str \<Rightarrow> src_tag set" where
  "module_srcs fs mod_init rf = {(path_join (fst rf) (snd rf @ ''.bcmerged''), md, c_file obj) | md data obj.
     endswith (snd rf) ''.mod'' \<and> init_of (mod_init (path_join (fst rf) (chop 4 (snd rf) @ ''.ko''))) = Inr (md, ''NOINIT'') \<and>
     read_text fs (path_join (fst rf) (snd rf)) = Inr data \<and> obj \<in> set (lines_of (strip data))}"

text \<open>The archives that are read: that of the directory, and those an archive that is read lists.\<close>

definition archive_lists :: "fsys \<Rightarrow> str \<Rightarrow> str \<Rightarrow> str set" where
  "archive_lists fs root f = {obj. \<exists>data objs. read_text fs (path_join root f) = Inr data \<and>
     archive_objs data = Inr (Some objs) \<and> obj \<in> set objs}"

definition sub_archives :: "fsys \<Rightarrow> str \<Rightarrow> str \<Rightarrow> str set" where
  "sub_archives fs root f = {path_join (path_join (dirname f) (dirname obj)) ''.built-in.a.cmd'' | obj.
     obj \<in> archive_lists fs root f \<and> startswith (basename obj) ''built-in''}"

inductive_set archives_read :: "fsys \<Rightarrow> str \<Rightarrow> str set \<Rightarrow> str set" for fs root W where
  listed: "f \<in> W \<Longrightarrow> f \<in> archives_read fs root W"
| inner: "f \<in> archives_read fs root W \<Longrightarrow> g \<in> sub_archives fs root f \<Longrightarrow> g \<in> archives_read fs root W"

definition archive_srcs :: "nat \<Rightarrow> fsys \<Rightarrow> str \<Rightarrow> str \<Rightarrow> str \<Rightarrow> str \<Rightarrow> str \<Rightarrow> src_tag set" where
  "archive_srcs limit fs cwd linux_src linux_build root f =
     {(path_join root (f @ ''.bcmerged''), key, key) | key. \<exists>obj keys.
        obj \<in> archive_lists fs root f \<and> \<not> startswith (basename obj) ''built-in'' \<and>
        obj_keys limit fs cwd linux_src linux_build root f obj = Inr keys \<and> key \<in> set keys}"

definition file_srcs ::
    "nat \<Rightarrow> fsys \<Rightarrow> str \<Rightarrow> (str \<Rightarrow> str) \<Rightarrow> str \<Rightarrow> str \<Rightarrow> str \<times> str \<Rightarrow> src_tag set" where
  "file_srcs limit fs cwd mod_init linux_src linux_build rf =
     (if snd rf = ''.built-in.a.cmd''
      then \<Union>f \<in> archives_read fs (fst rf) {snd rf}. archive_srcs limit fs cwd linux_src linux_build (fst rf) f
      else module_srcs fs mod_init rf)"

text \<open>The initcalls of sources, and the sources that have some.\<close>

definition src_entries :: "initmap \<Rightarrow> src_tag set \<Rightarrow> (str \<times> str \<times> str \<times> str) set" where
  "src_entries m X = {(tag, cb, owner, alias) | tag cb owner alias key. (tag, owner, key) \<in> X \<and> (cb, alias) \<in> set (dd_get m key)}"

definition src_keys :: "initmap \<Rightarrow> src_tag set \<Rightarrow> str set" where
  "src_keys m X = {key. has_key m key \<and> (\<exists>tag owner. (tag, owner, key) \<in> X)}"

definition no_entries :: "fsys \<Rightarrow> (str \<Rightarrow> str) \<Rightarrow> initmap \<Rightarrow> str \<times> str \<Rightarrow> str set" where
  "no_entries fs mod_init m rf = {p. p = path_join (fst rf) (snd rf) \<and> endswith (snd rf) ''.mod'' \<and>
     src_keys m (module_srcs fs mod_init rf) = {} \<and>
     (\<exists>md. init_of (mod_init (path_join (fst rf) (chop 4 (snd rf) @ ''.ko''))) = Inr (md, ''NOINIT''))}"

text \<open>A piece of the walk adds init functions, sources and modules without entry.\<close>

definition adds ::
    "initmap \<Rightarrow> (str \<times> str \<times> str \<times> str) set \<Rightarrow> src_tag set \<Rightarrow> str set \<Rightarrow> bcmap \<Rightarrow> bcmap \<Rightarrow> bool" where
  "adds m I X N s t \<longleftrightarrow> recorded t = recorded s \<union> I \<union> src_entries m X \<and>
     set (foundfile t) = set (foundfile s) \<union> src_keys m X \<and> set (noentry t) = set (noentry s) \<union> N"

lemma src_unions:
  "src_entries m (\<Union>x \<in> S. X x) = (\<Union>x \<in> S. src_entries m (X x))" "src_keys m (\<Union>x \<in> S. X x) = (\<Union>x \<in> S. src_keys m (X x))"
  "src_entries m (A \<union> B) = src_entries m A \<union> src_entries m B" "src_keys m (A \<union> B) = src_keys m A \<union> src_keys m B"
  "src_entries m {} = {}" "src_keys m {} = {}"
  by (auto simp: src_entries_def src_keys_def; blast)+

lemma adds_refl: "adds m {} {} {} s s"
  by (simp add: adds_def src_unions)

lemma adds_trans: "adds m I X N s t \<Longrightarrow> adds m J Y M t u \<Longrightarrow> adds m (I \<union> J) (X \<union> Y) (N \<union> M) s u"
  unfolding adds_def src_unions by blast

lemma adds_foldE:
  assumes "foldE f xs s = Inr t" and "\<And>x u v. x \<in> set xs \<Longrightarrow> f x u = Inr v \<Longrightarrow> adds m (I x) (X x) (N x) (h u) (h v)"
  shows "adds m (\<Union>x \<in> set xs. I x) (\<Union>x \<in> set xs. X x) (\<Union>x \<in> set xs. N x) (h s) (h t)"
  using assms
proof (induction xs arbitrary: s)
  case Nil
  then show ?case by (simp add: adds_refl)
next
  case (Cons x xs)
  from Cons.prems(1) obtain u where "f x s = Inr u" and "foldE f xs u = Inr t" by (auto simp: bindE_Inr_iff)
  then show ?case using adds_trans [OF Cons.prems(2) [of x s u] Cons.IH [of u]] Cons.prems(2) by simp
qed

lemma record_file_adds:
  assumes "has_key m key"
  shows "adds m {} {(tag, owner, key)} {} s (record_file m built bc missing tag owner key s)"
proof -
  have "src_entries m {(tag, owner, key)} = {(tag, cb, owner, alias) | cb alias. (cb, alias) \<in> set (dd_get m key)}"
    "src_keys m {(tag, owner, key)} = {key}"
    using assms by (auto simp: src_entries_def src_keys_def)
  then show ?thesis unfolding adds_def record_file_fields by (simp add: Un_ac)
qed

lemma record_key_adds:
  assumes "record_key fs m linux_src linux_build tag key s = Inr t"
  shows "adds m {} {(tag, key, key)} {} s t"
proof (cases "has_key m key")
  case True
  with assms show ?thesis by (auto simp: record_key_def bindE_Inr_iff Let_def intro: record_file_adds)
next
  case False
  then have "t = s" "src_entries m {(tag, key, key)} = {}" "src_keys m {(tag, key, key)} = {}"
    using assms by (auto simp: record_key_def bindE_Inr_iff Let_def src_entries_def src_keys_def has_key_iff dd_get_outside)
  then show ?thesis by (simp add: adds_def)
qed

lemma record_files_adds:
  "adds m {} {(tag, owner, key) | key. key \<in> set keys} {} s
     (fold (record_file m built bc missing tag owner) (filter (has_key m) keys) s)"
proof (induction keys arbitrary: s)
  case Nil
  then show ?case by (simp add: adds_refl)
next
  case (Cons k ks)
  have split: "{(tag, owner, key) | key. key \<in> set (k # ks)} = {(tag, owner, k)} \<union> {(tag, owner, key) | key. key \<in> set ks}"
    by auto
  show ?case
  proof (cases "has_key m k")
    case True
    then show ?thesis unfolding split using adds_trans [OF record_file_adds [OF True] Cons] by simp
  next
    case False
    then have "src_entries m {(tag, owner, k)} = {}" "src_keys m {(tag, owner, k)} = {}"
      by (auto simp: src_entries_def src_keys_def has_key_iff dd_get_outside)
    with False Cons show ?thesis unfolding split adds_def src_unions by simp
  qed
qed

lemma module_file_adds:
  assumes "module_file fs mod_init m root f s = Inr t" and "endswith f ''.mod''"
  shows "adds m (init_entries mod_init (root, f)) (module_srcs fs mod_init (root, f)) (no_entries fs mod_init m (root, f)) s t"
proof -
  define tag where "tag = path_join root (f @ ''.bcmerged'')"
  define ko where "ko = path_join root (chop 4 f @ ''.ko'')"
  define keys where "keys data = map c_file (lines_of (strip data))" for data
  from assms(1) obtain md cb where out: "init_of (mod_init ko) = Inr (md, cb)"
    and body: "(if cb \<noteq> ''NOINIT''
      then Inr (record_cb (fs_exists fs tag) tag f tag (cb, md @ ''.o'', ''x'') s)
      else bindE (read_text fs (path_join root f)) (\<lambda>data. Inr (if filter (has_key m) (keys data) = []
          then s\<lparr>noentry := List.insert (path_join root f) (noentry s)\<rparr>
          else fold (record_file m (fs_exists fs tag) tag f tag md) (filter (has_key m) (keys data)) s))) = Inr t"
    unfolding module_file_def Let_def tag_def [symmetric] ko_def [symmetric] keys_def [symmetric]
    by (elim bindE_InrE) (auto split: prod.split_asm)
  note defs = init_entries_def module_srcs_def no_entries_def fst_conv snd_conv tag_def [symmetric] ko_def [symmetric] out
  show ?thesis
  proof (cases "cb = ''NOINIT''")
    case False
    then have "t = record_cb (fs_exists fs tag) tag f tag (cb, md @ ''.o'', ''x'') s" using body by simp
    moreover have "init_entries mod_init (root, f) = {(tag, cb, md @ ''.o'', ''x'')}" "module_srcs fs mod_init (root, f) = {}"
      "no_entries fs mod_init m (root, f) = {}"
      using False assms(2) unfolding defs by auto
    ultimately show ?thesis by (simp add: adds_def src_unions)
  next
    case True
    then obtain data where data: "read_text fs (path_join root f) = Inr data"
      and t: "t = (if filter (has_key m) (keys data) = [] then s\<lparr>noentry := List.insert (path_join root f) (noentry s)\<rparr>
          else fold (record_file m (fs_exists fs tag) tag f tag md) (filter (has_key m) (keys data)) s)"
      using body by (auto simp: bindE_Inr_iff)
    have srcs: "module_srcs fs mod_init (root, f) = {(tag, md, key) | key. key \<in> set (keys data)}"
      using True assms(2) data unfolding defs keys_def by auto
    have skeys: "src_keys m (module_srcs fs mod_init (root, f)) = set (filter (has_key m) (keys data))"
      unfolding srcs src_keys_def by auto
    have inits: "init_entries mod_init (root, f) = {}" using True unfolding defs by simp
    have none: "no_entries fs mod_init m (root, f) = (if filter (has_key m) (keys data) = [] then {path_join root f} else {})"
      using True assms(2) unfolding no_entries_def skeys fst_conv snd_conv ko_def [symmetric] out by (auto simp: filter_empty_conv)
    show ?thesis
    proof (cases "filter (has_key m) (keys data) = []")
      case True
      then have "src_entries m (module_srcs fs mod_init (root, f)) = {}"
        unfolding srcs by (auto simp: src_entries_def filter_empty_conv has_key_iff dd_get_outside)
      with True show ?thesis unfolding t by (simp add: adds_def inits none skeys recorded_def insert_def [symmetric])
    next
      case False
      with record_files_adds [of m tag md "keys data" s "fs_exists fs tag" tag f]
      show ?thesis unfolding t inits none srcs by simp
    qed
  qed
qed

lemma archive_obj_adds:
  assumes "archive_obj limit fs cwd m linux_src linux_build root f obj ws = Inr vs"
  shows "set (fst vs) = set (fst ws) \<union> {path_join (path_join (dirname f) (dirname obj)) ''.built-in.a.cmd'' | x.
      startswith (basename obj) ''built-in''} \<and>
    adds m {} {(path_join root (f @ ''.bcmerged''), key, key) | key keys. \<not> startswith (basename obj) ''built-in'' \<and>
      obj_keys limit fs cwd linux_src linux_build root f obj = Inr keys \<and> key \<in> set keys} {} (snd ws) (snd vs)"
proof (cases "startswith (basename obj) ''built-in''")
  case True
  with assms show ?thesis by (auto simp: archive_obj_def adds_refl)
next
  case False
  let ?tag = "path_join root (f @ ''.bcmerged'')"
  from False assms obtain keys where keys: "obj_keys limit fs cwd linux_src linux_build root f obj = Inr keys"
    and run: "foldE (record_key fs m linux_src linux_build ?tag) keys (snd ws) = Inr (snd vs)" and fst: "fst vs = fst ws"
    by (auto simp: archive_obj_def bindE_Inr_iff)
  have "adds m (\<Union>x \<in> set keys. {}) (\<Union>key \<in> set keys. {(?tag, key, key)}) (\<Union>x \<in> set keys. {}) (snd ws) (snd vs)"
    using adds_foldE [OF run, where h = id] record_key_adds by fastforce
  moreover have "(\<Union>key \<in> set keys. {(?tag, key, key)}) = {(?tag, key, key) | key keys'.
      \<not> startswith (basename obj) ''built-in'' \<and>
      obj_keys limit fs cwd linux_src linux_build root f obj = Inr keys' \<and> key \<in> set keys'}"
    using False keys by auto
  ultimately show ?thesis using False fst by simp
qed

lemma archive_file_adds:
  assumes "archive_file limit fs cwd m linux_src linux_build root f s = Inr (wq, t)"
  shows "set wq = sub_archives fs root f \<and>
    adds m {} (archive_srcs limit fs cwd linux_src linux_build root f) {} s t"
proof -
  from assms obtain data r where data: "read_text fs (path_join root f) = Inr data" "archive_objs data = Inr r"
    and run: "foldE (archive_obj limit fs cwd m linux_src linux_build root f) (case r of None \<Rightarrow> [] | Some objs \<Rightarrow> objs) ([], s) =
      Inr (wq, t)"
    unfolding archive_file_def by (elim bindE_InrE)
  define objs where "objs = (case r of None \<Rightarrow> [] | Some objs \<Rightarrow> objs)"
  have lists: "archive_lists fs root f = set objs"
    using data by (auto simp: archive_lists_def objs_def split: option.splits)
  note run = run [folded objs_def]
  have "set (fst (wq, t)) = set (fst ([] :: str list, s)) \<union> (\<Union>obj \<in> set objs.
      {path_join (path_join (dirname f) (dirname obj)) ''.built-in.a.cmd'' | x. startswith (basename obj) ''built-in''})"
    by (rule foldE_union [OF run, where A = "\<lambda>ws. set (fst ws)"]) (use archive_obj_adds in blast)
  then have "set wq = sub_archives fs root f" unfolding sub_archives_def lists by auto
  moreover have "adds m (\<Union>obj \<in> set objs. {}) (\<Union>obj \<in> set objs. {(path_join root (f @ ''.bcmerged''), key, key) | key keys.
      \<not> startswith (basename obj) ''built-in'' \<and> obj_keys limit fs cwd linux_src linux_build root f obj = Inr keys \<and>
      key \<in> set keys}) (\<Union>obj \<in> set objs. {}) (snd ([] :: str list, s)) (snd (wq, t))"
    by (rule adds_foldE [OF run, where h = snd]) (use archive_obj_adds in blast)
  moreover have "(\<Union>obj \<in> set objs. {(path_join root (f @ ''.bcmerged''), key, key) | key keys.
      \<not> startswith (basename obj) ''built-in'' \<and> obj_keys limit fs cwd linux_src linux_build root f obj = Inr keys \<and>
      key \<in> set keys}) = archive_srcs limit fs cwd linux_src linux_build root f"
    unfolding archive_srcs_def lists by blast
  ultimately show ?thesis by simp
qed

lemma archives_read_insert:
  "archives_read fs root (insert f W) = insert f (archives_read fs root (W \<union> sub_archives fs root f))"
proof (intro set_eqI iffI)
  fix g assume "g \<in> archives_read fs root (insert f W)"
  then show "g \<in> insert f (archives_read fs root (W \<union> sub_archives fs root f))"
    by induction (auto intro: archives_read.intros)
next
  fix g assume "g \<in> insert f (archives_read fs root (W \<union> sub_archives fs root f))"
  moreover have "g \<in> archives_read fs root (W \<union> sub_archives fs root f) \<Longrightarrow> g \<in> archives_read fs root (insert f W)"
    by (induction rule: archives_read.induct)
      (auto intro: archives_read.intros archives_read.inner [OF archives_read.listed])
  ultimately show "g \<in> archives_read fs root (insert f W)" by (auto intro: archives_read.listed)
qed

lemma archives_read_none: "archives_read fs root {} = {}"
proof -
  have "g \<in> archives_read fs root {} \<Longrightarrow> False" for g by (induction rule: archives_read.induct) simp_all
  then show ?thesis by blast
qed

lemma archives_adds:
  assumes "archives limit fs cwd m linux_src linux_build root wq s = Some r"
  shows "r = Inr t \<longrightarrow> adds m {} (\<Union>f \<in> archives_read fs root (set wq).
    archive_srcs limit fs cwd linux_src linux_build root f) {} s t"
  using assms
proof (rule archives.raw_induct [where P = "\<lambda>limit fs cwd m linux_src linux_build root wq s r.
      r = Inr t \<longrightarrow> adds m {} (\<Union>f \<in> archives_read fs root (set wq).
        archive_srcs limit fs cwd linux_src linux_build root f) {} s t", rotated], goal_cases)
  case (1 rec limit fs cwd m linux_src linux_build root wq s r)
  show ?case
  proof (intro impI)
    assume r: "r = Inr t"
    show "adds m {} (\<Union>f \<in> archives_read fs root (set wq). archive_srcs limit fs cwd linux_src linux_build root f) {} s t"
    proof (cases wq)
      case Nil
      with 1(2) r show ?thesis by (simp add: archives_read_none adds_refl)
    next
      case (Cons f wq0)
      with 1(2) r obtain wq' u where af: "archive_file limit fs cwd m linux_src linux_build root f s = Inr (wq', u)"
        and rest: "rec limit fs cwd m linux_src linux_build root (wq0 @ wq') u = Some (Inr t)"
        by (auto split: sum.splits)
      from archive_file_adds [OF af] have subs: "set wq' = sub_archives fs root f"
        and here: "adds m {} (archive_srcs limit fs cwd linux_src linux_build root f) {} s u" by blast+
      from 1(1) [OF rest] have "adds m {} (\<Union>f \<in> archives_read fs root (set (wq0 @ wq')).
          archive_srcs limit fs cwd linux_src linux_build root f) {} u t" by simp
      from adds_trans [OF here this] show ?thesis unfolding Cons by (simp add: archives_read_insert subs)
    qed
  qed
qed

lemma bcmap_file_adds:
  assumes "bcmap_file limit fs cwd mod_init m linux_src linux_build rf s = Inr t"
  shows "adds m (init_entries mod_init rf) (file_srcs limit fs cwd mod_init linux_src linux_build rf)
    (no_entries fs mod_init m rf) s t"
proof -
  obtain root f where rf: "rf = (root, f)" by (cases rf)
  have cmd: "\<not> endswith archive_cmd ''.mod''" by code_simp
  show ?thesis
  proof (cases "endswith f ''.mod''")
    case True
    then have "f \<noteq> archive_cmd" using cmd by blast
    with True assms show ?thesis
      unfolding bcmap_file_def rf prod.case file_srcs_def snd_conv by (simp only: if_True if_False module_file_adds)
  next
    case False
    then have none: "init_entries mod_init rf = {}" "no_entries fs mod_init m rf = {}" "module_srcs fs mod_init rf = {}"
      by (auto simp: rf init_entries_def no_entries_def module_srcs_def)
    note fl = assms [unfolded bcmap_file_def rf prod.case, simplified False if_False]
    show ?thesis
    proof (cases "f = archive_cmd")
      case True
      with fl obtain r where "returns (archives limit fs cwd m linux_src linux_build root [archive_cmd] s) = Inr r" "r = Inr t"
        by (simp only: if_True simp_thms) (erule bindE_InrE, blast)
      then have "archives limit fs cwd m linux_src linux_build root [archive_cmd] s = Some (Inr t)"
        by (auto simp: returns_def split: option.split_asm)
      then have "adds m {} (\<Union>f \<in> archives_read fs root {archive_cmd}.
          archive_srcs limit fs cwd linux_src linux_build root f) {} s t"
        using archives_adds [of limit fs cwd m linux_src linux_build root "[archive_cmd]" s "Inr t" t] by simp
      moreover have "file_srcs limit fs cwd mod_init linux_src linux_build rf =
          (\<Union>f \<in> archives_read fs root {archive_cmd}. archive_srcs limit fs cwd linux_src linux_build root f)"
        by (simp add: file_srcs_def rf True)
      ultimately show ?thesis unfolding none by (simp only:)
    next
      case False
      with fl have "t = s" by (simp only: if_False sum.inject)
      with False show ?thesis unfolding none file_srcs_def by (simp add: rf none [unfolded rf] adds_refl)
    qed
  qed
qed

text \<open>
  C36: the database of initcalls is exact: after \<open>get_bcmap\<close> the entries are those of the init functions
  that \<open>get-mod-init.sh\<close> prints for the modules of the build, each with the tag and the name of its
  module, and the initcalls of the sources of modules without one and of the archives read, each with
  the tag of its module or archive and its owner; the files found are the sources with initcalls; the
  modules without entry are those without init function whose sources have no initcall, and they are
  \<open>.mod\<close> files, so that the assertion of the output loop holds.
\<close>

theorem bcmap_exact:
  assumes "get_bcmap limit fs cwd mod_init m linux_src linux_build = Inr s"
  defines "files \<equiv> set (walk_files (fs_walk fs linux_build))"
  defines "srcs \<equiv> \<Union>rf \<in> files. file_srcs limit fs cwd mod_init linux_src linux_build rf"
  shows "recorded s = (\<Union>rf \<in> files. init_entries mod_init rf) \<union> src_entries m srcs \<and>
    set (foundfile s) = src_keys m srcs \<and>
    set (noentry s) = (\<Union>rf \<in> files. no_entries fs mod_init m rf) \<and>
    noentry_lines (noentry s) = Inr (map (\<lambda>f. chop 4 f @ ''.ko'') (noentry s))"
proof -
  have "adds m (\<Union>rf \<in> files. init_entries mod_init rf) srcs (\<Union>rf \<in> files. no_entries fs mod_init m rf)
      (id \<lparr>modcb = [], bclist = [], foundfile = [], noentry = [], nobc = []\<rparr>) (id s)"
    unfolding files_def srcs_def
    by (rule adds_foldE [OF assms(1) [unfolded get_bcmap_def], where h = id]) (simp add: bcmap_file_adds)
  then have s: "recorded s = (\<Union>rf \<in> files. init_entries mod_init rf) \<union> src_entries m srcs"
    "set (foundfile s) = src_keys m srcs" "set (noentry s) = (\<Union>rf \<in> files. no_entries fs mod_init m rf)"
    by (simp_all add: adds_def recorded_def)
  have "endswith p ''.mod''" if "p \<in> set (noentry s)" for p
    using that endswith_path_join unfolding s(3) no_entries_def by blast
  then have "noentry_lines (noentry s) = Inr (map (\<lambda>f. chop 4 f @ ''.ko'') (noentry s))"
    unfolding noentry_lines_def by (intro mapE_total) simp
  with s show ?thesis by blast
qed

text \<open>\<open>c.ko\<close> has an init function; \<open>a.ko\<close> has none, but its source has; \<open>b.o\<close> is built in.\<close>

definition demo_db :: fsys where
  "demo_db = \<lparr>fs_walk = \<lambda>_. [(''/b/net'', [''a.mod'', ''c.mod'', archive_cmd])],
     fs_exists = \<lambda>p. p \<in> set [''/b/net/a.ko'', ''/b/net/a.mod.bcmerged'', ''/b/net/c.ko'', ''/src/net/b.c''],
     fs_text = \<lambda>p. Some (if p = ''/b/net/a.mod'' then ''net/a.o'' else ''cmd_x := rm -f x; printf x %s b.o | xargs ar'')\<rparr>"

definition demo_mod_init :: "str \<Rightarrow> str" where
  "demo_mod_init ko = (if ko = ''/b/net/c.ko'' then ''c c_init'' else ''a NOINIT'')"

definition demo_initmap :: initmap where
  "demo_initmap = [(''net/a.c'', [(''a_init'', ''x'')]), (''net/b.c'', [(''b_init'', ''of:N*T*C*b'')])]"

definition demo_bcmap :: bcmap where
  "demo_bcmap = \<lparr>modcb = [(''/b/net/a.mod.bcmerged'', [(''a_init'', ''a'', ''x'')]),
      (''/b/net/c.mod.bcmerged'', [(''c_init'', ''c.o'', ''x'')]),
      (''/b/net/.built-in.a.cmd.bcmerged'', [(''b_init'', ''net/b.c'', ''of:N*T*C*b'')])],
    bclist = [''/b/net/a.mod.bcmerged''], foundfile = [''net/b.c'', ''net/a.c''], noentry = [], nobc = [''net/b.c'', ''c.mod'']\<rparr>"

theorem bcmap_exact_witness:
  "(''/b/net/c.mod.bcmerged'', ''c_init'', ''c.o'', ''x'') \<in> recorded demo_bcmap \<and>
   recorded demo_bcmap = (\<Union>rf \<in> set (walk_files (fs_walk demo_db ''/b'')). init_entries demo_mod_init rf) \<union>
     src_entries demo_initmap (\<Union>rf \<in> set (walk_files (fs_walk demo_db ''/b'')).
       file_srcs 10 demo_db ''/'' demo_mod_init ''/src'' ''/b'' rf) \<and>
   set [''net/b.c'', ''net/a.c''] = src_keys demo_initmap (\<Union>rf \<in> set (walk_files (fs_walk demo_db ''/b'')).
       file_srcs 10 demo_db ''/'' demo_mod_init ''/src'' ''/b'' rf)"
proof -
  have "get_bcmap 10 demo_db ''/'' demo_mod_init demo_initmap ''/src'' ''/b'' = Inr demo_bcmap" by code_simp
  note exact = bcmap_exact [OF this]
  have "(''/b/net/c.mod.bcmerged'', ''c_init'', ''c.o'', ''x'') \<in> recorded demo_bcmap"
    by (simp add: recorded_def demo_bcmap_def dd_get_def)
  moreover have "foundfile demo_bcmap = [''net/b.c'', ''net/a.c'']" by (simp add: demo_bcmap_def)
  ultimately show ?thesis using exact by simp
qed

end
