(* ===== verification/CoreDeps.thy ===== *)
theory CoreDeps
  imports Target HwDb CompUnit
begin

section \<open>Dependencies between modules beyond modules.dep\<close>

text \<open>
  Two analyses over the modules of a directory and their symbol tables (the output of \<open>nm\<close>, a
  parameter): \<open>builddep.get_core_deps\<close> finds the drivers that register with a module through one of
  the registration functions of a bus or class, and \<open>checkmodsym.get_data_deps\<close> finds pairs of modules
  that are not dependent on each other but import a symbol of the same third module.
\<close>

subsection \<open>builddep.get_core_deps\<close>

text \<open>\<open>checkdrv\<close>: the paths of each module of the walk.\<close>

definition drv_file :: "str \<times> str \<Rightarrow> pyset dict \<Rightarrow> pyset dict" where
  "drv_file rf checkdrv = (let mname = norm_mod (snd rf) in
     if endswith mname ''.ko''
     then dd_add (dash_to_us (chop 3 (basename mname))) (path_join (fst rf) (snd rf)) checkdrv
     else checkdrv)"

definition check_drv :: "walk \<Rightarrow> pyset dict" where
  "check_drv w = fold drv_file (walk_files w) []"

text \<open>\<open>regprov\<close>: the registration functions that modules which are no drivers define.\<close>

definition reg_path :: "(str \<Rightarrow> str) \<Rightarrow> pyset \<Rightarrow> str \<Rightarrow> str \<Rightarrow> pyset dict \<Rightarrow> pyset dict res" where
  "reg_path nm busreg_apis md p regprov = bindE (get_sym nm p [''t'', ''T''])
     (\<lambda>syms. Inr (fold (\<lambda>sy. if sy \<in> set busreg_apis then dd_add md sy else id) syms regprov))"

definition reg_mod :: "(str \<Rightarrow> str) \<Rightarrow> pyset dict \<Rightarrow> pyset \<Rightarrow> pyset \<Rightarrow> str \<Rightarrow> pyset dict \<Rightarrow> pyset dict res" where
  "reg_mod nm checkdrv drvs busreg_apis md regprov =
     (if md \<in> set drvs then Inr regprov
      else foldE (reg_path nm busreg_apis md) (dd_get checkdrv md) regprov)"

text \<open>
  A symbol a module imports: each provider \<open>d\<close> of it gets the module, or the drivers the module
  depends on when it is none.
\<close>

definition core_add :: "pyset \<Rightarrow> pyset dict \<Rightarrow> str \<Rightarrow> str \<Rightarrow> pyset dict \<Rightarrow> pyset dict res" where
  "core_add drvs dep_map md d core =
     (let core = dd_touch core d in
      if md \<in> set drvs then Inr (dd_add d md core)
      else bindE (dict_get dep_map md) (\<lambda>dms.
        Inr (fold (\<lambda>dm. if dm \<in> set drvs then dd_add d dm else id) dms core)))"

definition core_sym :: "pyset \<Rightarrow> pyset dict \<Rightarrow> pyset dict \<Rightarrow> str \<Rightarrow> str \<Rightarrow> pyset dict \<Rightarrow> pyset dict res" where
  "core_sym drvs dep_map regprov md sy =
     foldE (core_add drvs dep_map md) (map fst (filter (\<lambda>(d, apis). sy \<in> set apis) regprov))"

definition core_path ::
    "(str \<Rightarrow> str) \<Rightarrow> pyset \<Rightarrow> pyset dict \<Rightarrow> pyset dict \<Rightarrow> str \<Rightarrow> str \<Rightarrow> pyset dict \<Rightarrow> pyset dict res" where
  "core_path nm drvs dep_map regprov md p core = bindE (get_sym nm p [''u'', ''U''])
     (\<lambda>syms. foldE (core_sym drvs dep_map regprov md) syms core)"

definition core_mod ::
    "(str \<Rightarrow> str) \<Rightarrow> pyset dict \<Rightarrow> pyset \<Rightarrow> pyset dict \<Rightarrow> pyset dict \<Rightarrow> str \<Rightarrow> pyset dict \<Rightarrow> pyset dict res" where
  "core_mod nm checkdrv drvs dep_map regprov md =
     foldE (core_path nm drvs dep_map regprov md) (dd_get checkdrv md)"

definition get_core_deps :: "fsys \<Rightarrow> (str \<Rightarrow> str) \<Rightarrow> str \<Rightarrow> pyset \<Rightarrow> pyset \<Rightarrow> pyset dict res" where
  "get_core_deps fs nm check_dir drvs busreg_apis =
     (let checkdrv = check_drv (fs_walk fs check_dir) in
      bindE (foldE (reg_mod nm checkdrv drvs busreg_apis) (map fst checkdrv) []) (\<lambda>regprov.
      bindE (get_deps fs check_dir) (\<lambda>(dep_map, rev_dep).
      foldE (core_mod nm checkdrv drvs dep_map regprov) (map fst checkdrv) [])))"

text \<open>
  The main of \<open>builddep.py\<close>: the shell commands it runs, and how it ends. \<open>mounted\<close> is the file system
  behind the mount. \<open>get_core_deps\<close> has three arguments and is called with two.
\<close>

definition call_core_deps :: "nat \<Rightarrow> unit res" where
  "call_core_deps nargs = guardE (nargs = 3) TypeError"

definition builddep_main ::
    "fsys \<Rightarrow> fsys \<Rightarrow> (str \<Rightarrow> str option) \<Rightarrow> (str \<Rightarrow> str list) \<Rightarrow> str list \<Rightarrow> str list \<times> unit res" where
  "builddep_main fs mounted link globs argv =
     (case bindE (index argv 1) (\<lambda>target_img. bindE (index argv 2) (\<lambda>check_dir.
             bindE (load_db fs ''../hwenv/hyperv.txt'' ''../gen_database/platform.db'') (\<lambda>hw. Inr (target_img, check_dir)))) of
        Inl e \<Rightarrow> ([], Inl e)
      | Inr (target_img, check_dir) \<Rightarrow>
          ([''guestmount -a '' @ target_img @ '' --rw -i '' @ check_dir],
           bindE (get_target_info mounted link globs check_dir None) (\<lambda>_.
           bindE (get_kernel_ver mounted link globs check_dir) (\<lambda>mod_ver. call_core_deps 2))))"

text \<open>So it never writes \<open>dep.log\<close>, and once it has mounted the image it never unmounts it.\<close>

lemma builddep_main_fails: "\<exists>e. snd (builddep_main fs mounted link globs argv) = Inl e"
proof -
  have "bindE m (\<lambda>_. bindE n (\<lambda>_. call_core_deps 2)) \<noteq> Inr u" for m :: "'a res" and n :: "'b res" and u
    by (auto simp: bindE_Inr_iff call_core_deps_def)
  then have "snd (builddep_main fs mounted link globs argv) \<noteq> Inr u" for u
    unfolding builddep_main_def by (auto split: sum.splits)
  then show ?thesis by (cases "snd (builddep_main fs mounted link globs argv)") blast+
qed

subsection \<open>checkmodsym.get_data_deps\<close>

definition export_types :: "str list" where
  "export_types = [''B'', ''b'', ''C'', ''c'', ''D'', ''d'', ''G'', ''g'', ''S'', ''s'', ''T'', ''t'', ''W'', ''w'', ''V'', ''v'']"

text \<open>\<open>import_symmap\<close>: what each user of a module imports of its symbols, if anything.\<close>

definition import_map :: "(str \<Rightarrow> str) \<Rightarrow> str list \<Rightarrow> str list \<Rightarrow> pyset dict res" where
  "import_map nm export_sym mods =
     bindE (mapE (\<lambda>md. bindE (get_sym nm md [''U'', ''u'']) (\<lambda>syms.
       Inr (md, filter (\<lambda>s. s \<in> set syms) export_sym))) mods) (\<lambda>ps. Inr (filter (\<lambda>p. snd p \<noteq> []) ps))"

text \<open>\<open>itertools.combinations(keys, 2)\<close>\<close>

fun pairs_of :: "'a list \<Rightarrow> ('a \<times> 'a) list" where
  "pairs_of [] = []"
| "pairs_of (x # xs) = map (Pair x) xs @ pairs_of xs"

type_synonym data_deps = "(str \<times> (str \<times> (str \<times> pyset) list) list) list"

definition data_add :: "str \<Rightarrow> str \<Rightarrow> str \<times> pyset \<Rightarrow> data_deps \<Rightarrow> data_deps" where
  "data_add m n v t = AList.update m (dl_add n v (dd_get t m)) t"

definition depends :: "pyset dict \<Rightarrow> str \<Rightarrow> str \<Rightarrow> bool" where
  "depends rev_dep m n \<longleftrightarrow> m \<in> set (dd_get rev_dep n)"

definition data_pair :: "pyset dict \<Rightarrow> str \<Rightarrow> (str \<times> pyset) \<times> (str \<times> pyset) \<Rightarrow> data_deps \<Rightarrow> data_deps" where
  "data_pair rev_dep k mn t = (case mn of ((m, ms), (n, ns)) \<Rightarrow>
     let shared_sym = filter (\<lambda>s. s \<in> set ns) ms in
     if depends rev_dep m n \<or> depends rev_dep n m \<or> shared_sym = [] then t
     else data_add n m (k, shared_sym) (data_add m n (k, shared_sym) t))"

definition data_mod :: "(str \<Rightarrow> str) \<Rightarrow> pyset dict \<Rightarrow> str \<times> pyset \<Rightarrow> data_deps \<Rightarrow> data_deps res" where
  "data_mod nm rev_dep kus t = (case kus of (k, us) \<Rightarrow>
     if length us < 2 then Inr t
     else bindE (get_sym nm k export_types) (\<lambda>export_sym.
       bindE (import_map nm (remdups export_sym) us) (\<lambda>im.
         Inr (fold (data_pair rev_dep k) (pairs_of im) t))))"

definition get_data_deps :: "fsys \<Rightarrow> (str \<Rightarrow> str) \<Rightarrow> str \<Rightarrow> data_deps res" where
  "get_data_deps fs nm dir = bindE (get_path_rev_deps fs dir)
     (\<lambda>rev_dep. foldE (data_mod nm rev_dep) rev_dep [])"

subsection \<open>Drivers that register\<close>

text \<open>A table of sets as a set of pairs.\<close>

definition pairs :: "pyset dict \<Rightarrow> (str \<times> str) set" where
  "pairs t = {(k, v). v \<in> set (dd_get t k)}"

lemma pairs_simps [simp]:
  "pairs (dd_add k v t) = insert (k, v) (pairs t)" "pairs (dd_touch t k) = pairs t" "pairs [] = {}"
  by (auto simp: pairs_def set_dd_add split: if_splits)

definition sym_set :: "(str \<Rightarrow> str) \<Rightarrow> str list \<Rightarrow> str \<Rightarrow> str set" where
  "sym_set nm symty p = (case get_sym nm p symty of Inl e \<Rightarrow> {} | Inr syms \<Rightarrow> set syms)"

definition provides :: "(str \<Rightarrow> str) \<Rightarrow> pyset dict \<Rightarrow> pyset \<Rightarrow> pyset \<Rightarrow> str \<Rightarrow> str \<Rightarrow> bool" where
  "provides nm checkdrv drvs busreg_apis d sy \<longleftrightarrow> d \<notin> set drvs \<and> sy \<in> set busreg_apis \<and>
     (\<exists>p \<in> set (dd_get checkdrv d). sy \<in> sym_set nm [''t'', ''T''] p)"

definition registers :: "(str \<Rightarrow> str) \<Rightarrow> pyset dict \<Rightarrow> pyset \<Rightarrow> pyset \<Rightarrow> str \<Rightarrow> str \<Rightarrow> bool" where
  "registers nm checkdrv drvs busreg_apis u d \<longleftrightarrow>
     (\<exists>p \<in> set (dd_get checkdrv u). \<exists>sy \<in> sym_set nm [''u'', ''U''] p. provides nm checkdrv drvs busreg_apis d sy)"

lemma pairs_fold_add: "pairs (fold (\<lambda>v. if P v then dd_add k v else id) vs t) = pairs t \<union> {(k, v) | v. v \<in> set vs \<and> P v}"
  by (induction vs arbitrary: t) auto

lemma distinct_dd_add: "distinct (map fst t) \<Longrightarrow> distinct (map fst (dd_add k v t))"
  by (simp add: dd_add_def distinct_update)

lemma distinct_fold_add: "distinct (map fst t) \<Longrightarrow> distinct (map fst (fold (\<lambda>v. if P v then dd_add k v else id) vs t))"
  by (induction vs arbitrary: t) (auto intro: distinct_dd_add)

lemma in_keys: "p \<in> set (dd_get t md) \<Longrightarrow> md \<in> fst ` set t"
  using dd_get_outside [of md t] by (cases "md \<in> fst ` set t") auto

lemma regprov_pairs:
  assumes "foldE (reg_mod nm checkdrv drvs apis) (map fst checkdrv) [] = Inr regprov"
  shows "pairs regprov = {(d, sy). provides nm checkdrv drvs apis d sy}"
proof -
  let ?P = "\<lambda>md p. {(md, sy) | sy. sy \<in> sym_set nm [''t'', ''T''] p \<and> sy \<in> set apis}"
  let ?G = "\<lambda>md. if md \<in> set drvs then {} else (\<Union>p \<in> set (dd_get checkdrv md). ?P md p)"
  have path: "pairs v = pairs u \<union> ?P md p" if "reg_path nm apis md p u = Inr v" for md p u v
    using that by (auto simp: reg_path_def bindE_Inr_iff pairs_fold_add sym_set_def)
  have step: "pairs v = pairs u \<union> ?G md" if "reg_mod nm checkdrv drvs apis md u = Inr v" for md u v
  proof (cases "md \<in> set drvs")
    case False
    with that have "foldE (reg_path nm apis md) (dd_get checkdrv md) u = Inr v" by (simp add: reg_mod_def)
    from foldE_union [OF this, where A = pairs, OF path] False show ?thesis by simp
  qed (use that in \<open>simp add: reg_mod_def\<close>)
  have "pairs regprov = pairs [] \<union> (\<Union>md \<in> set (map fst checkdrv). ?G md)"
    by (rule foldE_union [OF assms, where A = pairs]) (rule step)
  also have "\<dots> = {(d, sy). provides nm checkdrv drvs apis d sy}"
    by (auto simp: provides_def split: if_split_asm; blast dest: in_keys)
  finally show ?thesis .
qed

lemma regprov_distinct:
  assumes "foldE (reg_mod nm checkdrv drvs apis) (map fst checkdrv) [] = Inr regprov"
  shows "distinct (map fst regprov)"
proof -
  have path: "distinct (map fst v)" if "distinct (map fst u)" and "reg_path nm apis md p u = Inr v" for md p u v
    using that by (auto simp: reg_path_def bindE_Inr_iff intro: distinct_fold_add)
  have "distinct (map fst v)" if "distinct (map fst u)" and "reg_mod nm checkdrv drvs apis md u = Inr v" for md u v
  proof (cases "md \<in> set drvs")
    case False
    with that(2) have "foldE (reg_path nm apis md) (dd_get checkdrv md) u = Inr v" by (simp add: reg_mod_def)
    from foldE_invariant [OF this, where P = "\<lambda>t. distinct (map fst t)", OF that(1)] path show ?thesis by blast
  qed (use that in \<open>simp add: reg_mod_def\<close>)
  then show ?thesis
    by (intro foldE_invariant [OF assms, where P = "\<lambda>t. distinct (map fst t)"]) simp_all
qed

definition given_drivers :: "pyset \<Rightarrow> pyset dict \<Rightarrow> str \<Rightarrow> str set" where
  "given_drivers drivers dep_map md =
     (if md \<in> set drivers then {md} else {dm. dm \<in> set (dd_get dep_map md) \<and> dm \<in> set drivers})"

lemma provider_set:
  assumes "foldE (reg_mod nm cd drivers apis) (map fst cd) [] = Inr regprov"
  shows "set (map fst (filter (\<lambda>(d, as). sy \<in> set as) regprov)) = {d. provides nm cd drivers apis d sy}"
proof -
  have "(d, as) \<in> set regprov \<longleftrightarrow> map_of regprov d = Some as" for d as
    using regprov_distinct [OF assms] by simp
  then have "d \<in> set (map fst (filter (\<lambda>(d, as). sy \<in> set as) regprov)) \<longleftrightarrow> (d, sy) \<in> pairs regprov" for d
    by (force simp: pairs_def dd_get_def image_iff split: option.splits)
  then show ?thesis using regprov_pairs [OF assms] by auto
qed

text \<open>One module: each provider of a symbol it imports gets the module, or the drivers it depends on.\<close>

lemma core_mod_pairs:
  assumes "foldE (reg_mod nm cd drivers apis) (map fst cd) [] = Inr regprov"
    and "core_mod nm cd drivers dep_map regprov md u = Inr v"
  shows "pairs v = pairs u \<union> (\<Union>p \<in> set (dd_get cd md). \<Union>s \<in> sym_set nm [''u'', ''U''] p.
    {d. provides nm cd drivers apis d s} \<times> given_drivers drivers dep_map md)"
proof -
  have add: "pairs v = pairs u \<union> Pair d ` given_drivers drivers dep_map md"
    if "core_add drivers dep_map md d u = Inr v" for d u v
    using that by (auto simp: core_add_def given_drivers_def Let_def bindE_Inr_iff pairs_fold_add dict_get_Inr dd_get_def
        split: if_split_asm)
  have sy: "pairs v = pairs u \<union> {d. provides nm cd drivers apis d s} \<times> given_drivers drivers dep_map md"
    if "core_sym drivers dep_map regprov md s u = Inr v" for s u v
    using foldE_union [OF that [unfolded core_sym_def], where A = pairs, OF add] unfolding provider_set [OF assms(1)] by auto
  have path: "pairs v = pairs u \<union> (\<Union>s \<in> sym_set nm [''u'', ''U''] p.
      {d. provides nm cd drivers apis d s} \<times> given_drivers drivers dep_map md)"
    if "core_path nm drivers dep_map regprov md p u = Inr v" for p u v
  proof -
    from that obtain syms where s: "get_sym nm p [''u'', ''U''] = Inr syms"
      and f: "foldE (core_sym drivers dep_map regprov md) syms u = Inr v"
      by (auto simp: core_path_def bindE_Inr_iff)
    from foldE_union [OF f, where A = pairs, OF sy] show ?thesis by (simp add: sym_set_def s)
  qed
  show ?thesis by (rule foldE_union [OF assms(2) [unfolded core_mod_def], where A = pairs]) (rule path)
qed

lemma core_pairs:
  assumes "foldE (reg_mod nm cd drivers apis) (map fst cd) [] = Inr regprov"
    and "foldE (core_mod nm cd drivers dep_map regprov) (map fst cd) [] = Inr core"
  shows "pairs core = {(d, m). \<exists>u. registers nm cd drivers apis u d \<and> m \<in> given_drivers drivers dep_map u}"
proof -
  have "pairs core = pairs [] \<union> (\<Union>md \<in> set (map fst cd). \<Union>p \<in> set (dd_get cd md). \<Union>s \<in> sym_set nm [''u'', ''U''] p.
      {d. provides nm cd drivers apis d s} \<times> given_drivers drivers dep_map md)"
    by (rule foldE_union [OF assms(2), where A = pairs]) (rule core_mod_pairs [OF assms(1)])
  also have "\<dots> = {(d, m). \<exists>u. registers nm cd drivers apis u d \<and> m \<in> given_drivers drivers dep_map u}"
    by (auto simp: registers_def; blast dest: in_keys)
  finally show ?thesis .
qed

text \<open>
  C33: the map of a bus or class module to its drivers holds exactly the drivers that import one of the
  registration functions the module defines and, for a module in between that imports one and is no
  driver, the drivers which that module itself depends on (\<open>dep_map[mod]\<close>). The comment of the source
  promises its dependents, the drivers that use the module; those are not recorded, as the witness shows.
\<close>

theorem core_deps_exact:
  assumes "get_core_deps fs nm dir drivers apis = Inr core"
  shows "\<exists>dep_map rev_dep. get_deps fs dir = Inr (dep_map, rev_dep) \<and>
    (\<forall>d m. m \<in> set (dd_get core d) \<longleftrightarrow> m \<in> set drivers \<and>
      (registers nm (check_drv (fs_walk fs dir)) drivers apis m d \<or>
       (\<exists>u. u \<notin> set drivers \<and> registers nm (check_drv (fs_walk fs dir)) drivers apis u d \<and>
         m \<in> set (dd_get dep_map u))))"
proof -
  define cd where "cd = check_drv (fs_walk fs dir)"
  from assms obtain regprov dep_map rev_dep where reg: "foldE (reg_mod nm cd drivers apis) (map fst cd) [] = Inr regprov"
    and deps: "get_deps fs dir = Inr (dep_map, rev_dep)"
    and core: "foldE (core_mod nm cd drivers dep_map regprov) (map fst cd) [] = Inr core"
    by (auto simp: get_core_deps_def Let_def bindE_Inr_iff cd_def)
  have "m \<in> set (dd_get core d) \<longleftrightarrow> (d, m) \<in> pairs core" for d m by (simp add: pairs_def)
  then have "m \<in> set (dd_get core d) \<longleftrightarrow> m \<in> set drivers \<and> (registers nm cd drivers apis m d \<or>
       (\<exists>u. u \<notin> set drivers \<and> registers nm cd drivers apis u d \<and> m \<in> set (dd_get dep_map u)))" for d m
    unfolding core_pairs [OF reg core] by (auto simp: given_drivers_def split: if_split_asm)
  with deps show ?thesis unfolding cd_def by blast
qed

text \<open>
  \<open>helper\<close> is no driver and registers with \<open>my-bus\<close>; it depends on the driver \<open>base\<close>, and the driver
  \<open>card\<close> depends on it. The driver recorded for the bus is \<open>base\<close>.
\<close>

definition demo_bus :: fsys where
  "demo_bus = \<lparr>fs_walk = \<lambda>_. [(''/m'', [''my-bus.ko'', ''helper.ko'', ''base.ko.zst'', ''card.ko'', ''modules.dep''])],
     fs_exists = \<lambda>_. True,
     fs_text = \<lambda>_. Some (''helper.ko: base.ko.zst my-bus.ko'' @ [CHR 0x0A] @ ''card.ko: helper.ko base.ko.zst my-bus.ko'')\<rparr>"

definition demo_nm :: "str \<Rightarrow> str" where
  "demo_nm p = (if p = ''/m/my-bus.ko'' then ''0010 T bus_register''
     else if p = ''/m/helper.ko'' then ''U bus_register'' else ''U printk'')"

theorem core_deps_exact_witness:
  "\<exists>dep_map rev_dep. get_deps demo_bus ''/m'' = Inr (dep_map, rev_dep) \<and>
    (\<forall>d m. m \<in> set (dd_get [(''my_bus'', [''base''])] d) \<longleftrightarrow> m \<in> set [''base'', ''card''] \<and>
      (registers demo_nm (check_drv (fs_walk demo_bus ''/m'')) [''base'', ''card''] [''bus_register''] m d \<or>
       (\<exists>u. u \<notin> set [''base'', ''card''] \<and>
         registers demo_nm (check_drv (fs_walk demo_bus ''/m'')) [''base'', ''card''] [''bus_register''] u d \<and>
         m \<in> set (dd_get dep_map u)))) \<and>
    ''base'' \<in> set (dd_get dep_map ''helper'') \<and> ''helper'' \<in> set (dd_get dep_map ''card'')"
proof -
  have "get_core_deps demo_bus demo_nm ''/m'' [''base'', ''card''] [''bus_register''] = Inr [(''my_bus'', [''base''])]"
    by code_simp
  note exact = core_deps_exact [OF this]
  have "case get_deps demo_bus ''/m'' of Inl e \<Rightarrow> False | Inr (dep_map, rev_dep) \<Rightarrow>
      ''base'' \<in> set (dd_get dep_map ''helper'') \<and> ''helper'' \<in> set (dd_get dep_map ''card'')" by code_simp
  with exact show ?thesis by (elim exE conjE) (intro exI conjI, assumption+, simp_all)
qed

subsection \<open>Shared symbols\<close>

lemma dd_get_data_add:
  "dd_get (dd_get (data_add m n v t) m') n' =
    (if m' = m \<and> n' = n then dd_get (dd_get t m) n @ [v] else dd_get (dd_get t m') n')"
  by (simp add: data_add_def)

definition data_at :: "data_deps \<Rightarrow> str \<Rightarrow> str \<Rightarrow> (str \<times> pyset) list" where
  "data_at t m n = dd_get (dd_get t m) n"

lemma data_at_add: "data_at (data_add m n v t) x y = data_at t x y @ (if x = m \<and> y = n then [v] else [])"
proof (cases "x = m \<and> y = n")
  case True
  then show ?thesis unfolding data_at_def dd_get_data_add by (simp only: if_True simp_thms)
next
  case False
  then show ?thesis unfolding data_at_def dd_get_data_add by (simp only: if_False simp_thms append_Nil2)
qed

text \<open>What the pass over one module adds between two of its users.\<close>

definition shared :: "pyset dict \<Rightarrow> str \<Rightarrow> (str \<times> pyset) \<times> (str \<times> pyset) \<Rightarrow> str \<Rightarrow> str \<Rightarrow> (str \<times> pyset) list" where
  "shared rev_dep k p a b = (case p of ((m, ms), (n, ns)) \<Rightarrow>
     let s = filter (\<lambda>s. s \<in> set ns) ms in
     if depends rev_dep m n \<or> depends rev_dep n m \<or> s = [] then []
     else (if a = m \<and> b = n then [(k, s)] else []) @ (if a = n \<and> b = m then [(k, s)] else []))"

lemma data_pair_at: "data_at (data_pair rev_dep k p t) a b = data_at t a b @ shared rev_dep k p a b"
proof -
  obtain m ms n ns where p: "p = ((m, ms), (n, ns))" by (metis surj_pair)
  define s where "s = filter (\<lambda>s. s \<in> set ns) ms"
  have "data_pair rev_dep k p t = (if depends rev_dep m n \<or> depends rev_dep n m \<or> s = [] then t
      else data_add n m (k, s) (data_add m n (k, s) t))"
    by (simp add: data_pair_def p s_def Let_def)
  moreover have "shared rev_dep k p a b = (if depends rev_dep m n \<or> depends rev_dep n m \<or> s = [] then []
      else (if a = m \<and> b = n then [(k, s)] else []) @ (if a = n \<and> b = m then [(k, s)] else []))"
    unfolding shared_def p s_def Let_def prod.case by (rule refl)
  ultimately show ?thesis by (simp only: if_distrib [of "\<lambda>t. data_at t a b"] data_at_add append_assoc) simp
qed

lemma data_pairs_at: "data_at (fold (data_pair rev_dep k) ps t) a b = data_at t a b @ concat (map (\<lambda>p. shared rev_dep k p a b) ps)"
  by (induction ps arbitrary: t) (simp_all add: data_pair_at)

lemma set_pairs_of: "distinct (map f xs) \<Longrightarrow> (x, y) \<in> set (pairs_of xs) \<Longrightarrow> x \<in> set xs \<and> y \<in> set xs \<and> f x \<noteq> f y"
  by (induction xs) auto

lemma pairs_of_either: "x \<in> set xs \<Longrightarrow> y \<in> set xs \<Longrightarrow> x \<noteq> y \<Longrightarrow> (x, y) \<in> set (pairs_of xs) \<or> (y, x) \<in> set (pairs_of xs)"
  by (induction xs) auto

lemma mapE_det: "mapE f xs = Inr ys \<Longrightarrow> (\<And>x y. f x = Inr y \<Longrightarrow> y = g x) \<Longrightarrow> ys = map g xs"
  by (induction xs arbitrary: ys) (auto simp: bindE_Inr_iff)

text \<open>The symbols of \<open>k\<close> that both \<open>a\<close> and \<open>b\<close> import.\<close>

definition exports :: "(str \<Rightarrow> str) \<Rightarrow> str \<Rightarrow> str list" where
  "exports nm k = (case get_sym nm k export_types of Inl e \<Rightarrow> [] | Inr syms \<Rightarrow> remdups syms)"

definition common_syms :: "(str \<Rightarrow> str) \<Rightarrow> str \<Rightarrow> str \<Rightarrow> str \<Rightarrow> str list" where
  "common_syms nm k a b =
     filter (\<lambda>s. s \<in> sym_set nm [''U'', ''u''] a \<and> s \<in> sym_set nm [''U'', ''u''] b) (exports nm k)"

definition data_facts :: "data_deps \<Rightarrow> (str \<times> str \<times> str \<times> pyset) set" where
  "data_facts t = {(a, b, e). e \<in> set (data_at t a b)}"

definition data_rule :: "(str \<Rightarrow> str) \<Rightarrow> pyset dict \<Rightarrow> str \<Rightarrow> str list \<Rightarrow> (str \<times> str \<times> str \<times> pyset) set" where
  "data_rule nm rev_dep k us = {(a, b, k', s). k' = k \<and> a \<in> set us \<and> b \<in> set us \<and> a \<noteq> b \<and>
     \<not> depends rev_dep a b \<and> \<not> depends rev_dep b a \<and> s = common_syms nm k a b \<and> s \<noteq> []}"

lemma import_map_eq:
  assumes "import_map nm ex mods = Inr im"
  shows "im = filter (\<lambda>p. snd p \<noteq> []) (map (\<lambda>md. (md, filter (\<lambda>s. s \<in> sym_set nm [''U'', ''u''] md) ex)) mods)"
  using assms unfolding import_map_def
  by (auto simp: bindE_Inr_iff sym_set_def dest!: mapE_det [where g = "\<lambda>md. (md, filter (\<lambda>s. s \<in> sym_set nm [''U'', ''u''] md) ex)"])

lemma data_mod_facts:
  assumes "data_mod nm rev_dep (k, us) t = Inr u" and "distinct us"
  shows "data_facts u = data_facts t \<union> data_rule nm rev_dep k us"
proof (cases "length us < 2")
  case True
  then have "\<exists>x. set us \<subseteq> {x}" by (cases us; cases "tl us") auto
  then have "data_rule nm rev_dep k us = {}" by (auto simp: data_rule_def)
  with assms True show ?thesis by (simp add: data_mod_def)
next
  case False
  let ?imp = "\<lambda>md. filter (\<lambda>s. s \<in> sym_set nm [''U'', ''u''] md) (exports nm k)"
  from assms(1) False obtain im where "import_map nm (exports nm k) us = Inr im"
    and u: "u = fold (data_pair rev_dep k) (pairs_of im) t"
    by (auto simp: data_mod_def bindE_Inr_iff exports_def)
  then have im: "im = filter (\<lambda>p. snd p \<noteq> []) (map (\<lambda>md. (md, ?imp md)) us)" by (intro import_map_eq)
  then have keys: "distinct (map fst im)" using assms(2) by (simp add: distinct_map_filter comp_def)
  have in_im: "(m, ms) \<in> set im \<longleftrightarrow> m \<in> set us \<and> ms = ?imp m \<and> ms \<noteq> []" for m ms by (auto simp: im)
  have both: "filter (\<lambda>s. s \<in> set (?imp n)) (?imp m) = common_syms nm k m n"
    "common_syms nm k m n = common_syms nm k n m" for m n
    by (auto simp: common_syms_def intro: filter_cong)
  have sh: "(k', s) \<in> set (shared rev_dep k ((m, ?imp m), (n, ?imp n)) a b) \<longleftrightarrow>
      k' = k \<and> s = common_syms nm k m n \<and> s \<noteq> [] \<and> \<not> depends rev_dep m n \<and> \<not> depends rev_dep n m \<and>
      (a = m \<and> b = n \<or> a = n \<and> b = m)" for k' s m n a b
    unfolding shared_def prod.case both(1) by (auto simp: Let_def)
  have "(a, b, k', s) \<in> data_rule nm rev_dep k us \<longleftrightarrow>
      (\<exists>p \<in> set (pairs_of im). (k', s) \<in> set (shared rev_dep k p a b))" for a b k' s
  proof
    assume l: "(a, b, k', s) \<in> data_rule nm rev_dep k us"
    then have "common_syms nm k a b \<noteq> []" by (auto simp: data_rule_def)
    then have "?imp a \<noteq> []" "?imp b \<noteq> []" by (auto simp: common_syms_def filter_empty_conv)
    with l have "(a, ?imp a) \<in> set im" "(b, ?imp b) \<in> set im" "(a, ?imp a) \<noteq> (b, ?imp b)"
      by (auto simp: in_im data_rule_def)
    from pairs_of_either [OF this]
    have "((a, ?imp a), (b, ?imp b)) \<in> set (pairs_of im) \<or> ((b, ?imp b), (a, ?imp a)) \<in> set (pairs_of im)" .
    moreover have "(k', s) \<in> set (shared rev_dep k ((a, ?imp a), (b, ?imp b)) a b)"
      "(k', s) \<in> set (shared rev_dep k ((b, ?imp b), (a, ?imp a)) a b)"
      using l both(2) [of a b] unfolding sh by (auto simp: data_rule_def)
    ultimately show "\<exists>p \<in> set (pairs_of im). (k', s) \<in> set (shared rev_dep k p a b)" by blast
  next
    assume "\<exists>p \<in> set (pairs_of im). (k', s) \<in> set (shared rev_dep k p a b)"
    then obtain m ms n ns where p: "((m, ms), (n, ns)) \<in> set (pairs_of im)"
      and e: "(k', s) \<in> set (shared rev_dep k ((m, ms), (n, ns)) a b)" by (metis surj_pair)
    from set_pairs_of [OF keys p] have mn: "m \<in> set us" "n \<in> set us" "m \<noteq> n" "ms = ?imp m" "ns = ?imp n"
      by (simp_all add: in_im)
    show "(a, b, k', s) \<in> data_rule nm rev_dep k us"
      using e [unfolded mn(4,5) sh] mn(1-3) both(2) [of m n] by (auto simp: data_rule_def)
  qed
  then have "data_facts u = data_facts t \<union> data_rule nm rev_dep k us"
    unfolding data_facts_def u data_pairs_at by auto
  then show ?thesis .
qed

lemma rev_deps_distinct:
  assumes "get_path_rev_deps fs dir = Inr rev_dep"
  shows "distinct (map fst rev_dep) \<and> (\<forall>k. distinct (dd_get rev_dep k))"
proof -
  let ?P = "\<lambda>t. distinct (map fst t) \<and> (\<forall>k. distinct (dd_get t k))"
  have add: "?P (dd_add k v t)" if "?P t" for k v and t :: "pyset dict"
    using that by (simp add: distinct_dd_add distinct_dd_get_add)
  have step: "?P v" if "?P u" and "path_dep_line dir line u = Inr v" for line u v
  proof -
    from that(2) obtain key ds where "v = fold (\<lambda>d. dd_add (path_join dir d) (path_join dir key)) (split_ws (strip ds)) u"
      by (auto simp: path_dep_line_def split: list.splits)
    moreover have "?P (fold (\<lambda>d. dd_add (path_join dir d) (path_join dir key)) ws u)" for ws
      by (rule fold_keeps [where P = ?P, OF that(1)]) (rule add)
    ultimately show ?thesis by (simp only: simp_thms)
  qed
  from assms obtain data where f: "foldE (path_dep_line dir) (lines_of (strip data)) [] = Inr rev_dep"
    by (auto simp: get_path_rev_deps_def bindE_Inr_iff)
  have "?P []" by simp
  from foldE_invariant [where P = ?P, OF f this] step show ?thesis by blast
qed

lemma data_facts_rules:
  assumes rev: "get_path_rev_deps fs dir = Inr rev_dep" and f: "foldE (data_mod nm rev_dep) rev_dep [] = Inr t"
  shows "data_facts t = (\<Union>k \<in> fst ` set rev_dep. data_rule nm rev_dep k (dd_get rev_dep k))"
proof -
  note dist = rev_deps_distinct [OF rev]
  have "data_facts t = data_facts [] \<union> (\<Union>kus \<in> set rev_dep. data_rule nm rev_dep (fst kus) (dd_get rev_dep (fst kus)))"
  proof (rule foldE_union [OF f, where A = data_facts])
    fix kus u v assume k: "kus \<in> set rev_dep" and d: "data_mod nm rev_dep kus u = Inr v"
    then have snd: "snd kus = dd_get rev_dep (fst kus)" using dict_entry [OF dist [THEN conjunct1], of "fst kus" "snd kus"] by simp
    then have "distinct (snd kus)" using dist by simp
    with d show "data_facts v = data_facts u \<union> data_rule nm rev_dep (fst kus) (dd_get rev_dep (fst kus))"
      unfolding snd [symmetric] by (intro data_mod_facts) simp_all
  qed
  also have "data_facts [] = {}" by (simp add: data_facts_def data_at_def)
  finally show ?thesis by (simp add: image_image)
qed

text \<open>
  C34: the shared data between modules is exact and symmetric: between two modules the table has one
  entry for each module both depend on and import a common symbol of, with all such symbols, unless
  one of the two depends on the other.
\<close>

theorem data_deps_exact:
  assumes "get_data_deps fs nm dir = Inr t"
  shows "\<exists>rev_dep. get_path_rev_deps fs dir = Inr rev_dep \<and>
    (\<forall>a b e. e \<in> set (data_at t a b) \<longleftrightarrow> (\<exists>k. e = (k, common_syms nm k a b) \<and> common_syms nm k a b \<noteq> [] \<and>
      a \<noteq> b \<and> a \<in> set (dd_get rev_dep k) \<and> b \<in> set (dd_get rev_dep k) \<and>
      \<not> depends rev_dep a b \<and> \<not> depends rev_dep b a))"
proof -
  from assms obtain rev_dep where rev: "get_path_rev_deps fs dir = Inr rev_dep"
    and f: "foldE (data_mod nm rev_dep) rev_dep [] = Inr t"
    by (auto simp: get_data_deps_def bindE_Inr_iff)
  have "e \<in> set (data_at t a b) \<longleftrightarrow> (\<exists>k. e = (k, common_syms nm k a b) \<and> common_syms nm k a b \<noteq> [] \<and>
      a \<noteq> b \<and> a \<in> set (dd_get rev_dep k) \<and> b \<in> set (dd_get rev_dep k) \<and>
      \<not> depends rev_dep a b \<and> \<not> depends rev_dep b a)" for a b e
  proof -
    have "e \<in> set (data_at t a b) \<longleftrightarrow> (a, b, e) \<in> data_facts t" by (simp add: data_facts_def)
    also have "\<dots> \<longleftrightarrow> (\<exists>k. (a, b, e) \<in> data_rule nm rev_dep k (dd_get rev_dep k))"
      unfolding data_facts_rules [OF rev f] using in_keys by (fastforce simp: data_rule_def)
    also have "\<dots> \<longleftrightarrow> (\<exists>k. e = (k, common_syms nm k a b) \<and> common_syms nm k a b \<noteq> [] \<and>
      a \<noteq> b \<and> a \<in> set (dd_get rev_dep k) \<and> b \<in> set (dd_get rev_dep k) \<and>
      \<not> depends rev_dep a b \<and> \<not> depends rev_dep b a)"
    proof -
      obtain k' s where "e = (k', s)" by (cases e)
      then show ?thesis unfolding data_rule_def mem_Collect_eq prod.case prod.inject by blast
    qed
    finally show ?thesis .
  qed
  with rev show ?thesis by blast
qed

definition demo_libs :: fsys where
  "demo_libs = \<lparr>fs_walk = \<lambda>_. [], fs_exists = \<lambda>_. True,
     fs_text = \<lambda>_. Some (''a.ko: lib.ko'' @ [CHR 0x0A] @ ''b.ko: lib.ko'')\<rparr>"

definition demo_lib_nm :: "str \<Rightarrow> str" where
  "demo_lib_nm p = (if p = ''/m/lib.ko'' then ''0010 D state'' else ''U state'')"

definition demo_data :: data_deps where
  "demo_data = [(''/m/b.ko'', [(''/m/a.ko'', [(''/m/lib.ko'', [''state''])])]),
     (''/m/a.ko'', [(''/m/b.ko'', [(''/m/lib.ko'', [''state''])])])]"

theorem data_deps_exact_witness:
  "\<exists>rev_dep. get_path_rev_deps demo_libs ''/m'' = Inr rev_dep \<and>
    (\<forall>a b e. e \<in> set (data_at demo_data a b) \<longleftrightarrow> (\<exists>k. e = (k, common_syms demo_lib_nm k a b) \<and>
      common_syms demo_lib_nm k a b \<noteq> [] \<and>
      a \<noteq> b \<and> a \<in> set (dd_get rev_dep k) \<and> b \<in> set (dd_get rev_dep k) \<and>
      \<not> depends rev_dep a b \<and> \<not> depends rev_dep b a))"
proof (rule data_deps_exact)
  show "get_data_deps demo_libs demo_lib_nm ''/m'' = Inr demo_data" by code_simp
qed

end
