(* ===== verification/Spec2Isabelle.thy ===== *)
theory Spec2Isabelle
  imports FdepOrder Mount Batch ModInitCb CoreDeps
begin

text \<open>
  Hacksaw removes the drivers of hardware a machine does not have from a Linux disk image. This
  development models its Python scripts and proves what makes them correct, or shows where they are
  not. Each theory says in its first text block which file of \<open>src/\<close> it models and how.

  The program and its flow:

  \<^item> Database. \<open>hwdb/prepare_database/modinitcb.py\<close> finds the init functions of all source files and the
    modules and archives that hold them (\<open>ModInitCb\<close>); \<open>kernel/buildir.py\<close> and \<open>kernel/linkir.py\<close> make
    and link the bitcode the LLVM passes read, with a pool of processes (\<open>Pool\<close>);
    \<open>driver_model/batch-opt-pass.py\<close> runs the passes (\<open>Batch\<close>); \<open>utils/get-mod-init.py\<close>,
    \<open>driver_model/uniq-funcs.py\<close> and \<open>comp_unit/get-builtin-objs.py\<close> are small filters (\<open>CompUnit\<close>).
  \<^item> Compilation units. \<open>comp_unit/get-obj-kconf-expr.py\<close> runs kmax over the kernel (\<open>Batch\<close>),
    \<open>kreader-normalize.py\<close> reads its output (\<open>CompUnit\<close>), \<open>get-build-deps.py\<close> computes which objects are
    built only with which others (\<open>BuildDeps\<close>, its globals, arguments and exit code in \<open>Workers\<close>; the
    worker processes that compute it are the step relation of \<open>MpPool\<close>), and
    \<open>gen-dep.py\<close> groups the pairs (\<open>CompUnit\<close>) into the file that the analysis loads.
  \<^item> Analysis. \<open>dependency/gen_objdep.py\<close> loads symbols, imports, callbacks and references of all objects
    (\<open>ObjDeps\<close>) and answers queries on them (\<open>ObjQueries\<close>); \<open>dependency/builddep.py\<close> and
    \<open>kernel_patch/checkmodsym.py\<close> read the dependencies of modules (\<open>ModDeps\<close>, \<open>CoreDeps\<close>);
    \<open>hwfilter.load_db\<close> and \<open>hwdb/match-hw.py\<close> match the drivers with the devices (\<open>HwDb\<close>, on the regular
    expressions of \<open>PyRegex\<close>); \<open>kernel_patch/hwfilter.py\<close> looks up the target (\<open>Target\<close>), takes initcall
    symbols apart (\<open>InitCall\<close>), decides which modules and initcalls to remove (\<open>check_drivers\<close> in
    \<open>Drivers\<close>) and which functions nobody needs afterwards (\<open>check_fdep\<close> in \<open>FuncDep\<close>).
  \<^item> Patching. \<open>kernel_patch/disasm.py\<close> finds the instructions to overwrite (\<open>Disasm\<close>), \<open>patch_kernel\<close>
    and \<open>patch_module\<close> overwrite them (\<open>KernelPatch\<close>), \<open>patch_initrd\<close> rebuilds the ramdisk (\<open>Initrd\<close>),
    \<open>kernel_patch/repack_bzimage.py\<close> puts the kernel back into its boot image (\<open>BzImage\<close>), and
    \<open>kernel_patch/patch-disk-image.py\<close> composes analysis and patching (\<open>PatchImage\<close>) on a mounted image
    (\<open>Mount\<close>).

  How the code is modelled. \<open>PyPrelude\<close>, \<open>PyStr\<close>, \<open>PyDict\<close>, \<open>PyPath\<close> and \<open>PyBytes\<close> hold Python's values:
  an operation that may raise returns \<open>py_exc + 'a\<close> and is sequenced by \<open>bindE\<close>, a loop over a list is
  \<open>foldE\<close> (or \<open>fold\<close> when nothing raises), a dictionary is an association list in insertion order, a
  set is a list of its elements in the order a loop meets them: statements about what is computed from
  given tables speak of its elements only, and \<open>FdepOrder\<close> compares tables in different orders. Files
  are byte lists with Python's negative indices; a file system is what the scripts read of it (walks,
  existence, texts). Objects with fields are records (\<open>objdeps\<close>,
  \<open>builtin\<close>, \<open>verdict\<close>, \<open>bcmap\<close>, \<open>pool\<close>), changed by explicit state passing; the pool of processes is a
  step relation, because processes exit at any time, and so is \<open>multiprocessing.Pool.map\<close>, whose
  workers run their elements in any interleaving.

  Loops. Loops over data are structural. \<open>disasm\<close> decodes at most three instructions, so the bound 3
  is exact. The fixpoint loop of \<open>check_fdep\<close> is a function whose termination is proved from the number
  of functions not yet removed, and a property states that it ends. The searches for the Makefile,
  the worklist over archives and the polling of the mount may not end and are partial functions,
  with properties that say when they return. \<open>find_all\<close> and
  \<open>sub_all\<close> of \<open>BuildDeps\<close> take a bound that is the length of the text, and every step drops a
  character. The argument \<open>limit\<close> of \<open>resolve_from_mk\<close> is Python's recursion limit: beyond it the
  result is the exception \<open>RecursionError\<close>, as in the code.

  What is shown, by theory:

  \<^item> \<open>FuncDep\<close>, over the contract of repeated passes in \<open>HornPasses\<close> (locale \<open>horn_pass\<close>): \<open>check_fdep\<close>
    computes the least set of removable functions and is monotone; a function of the kernel it removes
    has no surviving user, while every candidate of a loadable module is removed whatever uses it.
    Branches that cannot be taken are shown to be dead.
  \<^item> \<open>FdepOrder\<close>: the result is the same in every order of the sets \<open>check_fdep\<close> and the tables of \<open>ObjDeps\<close>
    are visited in, when no object belongs to two modules, and an example where it is not otherwise.
  \<^item> \<open>Drivers\<close>: the scan of the symbol table is exact; the dependents of removed builtin drivers are removed
    with them; no module of the image is ever removed (with the locales \<open>reversed_tables\<close> and \<open>dep_graph\<close>
    on the tables of dependencies); and the defects of the name handling.
  \<^item> \<open>ObjDeps\<close>, \<open>ObjQueries\<close>: the tables agree in both directions after loading (the same locale
    \<open>reversed_tables\<close>), the queries are exact, and what a query leaves in its defaultdicts is invisible.
  \<^item> \<open>KernelPatch\<close>, \<open>Disasm\<close>: a patched function returns at once, only bytes in the windows of patched
    symbols change, and the two copies of the loop agree (locale \<open>endbr_test\<close>).
  \<^item> \<open>BzImage\<close>, \<open>Initrd\<close>, \<open>PatchImage\<close>, \<open>Mount\<close>: what is written back is the old content but for the parts
    replaced, in order; and the image is cleaned up only when its server is gone.
  \<^item> \<open>HwDb\<close>, \<open>InitCall\<close>, \<open>CoreDeps\<close>, \<open>ModInitCb\<close>, \<open>BuildDeps\<close>: exactness of the tables and round trips of
    the names; \<open>CompUnit\<close>, \<open>Workers\<close>: what \<open>get-build-deps.py\<close> finds is what the analysis reads.
    The mains of the scripts are modelled with their exit codes; that of \<open>builddep.py\<close> always raises.
  \<^item> \<open>Pool\<close>, \<open>Batch\<close>: no command is lost, all are started and end, and in which orders they run.
  \<^item> \<open>MpPool\<close> (the standard library's pool, so that no line of \<open>src/\<close> maps to it), \<open>Workers\<close>: a map over worker processes ends after at most three steps per element, and
    the result of \<open>get-build-deps.py\<close> is that of a loop, whatever the workers do.
  \<^item> \<open>PatchImage\<close>: the composition of analysis and patching leaves a kernel image that differs from the
    old one only in the windows of the symbols the analysis gave, repacked, or left beside the old image.

  Parameters and what is relied on: the decoder capstone (\<open>good_decoder\<close>: it decodes a non-empty prefix
  of at most the bytes it is given), \<open>dd\<close> (\<open>good_dd\<close>: it replaces exactly the bytes it copies),
  \<open>depmod\<close> (\<open>good_depmod\<close>: it writes only files that are not
  modules), z3 (it may
  raise), \<open>nm\<close>, \<open>readelf\<close>, \<open>objdump\<close>, compressors, \<open>guestmount\<close> and the file system. Regular expressions outside
  the fragment of \<open>PyRegex\<close> give \<open>Unmodelled\<close>.

  Not modelled: \<open>argparse\<close> (its result is an argument), the text of progress and error messages,
  a program that is missing when \<open>Popen\<close> starts it, the shell scripts and containers, and the C++ passes under \<open>driver_model/llvm-pass\<close> and
  \<open>hwdb/platform\<close>: they are in another language, on the API of LLVM, and their output is an input here.
\<close>

end
